(* ===== verification/Prelude.thy ===== *)
theory Prelude
  imports Main "HOL-Library.Word" "HOL-Library.Code_Target_Nat"
begin

text \<open>
  What the components share: names for the C integer types, the collections of
  rewrite rules the component proofs use, generic facts on words, lists and options,
  and the interface of a machine that is run step by step.
\<close>

unbundle bit_operations_syntax

section \<open>C integer types\<close>

type_synonym u8 = "8 word"
type_synonym u16 = "16 word"
type_synonym u32 = "32 word"
type_synonym u64 = "64 word"

named_theorems mem_simps \<open>reading memory after writing it\<close>
named_theorems vm_simps \<open>unfolding one instruction of the eBPF machine\<close>
named_theorems heap_simps \<open>field access on the block headers of the plugin heap\<close>

abbreviation UINT64_MAX :: u64 where
  "UINT64_MAX \<equiv> - 1"

abbreviation UINT32_MAX :: u64 where
  "UINT32_MAX \<equiv> 0xFFFFFFFF"

section \<open>Words\<close>

lemma unat_lt64 [simp]: "unat (x :: u64) < 18446744073709551616"
  using unsigned_less [of x] by simp

lemma unat_lt32 [simp]: "unat (x :: u32) < 4294967296"
  using unsigned_less [of x] by simp

lemma unat_lt16 [simp]: "unat (x :: u16) < 65536"
  using unsigned_less [of x] by simp

lemma unat_lt8 [simp]: "unat (x :: u8) < 256"
  using unsigned_less [of x] by simp

lemma unat_of_nat64 [simp]: "n < 18446744073709551616 \<Longrightarrow> unat (of_nat n :: u64) = n"
  by (simp add: unat_of_nat take_bit_nat_eq_self_iff)

lemma unat_of_nat32 [simp]: "n < 4294967296 \<Longrightarrow> unat (of_nat n :: u32) = n"
  by (simp add: unat_of_nat take_bit_nat_eq_self_iff)

lemma unat_of_nat16 [simp]: "n < 65536 \<Longrightarrow> unat (of_nat n :: u16) = n"
  by (simp add: unat_of_nat take_bit_nat_eq_self_iff)

lemma unat_add_no_wrap:
  assumes "unat (a :: u64) + n < 18446744073709551616"
  shows "unat (a + of_nat n) = unat a + n"
proof -
  from assms have "unat (of_nat n :: u64) = n" by (intro unat_of_nat64) linarith
  with assms show ?thesis by (simp add: unat_word_ariths)
qed

lemma unat_add_words:
  "unat (a + b :: u64) =
     (if unat a + unat b < 18446744073709551616 then unat a + unat b
      else unat a + unat b - 18446744073709551616)"
proof -
  have "unat a < 18446744073709551616" "unat b < 18446744073709551616" by (rule unat_lt64)+
  then have "unat a + unat b < 18446744073709551616 + 18446744073709551616" by linarith
  then have "(unat a + unat b) mod 18446744073709551616 = (if unat a + unat b < 18446744073709551616
      then unat a + unat b else unat a + unat b - 18446744073709551616)"
    by (simp add: mod_if)
  then show ?thesis by (simp add: unat_word_ariths)
qed

lemma of_nat_u64_inject:
  "m < 18446744073709551616 \<Longrightarrow> n < 18446744073709551616 \<Longrightarrow>
   (of_nat m :: u64) = of_nat n \<longleftrightarrow> m = n"
  by (metis unat_of_nat64)

lemma and_UINT32_MAX_less: "unat (x AND UINT32_MAX) < 4294967296"
proof -
  have "x AND UINT32_MAX \<le> UINT32_MAX"
    by (rule word_and_le1)
  then have "unat (x AND UINT32_MAX) \<le> unat UINT32_MAX"
    by (simp add: word_le_nat_alt)
  then show ?thesis by simp
qed

lemma sint_nonneg_unat: "0 \<le> sint (i :: u32) \<Longrightarrow> sint i = int (unat i)"
proof -
  assume "0 \<le> sint i"
  then have nb: "\<not> bit (uint i) 31" by (simp add: sint_uint)
  have "take_bit 31 (uint i) = take_bit (Suc 31) (uint i)"
    using nb by (subst take_bit_Suc_from_most) simp
  also have "\<dots> = uint i"
    using uint_lt2p [of i] by (intro take_bit_int_eq_self) simp_all
  finally show ?thesis
    using nb by (simp add: sint_uint signed_take_bit_eq_if_positive)
qed

lemma sint_range_unat: "0 \<le> sint (i :: u32) \<and> sint i < int n \<longleftrightarrow> unat i < n \<and> unat i < 2147483648"
proof
  assume a: "0 \<le> sint i \<and> sint i < int n"
  moreover have "sint i < 2147483648" using sint_lt [of i] by simp
  ultimately show "unat i < n \<and> unat i < 2147483648" using sint_nonneg_unat [of i] by linarith
next
  assume a: "unat i < n \<and> unat i < 2147483648"
  then have "uint i < int 2147483648" by (subst nat_less_iff [OF uint_ge_0, symmetric]) simp
  then have "uint i < 2 ^ 31" by simp
  then have "take_bit 31 (uint i) = uint i" by (intro take_bit_int_eq_self) simp_all
  then have "\<not> bit (uint i) 31" using bit_take_bit_iff [of 31 "uint i" 31] by simp
  then have "0 \<le> sint i" by (simp add: sint_uint)
  moreover have "int (unat i) < int n" using a by (simp only: of_nat_less_iff)
  ultimately show "0 \<le> sint i \<and> sint i < int n" using sint_nonneg_unat [of i] by simp
qed

lemma unat_ucast32 [simp]: "unat (ucast (x :: u32) :: u64) = unat x"
proof -
  have "unat x < 2 ^ 64" by (rule less_trans [OF unat_lt32]) simp
  then have "take_bit 64 (unat x) = unat x" by (rule take_bit_nat_eq_self)
  then show ?thesis by (simp add: unsigned_ucast_eq)
qed

lemma sint_small64: "unat (x :: u64) < 9223372036854775808 \<Longrightarrow> sint x = int (unat x)"
proof -
  assume "unat x < 9223372036854775808"
  then have "uint x < int 9223372036854775808" by (subst nat_less_iff [OF uint_ge_0, symmetric]) simp
  then have "uint x < 2 ^ 63" by simp
  then have t: "take_bit 63 (uint x) = uint x" by (intro take_bit_int_eq_self) simp_all
  then have "\<not> bit (uint x) 63" using bit_take_bit_iff [of 63 "uint x" 63] by simp
  with t show ?thesis by (simp add: sint_uint signed_take_bit_eq_if_positive)
qed

section \<open>Machines run step by step\<close>

text \<open>
  A machine is a step function whose result is either a next state or a final
  answer. \<open>run_fuel\<close> runs at most the given number of steps, \<open>None\<close> meaning that they
  were not enough.
\<close>

fun run_fuel :: "('s \<Rightarrow> 's + 'r) \<Rightarrow> nat \<Rightarrow> 's \<Rightarrow> 'r option" where
  "run_fuel step 0 s = None"
| "run_fuel step (Suc n) s =
     (case step s of Inl s' \<Rightarrow> run_fuel step n s' | Inr r \<Rightarrow> Some r)"

text \<open>
  The contract of a machine with an invariant: the invariant is kept by every step,
  and every answer it gives from a state of the invariant is acceptable.
\<close>

lemma run_fuel_numeral [simp]:
  "run_fuel step (numeral k) s =
     (case step s of Inl s' \<Rightarrow> run_fuel step (pred_numeral k) s' | Inr r \<Rightarrow> Some r)"
  by (simp add: numeral_eq_Suc)

locale stepper =
  fixes step :: "'s \<Rightarrow> 's + 'r"
    and inv :: "'s \<Rightarrow> bool"
    and good :: "'r \<Rightarrow> bool"
  assumes step_inv: "inv s \<Longrightarrow> step s = Inl s' \<Longrightarrow> inv s'"
    and step_good: "inv s \<Longrightarrow> step s = Inr r \<Longrightarrow> good r"
begin

lemma run_fuel_good: "inv s \<Longrightarrow> run_fuel step n s = Some r \<Longrightarrow> good r"
proof (induction n arbitrary: s)
  case 0
  then show ?case by simp
next
  case (Suc n)
  then show ?case
    by (cases "step s") (auto dest: step_inv step_good)
qed

end

text \<open>With a measure that every step decreases, that much fuel is enough.\<close>

locale bounded_stepper = stepper +
  fixes dist :: "'a \<Rightarrow> nat"
  assumes step_dist: "inv s \<Longrightarrow> step s = Inl s' \<Longrightarrow> dist s' < dist s"
begin

lemma run_fuel_enough: "inv s \<Longrightarrow> dist s < n \<Longrightarrow> \<exists>r. run_fuel step n s = Some r \<and> good r"
proof (induction n arbitrary: s)
  case 0
  then show ?case by simp
next
  case (Suc n)
  show ?case
  proof (cases "step s")
    case (Inl s')
    with Suc.prems have "inv s'" and "dist s' < n"
      by (auto dest: step_inv step_dist)
    with Suc.IH Inl show ?thesis by simp
  next
    case (Inr r)
    with Suc.prems show ?thesis by (auto dest: step_good)
  qed
qed

end

lemma run_fuel_mono: "run_fuel step n s = Some r \<Longrightarrow> n \<le> m \<Longrightarrow> run_fuel step m s = Some r"
proof (induction n arbitrary: s m)
  case 0
  then show ?case by simp
next
  case (Suc n)
  then obtain k where m: "m = Suc k" and "n \<le> k" by (cases m) auto
  with Suc show ?case by (auto split: sum.splits)
qed

section \<open>Lists\<close>

lemma nth_map_upt: "i < n \<Longrightarrow> map f [0..<n] ! i = f i"
  by simp

lemma find_SomeD:
  "find P xs = Some x \<Longrightarrow> P x \<and> x \<in> set xs"
  by (induction xs) (auto split: if_splits)

lemma find_Some_props: "find P xs = Some x \<Longrightarrow> x \<in> set xs \<and> P x"
  by (induction xs) (auto split: if_splits)

end
