(* ===== verification/Memory.thy ===== *)
theory Memory
  imports Prelude
begin

text \<open>
  The flat memory of the process: 64-bit addresses to bytes, little-endian, as on the
  x86-64 hosts the repository targets (its just-in-time compiler emits x86-64 code).
  Address arithmetic wraps around at \<open>2 ^ 64\<close>.
\<close>

type_synonym memory = "u64 \<Rightarrow> u8"

section \<open>Little-endian numbers\<close>

fun le_bytes :: "nat \<Rightarrow> nat \<Rightarrow> u8 list" where
  "le_bytes 0 v = []"
| "le_bytes (Suc n) v = of_nat (v mod 256) # le_bytes n (v div 256)"

fun le_nat :: "u8 list \<Rightarrow> nat" where
  "le_nat [] = 0"
| "le_nat (b # bs) = unat b + 256 * le_nat bs"

lemma length_le_bytes [simp]: "length (le_bytes n v) = n"
  by (induction n arbitrary: v) auto

lemma le_nat_le_bytes: "le_nat (le_bytes n v) = v mod 256 ^ n"
proof (induction n arbitrary: v)
  case 0
  then show ?case by simp
next
  case (Suc n)
  have "unat (of_nat (v mod 256) :: u8) = v mod 256"
    by (simp add: unat_of_nat take_bit_nat_eq_self)
  with Suc show ?case
    by (simp add: mod_mult2_eq)
qed

lemma le_nat_bound: "le_nat bs < 256 ^ length bs"
proof (induction bs)
  case Nil
  then show ?case by simp
next
  case (Cons b bs)
  then have "unat b + 256 * le_nat bs < 256 + 256 * le_nat bs" by simp
  also have "\<dots> \<le> 256 * 256 ^ length bs" using Cons by simp
  finally show ?case by simp
qed

lemma le_bytes_le_nat: "le_bytes (length bs) (le_nat bs) = bs"
proof (induction bs)
  case Nil
  then show ?case by simp
next
  case (Cons b bs)
  have "(unat b + 256 * le_nat bs) mod 256 = unat b"
    and "(unat b + 256 * le_nat bs) div 256 = le_nat bs"
    by simp_all
  with Cons show ?case by simp
qed

section \<open>Blocks of bytes\<close>

definition load_bytes :: "memory \<Rightarrow> u64 \<Rightarrow> nat \<Rightarrow> u8 list" where
  "load_bytes m a n = map (\<lambda>i. m (a + of_nat i)) [0..<n]"

definition store_bytes :: "memory \<Rightarrow> u64 \<Rightarrow> u8 list \<Rightarrow> memory" where
  "store_bytes m a bs = (\<lambda>x. if unat (x - a) < length bs then bs ! unat (x - a) else m x)"

text \<open>The addresses of the \<open>n\<close> bytes from \<open>a\<close> on.\<close>

definition span :: "u64 \<Rightarrow> nat \<Rightarrow> u64 set" where
  "span a n = {x. unat (x - a) < n}"

lemma store_bytes_outside [mem_simps]: "x \<notin> span a (length bs) \<Longrightarrow> store_bytes m a bs x = m x"
  by (simp add: store_bytes_def span_def)

lemma store_bytes_Nil [simp]: "store_bytes m a [] = m"
  by (simp add: store_bytes_def)

lemma length_load_bytes [simp]: "length (load_bytes m a n) = n"
  by (simp add: load_bytes_def)

lemma in_span: "n < 18446744073709551616 \<Longrightarrow> i < n \<Longrightarrow> a + of_nat i \<in> span a n"
  by (simp add: span_def)

lemma load_store_same [mem_simps]:
  "length bs = n \<Longrightarrow> n < 18446744073709551616 \<Longrightarrow> load_bytes (store_bytes m a bs) a n = bs"
  by (rule nth_equalityI)
    (auto simp: load_bytes_def store_bytes_def)

lemma load_store_disjoint [mem_simps]:
  assumes "span a n \<inter> span b (length bs) = {}" "n < 18446744073709551616"
  shows "load_bytes (store_bytes m b bs) a n = load_bytes m a n"
  using assms by (auto simp: load_bytes_def intro!: store_bytes_outside dest: in_span)

section \<open>Integers in memory\<close>

definition load_le :: "memory \<Rightarrow> u64 \<Rightarrow> nat \<Rightarrow> nat" where
  "load_le m a n = le_nat (load_bytes m a n)"

definition store_le :: "memory \<Rightarrow> u64 \<Rightarrow> nat \<Rightarrow> nat \<Rightarrow> memory" where
  "store_le m a n v = store_bytes m a (le_bytes n v)"

lemma load_store_le [mem_simps]:
  "n < 18446744073709551616 \<Longrightarrow> load_le (store_le m a n v) a n = v mod 256 ^ n"
  by (simp add: load_le_def store_le_def mem_simps le_nat_le_bytes)

lemma load_store_le_disjoint [mem_simps]:
  "span a n \<inter> span b k = {} \<Longrightarrow> n < 18446744073709551616 \<Longrightarrow>
   load_le (store_le m b k v) a n = load_le m a n"
  by (simp add: load_le_def store_le_def mem_simps)

lemma store_le_outside [mem_simps]: "x \<notin> span a n \<Longrightarrow> store_le m a n v x = m x"
  by (simp add: store_le_def mem_simps)

lemma load_le_bound: "load_le m a n < 256 ^ n"
  using le_nat_bound [of "load_bytes m a n"] by (simp add: load_le_def)

section \<open>Parts of memory\<close>

lemma span_shorter: "n \<le> k \<Longrightarrow> span a n \<subseteq> span a k"
  by (auto simp: span_def)

lemma load_le_cong: "(\<And>x. x \<in> span a n \<Longrightarrow> m x = m' x) \<Longrightarrow> n < 18446744073709551616 \<Longrightarrow> load_le m a n = load_le m' a n"
  by (auto simp: load_le_def load_bytes_def in_span intro!: arg_cong [where f = le_nat])

lemma span_offset: "k + n \<le> l \<Longrightarrow> l < 18446744073709551616 \<Longrightarrow> span (a + of_nat k) n \<subseteq> span a l"
proof
  fix x
  assume kn: "k + n \<le> l" "l < 18446744073709551616" and "x \<in> span (a + of_nat k) n"
  then have u: "unat (x - (a + of_nat k)) < n" by (simp add: span_def)
  have "x - a = (x - (a + of_nat k)) + of_nat k" by simp
  with u kn have "unat (x - a) = unat (x - (a + of_nat k)) + k"
    using unat_add_no_wrap [of "x - (a + of_nat k)" k] by simp
  with u kn show "x \<in> span a l" by (simp add: span_def)
qed

lemma span_apart:
  assumes "unat a + n \<le> unat b" "unat b + k \<le> 18446744073709551616"
  shows "span a n \<inter> span b k = {}"
proof -
  have False if x: "x \<in> span a n" "x \<in> span b k" for x
  proof -
    from x have xa: "unat (x - a) < n" and xb: "unat (x - b) < k" by (simp_all add: span_def)
    have "unat (a + (x - a)) = unat a + unat (x - a)" "unat (b + (x - b)) = unat b + unat (x - b)"
      using xa xb assms by (simp_all only: unat_add_words, simp_all)
    with xa xb assms show False by simp
  qed
  then show ?thesis by blast
qed

lemma load_bytes_cong:
  "(\<And>x. x \<in> span a n \<Longrightarrow> m x = m' x) \<Longrightarrow> n < 18446744073709551616 \<Longrightarrow> load_bytes m a n = load_bytes m' a n"
  by (simp add: load_bytes_def in_span)

section \<open>Adjacent parts\<close>

lemma unat_sub_offset:
  assumes "j \<le> unat (x - a)"
  shows "unat (x - (a + of_nat j) :: u64) = unat (x - a) - j"
proof -
  have "unat (x - a) < 18446744073709551616" by (rule unat_lt64)
  with assms have "j < 18446744073709551616" by linarith
  then have "unat (of_nat j :: u64) = j" by simp
  with assms have "unat ((x - a) - of_nat j) = unat (x - a) - j" by (simp add: unat_sub word_le_nat_alt)
  then show ?thesis by (simp only: diff_diff_eq not_False_eq_True)
qed

lemma in_span_offset:
  assumes "j + k \<le> 18446744073709551616"
  shows "x \<in> span (a + of_nat j) k \<longleftrightarrow> j \<le> unat (x - a) \<and> unat (x - a) < j + k"
proof (cases "k = 0")
  case False
  with assms have j: "j < 18446744073709551616" by linarith
  then have uj: "unat (of_nat j :: u64) = j" by simp
  show ?thesis
  proof (cases "j \<le> unat (x - a)")
    case True
    then show ?thesis using unat_sub_offset [OF True] by (auto simp: span_def)
  next
    case False
    have "unat ((x - a) - of_nat j) + j = unat (x - a) + 18446744073709551616"
    proof -
      have "unat ((x - a) - of_nat j + of_nat j) = (if unat ((x - a) - of_nat j) + j < 18446744073709551616
          then unat ((x - a) - of_nat j) + j else unat ((x - a) - of_nat j) + j - 18446744073709551616)"
        using unat_add_words [of "(x - a) - of_nat j" "of_nat j"] uj by simp
      with False show ?thesis by (simp split: if_splits)
    qed
    with False assms have "\<not> unat ((x - a) - of_nat j) < k" by linarith
    then have "\<not> unat (x - (a + of_nat j)) < k" by (simp only: diff_diff_eq not_False_eq_True)
    with False show ?thesis by (simp add: span_def)
  qed
qed (simp add: span_def)

lemma store_bytes_append:
  assumes "length xs + length ys \<le> 18446744073709551616"
  shows "store_bytes (store_bytes m a xs) (a + of_nat (length xs)) ys = store_bytes m a (xs @ ys)"
proof
  fix x
  have s: "x \<in> span (a + of_nat (length xs)) (length ys) \<longleftrightarrow>
      length xs \<le> unat (x - a) \<and> unat (x - a) < length xs + length ys"
    using assms by (rule in_span_offset)
  show "store_bytes (store_bytes m a xs) (a + of_nat (length xs)) ys x = store_bytes m a (xs @ ys) x"
  proof (cases "x \<in> span (a + of_nat (length xs)) (length ys)")
    case True
    then have "unat (x - (a + of_nat (length xs))) = unat (x - a) - length xs"
      using s by (intro unat_sub_offset) simp
    with True s show ?thesis by (simp add: store_bytes_def nth_append span_def)
  next
    case False
    with s show ?thesis by (auto simp: store_bytes_def nth_append span_def)
  qed
qed

lemma store_bytes_prepend:
  assumes "length xs + length ys < 18446744073709551616" "b = a + of_nat (length xs)"
  shows "store_bytes (store_bytes m b ys) a xs = store_bytes m a (xs @ ys)"
proof -
  have "span a (length xs) \<inter> span b (length ys) = {}"
    using in_span_offset [of "length xs" "length ys" _ a] assms by (auto simp: span_def)
  then have "store_bytes (store_bytes m b ys) a xs = store_bytes (store_bytes m a xs) b ys"
    by (auto simp: store_bytes_def span_def fun_eq_iff)
  with assms show ?thesis by (simp add: store_bytes_append)
qed

lemma load_bytes_append:
  "load_bytes m a (n + k) = load_bytes m a n @ load_bytes m (a + of_nat n) k"
  by (rule nth_equalityI) (auto simp: load_bytes_def nth_append add.assoc of_nat_diff simp flip: of_nat_add)

text \<open>Copies compose: upwards when the target lies below, downwards when it lies above.\<close>

lemma at_offset: "x = a + j \<longleftrightarrow> unat (x - a) = unat (j :: u64)"
proof
  assume "unat (x - a) = unat j"
  then have "x - a = j" by (simp add: unsigned_word_eqI)
  then show "x = a + j" by (simp add: algebra_simps)
qed simp

end
