(* ===== verification/Ebpf.thy ===== *)
theory Ebpf
  imports Memory
begin

text \<open>
  The eBPF instruction set of \<^verbatim>\<open>src/ubpf/vm/ebpf.h\<close>: the instruction word, the opcode
  bytes built from class, source and operation, and their decoding.
\<close>

section \<open>Instructions\<close>

text \<open>
  \<^verbatim>\<open>struct ebpf_inst\<close>: \<open>dst\<close> and \<open>src\<close> are the 4-bit fields of the second byte; \<open>offset\<close> and
  \<open>imm\<close> are signed and kept as words, read with \<open>sint\<close> or extended with \<open>scast\<close>.
\<close>

record ebpf_inst =
  opcode :: u8
  dst :: "4 word"
  src :: "4 word"
  offset :: u16
  imm :: u32

text \<open>The eight bytes of an instruction in memory, as the cast of the code pointer reads them.\<close>

definition inst_of_bytes :: "u8 list \<Rightarrow> ebpf_inst" where
  "inst_of_bytes bs =
     \<lparr>opcode = bs ! 0,
      dst = ucast (bs ! 1),
      src = ucast (drop_bit 4 (bs ! 1)),
      offset = of_nat (le_nat (take 2 (drop 2 bs))),
      imm = of_nat (le_nat (take 4 (drop 4 bs)))\<rparr>"

definition bytes_of_inst :: "ebpf_inst \<Rightarrow> u8 list" where
  "bytes_of_inst i =
     [opcode i, ucast (dst i) OR push_bit 4 (ucast (src i))]
     @ le_bytes 2 (unat (offset i)) @ le_bytes 4 (unat (imm i))"

definition insts_of_code :: "u8 list \<Rightarrow> ebpf_inst list" where
  "insts_of_code code = map (\<lambda>i. inst_of_bytes (take 8 (drop (8 * i) code))) [0..<length code div 8]"

section \<open>Opcodes\<close>

datatype operand = IMM | REG

datatype alu = ADD | SUB | MUL | DIV | BOR | BAND | LSH | RSH | MOD | BXOR | MOV | ARSH

datatype msize = W | H | B | DW

datatype jcond = JEQ | JGT | JGE | JSET | JNE | JSGT | JSGE | JLT | JLE | JSLT | JSLE

datatype ebpf_op =
    Alu alu operand
  | Neg
  | Le
  | Be
  | Alu64 alu operand
  | Neg64
  | Ldx msize
  | St msize
  | Stx msize
  | Lddw
  | Ja
  | Jmp jcond operand
  | Call
  | Exit

definition EBPF_CLS_LD :: u8 where "EBPF_CLS_LD = 0x00"
definition EBPF_CLS_LDX :: u8 where "EBPF_CLS_LDX = 0x01"
definition EBPF_CLS_ST :: u8 where "EBPF_CLS_ST = 0x02"
definition EBPF_CLS_STX :: u8 where "EBPF_CLS_STX = 0x03"
definition EBPF_CLS_ALU :: u8 where "EBPF_CLS_ALU = 0x04"
definition EBPF_CLS_JMP :: u8 where "EBPF_CLS_JMP = 0x05"
definition EBPF_CLS_ALU64 :: u8 where "EBPF_CLS_ALU64 = 0x07"
definition EBPF_MODE_IMM :: u8 where "EBPF_MODE_IMM = 0x00"
definition EBPF_MODE_MEM :: u8 where "EBPF_MODE_MEM = 0x60"

fun src_bits :: "operand \<Rightarrow> u8" where
  "src_bits IMM = 0x00"
| "src_bits REG = 0x08"

fun size_bits :: "msize \<Rightarrow> u8" where
  "size_bits W = 0x00"
| "size_bits H = 0x08"
| "size_bits B = 0x10"
| "size_bits DW = 0x18"

fun alu_bits :: "alu \<Rightarrow> u8" where
  "alu_bits ADD = 0x00"
| "alu_bits SUB = 0x10"
| "alu_bits MUL = 0x20"
| "alu_bits DIV = 0x30"
| "alu_bits BOR = 0x40"
| "alu_bits BAND = 0x50"
| "alu_bits LSH = 0x60"
| "alu_bits RSH = 0x70"
| "alu_bits MOD = 0x90"
| "alu_bits BXOR = 0xa0"
| "alu_bits MOV = 0xb0"
| "alu_bits ARSH = 0xc0"

fun jcond_bits :: "jcond \<Rightarrow> u8" where
  "jcond_bits JEQ = 0x10"
| "jcond_bits JGT = 0x20"
| "jcond_bits JGE = 0x30"
| "jcond_bits JSET = 0x40"
| "jcond_bits JNE = 0x50"
| "jcond_bits JSGT = 0x60"
| "jcond_bits JSGE = 0x70"
| "jcond_bits JLT = 0xa0"
| "jcond_bits JLE = 0xb0"
| "jcond_bits JSLT = 0xc0"
| "jcond_bits JSLE = 0xd0"

text \<open>The value of each \<^verbatim>\<open>EBPF_OP_*\<close> macro.\<close>

fun op_byte :: "ebpf_op \<Rightarrow> u8" where
  "op_byte (Alu a s) = EBPF_CLS_ALU OR src_bits s OR alu_bits a"
| "op_byte Neg = EBPF_CLS_ALU OR 0x80"
| "op_byte Le = EBPF_CLS_ALU OR src_bits IMM OR 0xd0"
| "op_byte Be = EBPF_CLS_ALU OR src_bits REG OR 0xd0"
| "op_byte (Alu64 a s) = EBPF_CLS_ALU64 OR src_bits s OR alu_bits a"
| "op_byte Neg64 = EBPF_CLS_ALU64 OR 0x80"
| "op_byte (Ldx z) = EBPF_CLS_LDX OR EBPF_MODE_MEM OR size_bits z"
| "op_byte (St z) = EBPF_CLS_ST OR EBPF_MODE_MEM OR size_bits z"
| "op_byte (Stx z) = EBPF_CLS_STX OR EBPF_MODE_MEM OR size_bits z"
| "op_byte Lddw = EBPF_CLS_LD OR EBPF_MODE_IMM OR size_bits DW"
| "op_byte Ja = EBPF_CLS_JMP OR 0x00"
| "op_byte (Jmp c s) = EBPF_CLS_JMP OR src_bits s OR jcond_bits c"
| "op_byte Call = EBPF_CLS_JMP OR 0x80"
| "op_byte Exit = EBPF_CLS_JMP OR 0x90"

definition all_alu :: "alu list" where
  "all_alu = [ADD, SUB, MUL, DIV, BOR, BAND, LSH, RSH, MOD, BXOR, MOV, ARSH]"

definition all_jcond :: "jcond list" where
  "all_jcond = [JEQ, JGT, JGE, JSET, JNE, JSGT, JSGE, JLT, JLE, JSLT, JSLE]"

definition all_ops :: "ebpf_op list" where
  "all_ops =
     concat (map (\<lambda>a. [Alu a IMM, Alu a REG, Alu64 a IMM, Alu64 a REG]) all_alu)
     @ [Neg, Le, Be, Neg64]
     @ concat (map (\<lambda>z. [Ldx z, St z, Stx z]) [W, H, B, DW])
     @ [Lddw, Ja, Call, Exit]
     @ concat (map (\<lambda>c. [Jmp c IMM, Jmp c REG]) all_jcond)"

text \<open>
  A \<^verbatim>\<open>switch (inst.opcode)\<close> over the macros selects the case whose label is the byte;
  \<open>None\<close> is the default.
\<close>

definition decode :: "u8 \<Rightarrow> ebpf_op option" where
  "decode c = find (\<lambda>op. op_byte op = c) all_ops"

section \<open>Properties of the encoding\<close>

lemma all_ops_complete: "op \<in> set all_ops"
proof (cases op)
  case (Alu a s)
  then show ?thesis by (cases a; cases s) (simp_all add: all_ops_def all_alu_def)
next
  case (Alu64 a s)
  then show ?thesis by (cases a; cases s) (simp_all add: all_ops_def all_alu_def)
next
  case (Jmp c s)
  then show ?thesis by (cases c; cases s) (simp_all add: all_ops_def all_alu_def all_jcond_def)
next
  case (Ldx z)
  then show ?thesis by (cases z) (simp_all add: all_ops_def all_alu_def)
next
  case (St z)
  then show ?thesis by (cases z) (simp_all add: all_ops_def all_alu_def)
next
  case (Stx z)
  then show ?thesis by (cases z) (simp_all add: all_ops_def all_alu_def)
qed (simp_all add: all_ops_def all_alu_def)

lemmas ebpf_consts =
  EBPF_CLS_LD_def EBPF_CLS_LDX_def EBPF_CLS_ST_def EBPF_CLS_STX_def EBPF_CLS_ALU_def
  EBPF_CLS_JMP_def EBPF_CLS_ALU64_def EBPF_MODE_IMM_def EBPF_MODE_MEM_def

lemmas all_ops_defs = all_ops_def all_alu_def all_jcond_def

lemma distinct_map_uint: "distinct (map (uint \<circ> f) xs) \<Longrightarrow> distinct (map f xs)"
  by (metis distinct_map map_map)

lemma distinct_op_bytes: "distinct (map op_byte all_ops)"
  by (rule distinct_map_uint) (simp add: all_ops_defs ebpf_consts)

lemma find_inj_on:
  "distinct (map f xs) \<Longrightarrow> x \<in> set xs \<Longrightarrow> find (\<lambda>y. f y = f x) xs = Some x"
  by (induction xs) (auto simp: image_iff)

lemma decode_op_byte [simp]: "decode (op_byte op) = Some op"
  unfolding decode_def
  using distinct_op_bytes all_ops_complete by (rule find_inj_on)

lemma decode_SomeD: "decode c = Some op \<Longrightarrow> op_byte op = c"
  by (auto simp: decode_def dest: find_SomeD)

lemma decode_iff: "decode c = Some op \<longleftrightarrow> c = op_byte op"
  by (auto dest: decode_SomeD)

lemma decode_0 [simp]: "decode 0 = None"
  by (simp add: decode_def all_ops_defs ebpf_consts)

declare op_byte.simps [simp del]

lemma length_insts_of_code [simp]: "length (insts_of_code code) = length code div 8"
  by (simp add: insts_of_code_def)

lemma length_bytes_of_inst [simp]: "length (bytes_of_inst i) = 8"
  by (simp add: bytes_of_inst_def)

lemma inst_of_bytes_of_inst: "inst_of_bytes (bytes_of_inst i) = i"
proof -
  have d: "ucast (ucast (dst i) OR push_bit 4 (ucast (src i)) :: u8) = dst i"
    by (rule bit_word_eqI) (auto simp: bit_simps)
  have s: "ucast (drop_bit 4 (ucast (dst i) OR push_bit 4 (ucast (src i)) :: u8)) = src i"
    by (rule bit_word_eqI) (auto simp: bit_simps dest: bit_imp_le_length)
  show ?thesis
    using d s
    by (simp add: inst_of_bytes_def bytes_of_inst_def le_nat_le_bytes)
qed

end
