(* ===== verification/Ubpf_Vm.thy ===== *)
theory Ubpf_Vm
  imports Ebpf
begin

text \<open>
  The virtual machine object of \<^verbatim>\<open>src/ubpf/vm/ubpf_vm.c\<close>: creation, registration of
  external functions, and loading with the static check \<open>validate\<close>. The interpreter is in
  \<open>Ubpf_Exec\<close>.
\<close>

section \<open>The machine object\<close>

text \<open>
  An external function takes five 64-bit arguments and may change the memory of the
  process and the rest of the world \<open>'w\<close>.
\<close>

type_synonym 'w ext_func =
  "u64 \<Rightarrow> u64 \<Rightarrow> u64 \<Rightarrow> u64 \<Rightarrow> u64 \<Rightarrow> memory \<times> 'w \<Rightarrow> u64 \<times> (memory \<times> 'w)"

definition MAX_INSTS :: nat where "MAX_INSTS = 65536"
definition MAX_EXT_FUNCS :: nat where "MAX_EXT_FUNCS = 64"
definition STACK_SIZE :: nat where "STACK_SIZE = 2048"

record 'w ubpf_vm =
  insts :: "ebpf_inst list option"
  num_insts :: u16
  jitted :: u64
  jitted_size :: u64
  ext_funcs :: "'w ext_func option list"
  ext_func_names :: "string option list"

datatype ubpf_err =
    Code_Already_Loaded
  | Code_Len_Not_Multiple_Of_8
  | Out_Of_Memory
  | Too_Many_Instructions
  | No_Exit
  | Invalid_Endian_Immediate nat
  | Incomplete_Lddw nat
  | Infinite_Loop nat
  | Jump_Out_Of_Bounds nat
  | Jump_To_Middle_Of_Lddw nat
  | Invalid_Call_Immediate nat
  | Call_To_Nonexistent_Function u32 nat
  | Division_By_Zero nat
  | Unknown_Opcode u8 nat
  | Invalid_Source_Register nat
  | Invalid_Destination_Register nat

text \<open>
  \<open>alloc k\<close> says whether the \<open>k\<close>-th \<^verbatim>\<open>calloc\<close> succeeds; \<^verbatim>\<open>calloc\<close> clears, so every slot is NULL.
\<close>

definition ubpf_create :: "(nat \<Rightarrow> bool) \<Rightarrow> 'w ubpf_vm option" where
  "ubpf_create alloc =
     (if \<not> alloc 0 then None
      else if \<not> alloc 1 then None
      else if \<not> alloc 2 then None
      else Some \<lparr>insts = None, num_insts = 0, jitted = 0, jitted_size = 0,
                 ext_funcs = replicate MAX_EXT_FUNCS None,
                 ext_func_names = replicate MAX_EXT_FUNCS None\<rparr>)"

text \<open>What \<^verbatim>\<open>ubpf_destroy\<close> gives back, in its order.\<close>

datatype release = Munmap u64 u64 | Free_Insts | Free_Ext_Funcs | Free_Ext_Func_Names | Free_Vm

definition ubpf_destroy :: "'w ubpf_vm \<Rightarrow> release list" where
  "ubpf_destroy vm =
     (if jitted vm \<noteq> 0 then [Munmap (jitted vm) (jitted_size vm)] else [])
     @ [Free_Insts, Free_Ext_Funcs, Free_Ext_Func_Names, Free_Vm]"

definition ubpf_register ::
  "'w ubpf_vm \<Rightarrow> nat \<Rightarrow> string \<Rightarrow> 'w ext_func \<Rightarrow> int \<times> 'w ubpf_vm" where
  "ubpf_register vm idx name fn =
     (if idx \<ge> MAX_EXT_FUNCS then (- 1, vm)
      else (0, vm\<lparr>ext_funcs := (ext_funcs vm)[idx := Some fn],
                  ext_func_names := (ext_func_names vm)[idx := Some name]\<rparr>))"

text \<open>The loop over the slots, from slot \<open>i\<close> on; \<^verbatim>\<open>(unsigned int)-1\<close> when no name matches.\<close>

fun lookup_name :: "string option list \<Rightarrow> string \<Rightarrow> nat \<Rightarrow> u32" where
  "lookup_name [] name i = - 1"
| "lookup_name (other # names) name i =
     (if other = Some name then of_nat i else lookup_name names name (Suc i))"

definition ubpf_lookup_registered_function :: "'w ubpf_vm \<Rightarrow> string \<Rightarrow> u32" where
  "ubpf_lookup_registered_function vm name = lookup_name (ext_func_names vm) name 0"

section \<open>The static check\<close>

fun is_store :: "ebpf_op \<Rightarrow> bool" where
  "is_store (St z) = True"
| "is_store (Stx z) = True"
| "is_store _ = False"

fun is_jump :: "ebpf_op \<Rightarrow> bool" where
  "is_jump Ja = True"
| "is_jump (Jmp c s) = True"
| "is_jump _ = False"

definition check_jump :: "ebpf_inst list \<Rightarrow> nat \<Rightarrow> ubpf_err option" where
  "check_jump prog i =
     (let new_pc = int i + 1 + sint (offset (prog ! i))
      in if sint (offset (prog ! i)) = - 1 then Some (Infinite_Loop i)
         else if new_pc < 0 \<or> new_pc \<ge> int (length prog) then Some (Jump_Out_Of_Bounds i)
         else if opcode (prog ! nat new_pc) = 0 then Some (Jump_To_Middle_Of_Lddw i)
         else None)"

text \<open>The \<^verbatim>\<open>switch\<close> over the opcode of instruction \<open>i\<close>; \<open>None\<close> means that it breaks without error.\<close>

fun check_op :: "'w ubpf_vm \<Rightarrow> ebpf_inst list \<Rightarrow> nat \<Rightarrow> ebpf_op \<Rightarrow> ubpf_err option" where
  "check_op vm prog i (Alu a IMM) =
     (if (a = DIV \<or> a = MOD) \<and> imm (prog ! i) = 0 then Some (Division_By_Zero i) else None)"
| "check_op vm prog i (Alu a REG) = None"
| "check_op vm prog i Neg = None"
| "check_op vm prog i Le =
     (if imm (prog ! i) \<noteq> 16 \<and> imm (prog ! i) \<noteq> 32 \<and> imm (prog ! i) \<noteq> 64
      then Some (Invalid_Endian_Immediate i) else None)"
| "check_op vm prog i Be =
     (if imm (prog ! i) \<noteq> 16 \<and> imm (prog ! i) \<noteq> 32 \<and> imm (prog ! i) \<noteq> 64
      then Some (Invalid_Endian_Immediate i) else None)"
| "check_op vm prog i (Alu64 a IMM) =
     (if (a = DIV \<or> a = MOD) \<and> imm (prog ! i) = 0 then Some (Division_By_Zero i) else None)"
| "check_op vm prog i (Alu64 a REG) = None"
| "check_op vm prog i Neg64 = None"
| "check_op vm prog i (Ldx z) = None"
| "check_op vm prog i (St z) = None"
| "check_op vm prog i (Stx z) = None"
| "check_op vm prog i Lddw =
     (if i + 1 \<ge> length prog \<or> opcode (prog ! (i + 1)) \<noteq> 0
      then Some (Incomplete_Lddw i) else None)"
| "check_op vm prog i Ja = check_jump prog i"
| "check_op vm prog i (Jmp c s) = check_jump prog i"
| "check_op vm prog i Call =
     (if sint (imm (prog ! i)) < 0 \<or> sint (imm (prog ! i)) \<ge> int MAX_EXT_FUNCS
      then Some (Invalid_Call_Immediate i)
      else case ext_funcs vm ! unat (imm (prog ! i)) of
             None \<Rightarrow> Some (Call_To_Nonexistent_Function (imm (prog ! i)) i)
           | Some f \<Rightarrow> None)"
| "check_op vm prog i Exit = None"

text \<open>The register checks after the \<^verbatim>\<open>switch\<close>; \<open>i\<close> is the loop counter they report.\<close>

definition check_regs :: "ebpf_inst \<Rightarrow> ebpf_op \<Rightarrow> nat \<Rightarrow> ubpf_err option" where
  "check_regs inst op i =
     (if src inst > 10 then Some (Invalid_Source_Register i)
      else if dst inst > 9 \<and> \<not> (is_store op \<and> dst inst = 10)
      then Some (Invalid_Destination_Register i)
      else None)"

text \<open>The loop over the instructions. After \<^verbatim>\<open>lddw\<close> the counter skips the second half.\<close>

function validate_from :: "'w ubpf_vm \<Rightarrow> ebpf_inst list \<Rightarrow> nat \<Rightarrow> ubpf_err option" where
  "validate_from vm prog i =
     (if i < length prog then
        (case decode (opcode (prog ! i)) of
           None \<Rightarrow> Some (Unknown_Opcode (opcode (prog ! i)) i)
         | Some op \<Rightarrow>
             (case check_op vm prog i op of
                Some e \<Rightarrow> Some e
              | None \<Rightarrow>
                  (let i' = (if op = Lddw then i + 1 else i)
                   in case check_regs (prog ! i) op i' of
                        Some e \<Rightarrow> Some e
                      | None \<Rightarrow> validate_from vm prog (i' + 1))))
      else None)"
  by pat_completeness auto
termination
  by (relation "measure (\<lambda>(vm, prog, i). length prog - i)") auto

declare validate_from.simps [simp del]

definition validate :: "'w ubpf_vm \<Rightarrow> ebpf_inst list \<Rightarrow> ubpf_err option" where
  "validate vm prog =
     (if length prog \<ge> MAX_INSTS then Some Too_Many_Instructions
      else if \<not> (\<exists>inst \<in> set prog. opcode inst = op_byte Exit) then Some No_Exit
      else validate_from vm prog 0)"

text \<open>
  Loading the \<open>code_len\<close> bytes at \<open>code\<close>. \<open>alloc\<close> says whether \<^verbatim>\<open>malloc\<close> succeeds.
\<close>

definition ubpf_load ::
  "bool \<Rightarrow> 'w ubpf_vm \<Rightarrow> u8 list \<Rightarrow> u32 \<Rightarrow> ubpf_err + 'w ubpf_vm" where
  "ubpf_load alloc vm code code_len =
     (let prog = insts_of_code (take (unat code_len) code)
      in if insts vm \<noteq> None then Inl Code_Already_Loaded
         else if code_len mod 8 \<noteq> 0 then Inl Code_Len_Not_Multiple_Of_8
         else case validate vm prog of
                Some e \<Rightarrow> Inl e
              | None \<Rightarrow>
                  if \<not> alloc then Inl Out_Of_Memory
                  else Inr (vm\<lparr>insts := Some prog, num_insts := ucast (code_len div 8)\<rparr>))"

section \<open>Memory bounds\<close>

text \<open>
  \<^verbatim>\<open>bounds_check\<close> of \<^verbatim>\<open>ubpf_vm.c\<close>: \<open>addr + size\<close> is pointer arithmetic, which wraps at the end of
  the address space.
\<close>

definition bounds_check :: "u64 \<Rightarrow> nat \<Rightarrow> u64 \<Rightarrow> u64 \<Rightarrow> u64 \<Rightarrow> bool" where
  "bounds_check addr sz mem mem_len stack =
     (if mem \<noteq> 0 \<and> (addr \<ge> mem \<and> addr + of_nat sz \<le> mem + mem_len) then True
      else if addr \<ge> stack \<and> addr + of_nat sz \<le> stack + of_nat STACK_SIZE then True
      else False)"

section \<open>What the static check establishes\<close>

text \<open>The index after instruction \<open>i\<close>: \<^verbatim>\<open>lddw\<close> takes two slots.\<close>

definition next_index :: "ebpf_inst list \<Rightarrow> nat \<Rightarrow> nat" where
  "next_index prog i = (if decode (opcode (prog ! i)) = Some Lddw then i + 2 else i + 1)"

text \<open>The indices at which an instruction starts.\<close>

inductive inst_start :: "ebpf_inst list \<Rightarrow> nat \<Rightarrow> bool" for prog where
  first: "inst_start prog 0"
| follow: "inst_start prog i \<Longrightarrow> i < length prog \<Longrightarrow> inst_start prog (next_index prog i)"

text \<open>What is known of the instruction at a start index of an accepted program.\<close>

definition inst_ok :: "'w ubpf_vm \<Rightarrow> ebpf_inst list \<Rightarrow> nat \<Rightarrow> bool" where
  "inst_ok vm prog i \<longleftrightarrow>
     (case decode (opcode (prog ! i)) of
        None \<Rightarrow> False
      | Some op \<Rightarrow>
          check_op vm prog i op = None
          \<and> src (prog ! i) \<le> 10 \<and> (dst (prog ! i) \<le> 9 \<or> is_store op \<and> dst (prog ! i) = 10))"

definition jump_lands :: "ebpf_inst list \<Rightarrow> nat \<Rightarrow> bool" where
  "jump_lands prog i \<longleftrightarrow>
     (let t = int i + 1 + sint (offset (prog ! i))
      in t \<noteq> int i \<and> 0 \<le> t \<and> t < int (length prog) \<and> inst_start prog (nat t))"

definition op_ok :: "'w ubpf_vm \<Rightarrow> ebpf_inst list \<Rightarrow> nat \<Rightarrow> ebpf_op \<Rightarrow> bool" where
  "op_ok vm prog i op \<longleftrightarrow>
     (op \<in> {Alu DIV IMM, Alu MOD IMM, Alu64 DIV IMM, Alu64 MOD IMM} \<longrightarrow> imm (prog ! i) \<noteq> 0)
     \<and> (op = Le \<or> op = Be \<longrightarrow> imm (prog ! i) \<in> {16, 32, 64})
     \<and> (op = Lddw \<longrightarrow> i + 1 < length prog \<and> opcode (prog ! (i + 1)) = 0)
     \<and> (is_jump op \<longrightarrow> jump_lands prog i)
     \<and> (op = Call \<longrightarrow> unat (imm (prog ! i)) < MAX_EXT_FUNCS
                     \<and> ext_funcs vm ! unat (imm (prog ! i)) \<noteq> None)"

text \<open>
  What the static check is meant to accept: every instruction is known and names registers it may
  use, jumps land on instructions, calls on registered functions, constant divisors are not zero.
\<close>

definition well_formed_at :: "'w ubpf_vm \<Rightarrow> ebpf_inst list \<Rightarrow> nat \<Rightarrow> bool" where
  "well_formed_at vm prog i \<longleftrightarrow>
     (case decode (opcode (prog ! i)) of
        None \<Rightarrow> False
      | Some op \<Rightarrow>
          op_ok vm prog i op
          \<and> src (prog ! i) \<le> 10 \<and> (dst (prog ! i) \<le> 9 \<or> is_store op \<and> dst (prog ! i) = 10))"

definition well_formed :: "'w ubpf_vm \<Rightarrow> ebpf_inst list \<Rightarrow> bool" where
  "well_formed vm prog \<longleftrightarrow>
     length prog < MAX_INSTS \<and> (\<exists>inst \<in> set prog. opcode inst = op_byte Exit)
     \<and> (\<forall>i < length prog. inst_start prog i \<longrightarrow> well_formed_at vm prog i)"

text \<open>What makes the zero opcode mark the second halves of \<^verbatim>\<open>lddw\<close>.\<close>

definition slots_ok :: "ebpf_inst list \<Rightarrow> bool" where
  "slots_ok prog \<longleftrightarrow>
     (\<forall>i < length prog. inst_start prog i \<longrightarrow>
        decode (opcode (prog ! i)) \<noteq> None
        \<and> (decode (opcode (prog ! i)) = Some Lddw \<longrightarrow> i + 1 < length prog \<and> opcode (prog ! (i + 1)) = 0))"

lemma validate_from_step:
  assumes "validate_from vm prog i = None" "i < length prog"
  shows "inst_ok vm prog i \<and> validate_from vm prog (next_index prog i) = None"
  using assms
  by (subst (asm) validate_from.simps)
    (auto simp: inst_ok_def next_index_def check_regs_def Let_def not_less
      split: option.splits if_splits)

lemma validate_from_start:
  assumes "validate_from vm prog 0 = None"
  shows "inst_start prog i \<Longrightarrow> validate_from vm prog i = None"
  by (induction rule: inst_start.induct) (use assms in \<open>auto dest: validate_from_step\<close>)

lemma validate_inst_ok:
  assumes "validate vm prog = None" "inst_start prog i" "i < length prog"
  shows "inst_ok vm prog i"
proof -
  from assms(1) have "validate_from vm prog 0 = None"
    by (auto simp: validate_def split: if_splits)
  with assms(2,3) show ?thesis
    by (auto dest: validate_from_start validate_from_step)
qed

lemma validate_length: "validate vm prog = None \<Longrightarrow> length prog < MAX_INSTS"
  by (auto simp: validate_def split: if_splits)

text \<open>Every slot of a program starts an instruction or is the second half of \<^verbatim>\<open>lddw\<close>.\<close>

lemma start_or_second_half:
  "i < length prog \<Longrightarrow>
   inst_start prog i \<or>
   (\<exists>j. i = Suc j \<and> inst_start prog j \<and> decode (opcode (prog ! j)) = Some Lddw)"
proof (induction i)
  case 0
  then show ?case by (simp add: inst_start.first)
next
  case (Suc i)
  then consider "inst_start prog i"
    | j where "i = Suc j" "inst_start prog j" "decode (opcode (prog ! j)) = Some Lddw"
    by auto
  then show ?case
  proof cases
    case 1
    with Suc.prems inst_start.follow [of prog i] show ?thesis
      by (cases "decode (opcode (prog ! i)) = Some Lddw") (auto simp: next_index_def)
  next
    case 2
    with Suc.prems inst_start.follow [of prog j] show ?thesis by (simp add: next_index_def)
  qed
qed

lemma nonzero_opcode_start:
  assumes "validate vm prog = None" "i < length prog" "opcode (prog ! i) \<noteq> 0"
  shows "inst_start prog i"
  using start_or_second_half [OF assms(2)]
proof
  assume "\<exists>j. i = Suc j \<and> inst_start prog j \<and> decode (opcode (prog ! j)) = Some Lddw"
  then obtain j where j: "i = Suc j" "inst_start prog j" "decode (opcode (prog ! j)) = Some Lddw"
    by blast
  with assms have "inst_ok vm prog j" by (auto intro: validate_inst_ok)
  with j have "opcode (prog ! i) = 0" by (auto simp: inst_ok_def split: if_splits)
  with assms(3) show ?thesis by simp
qed

text \<open>The target of a checked jump starts an instruction.\<close>

lemma check_jump_target:
  assumes "validate vm prog = None" "check_jump prog i = None"
  shows "0 \<le> int i + 1 + sint (offset (prog ! i))"
    and "nat (int i + 1 + sint (offset (prog ! i))) < length prog"
    and "inst_start prog (nat (int i + 1 + sint (offset (prog ! i))))"
proof -
  let ?t = "int i + 1 + sint (offset (prog ! i))"
  from assms(2) have t: "0 \<le> ?t" "?t < int (length prog)" "opcode (prog ! nat ?t) \<noteq> 0"
    by (auto simp: check_jump_def Let_def split: if_splits)
  then have l: "nat ?t < length prog" by linarith
  show "0 \<le> ?t" and "nat ?t < length prog" and "inst_start prog (nat ?t)"
    using t l nonzero_opcode_start [OF assms(1) l] by simp_all
qed

section \<open>The static check is exact\<close>

lemma slots_ok_start: "slots_ok prog \<Longrightarrow> j < length prog \<Longrightarrow> inst_start prog j \<longleftrightarrow> opcode (prog ! j) \<noteq> 0"
  using start_or_second_half [of j prog] by (auto simp: slots_ok_def)

lemma check_jump_iff:
  "slots_ok prog \<Longrightarrow> check_jump prog i = None \<longleftrightarrow> jump_lands prog i"
  by (auto simp: check_jump_def jump_lands_def Let_def slots_ok_start nat_less_iff split: if_splits)

lemma check_op_iff:
  "slots_ok prog \<Longrightarrow> check_op vm prog i op = None \<longleftrightarrow> op_ok vm prog i op"
  using sint_range_unat [of "imm (prog ! i)" MAX_EXT_FUNCS]
  by (cases "(vm, prog, i, op)" rule: check_op.cases)
    (auto simp: op_ok_def check_jump_iff MAX_EXT_FUNCS_def not_le not_less split: option.splits)

lemma inst_ok_iff: "slots_ok prog \<Longrightarrow> inst_ok vm prog i \<longleftrightarrow> well_formed_at vm prog i"
  by (auto simp: inst_ok_def well_formed_at_def check_op_iff split: option.splits)

lemma slots_okI:
  assumes "\<forall>i < length prog. inst_start prog i \<longrightarrow> inst_ok vm prog i \<or> well_formed_at vm prog i"
  shows "slots_ok prog"
proof -
  have "decode (opcode (prog ! i)) \<noteq> None
        \<and> (decode (opcode (prog ! i)) = Some Lddw \<longrightarrow> i + 1 < length prog \<and> opcode (prog ! (i + 1)) = 0)"
    if "inst_ok vm prog i \<or> well_formed_at vm prog i" for i
    using that by (auto simp: inst_ok_def well_formed_at_def op_ok_def split: option.splits if_splits)
  with assms show ?thesis by (auto simp: slots_ok_def)
qed

lemma validate_from_complete:
  assumes "\<forall>j < length prog. inst_start prog j \<longrightarrow> inst_ok vm prog j"
  shows "inst_start prog i \<Longrightarrow> validate_from vm prog i = None"
proof (induction "length prog - i" arbitrary: i rule: less_induct)
  case less
  show ?case
  proof (cases "i < length prog")
    case True
    with less.prems assms have ok: "inst_ok vm prog i" by blast
    have "i < next_index prog i" by (simp add: next_index_def)
    with True have "validate_from vm prog (next_index prog i) = None"
      by (intro less.hyps inst_start.follow less.prems) simp_all
    with ok True show ?thesis
      by (subst validate_from.simps)
        (auto simp: inst_ok_def next_index_def check_regs_def Let_def split: option.splits if_splits)
  qed (simp add: validate_from.simps)
qed

lemma validate_iff: "validate vm prog = None \<longleftrightarrow> well_formed vm prog"
proof -
  have "validate_from vm prog 0 = None \<longleftrightarrow> (\<forall>j < length prog. inst_start prog j \<longrightarrow> inst_ok vm prog j)"
    (is "?v \<longleftrightarrow> ?ok")
  proof
    show "?v \<Longrightarrow> ?ok" using validate_from_start [of vm prog] validate_from_step [of vm prog] by blast
    show "?ok \<Longrightarrow> ?v" by (rule validate_from_complete) (simp_all add: inst_start.first)
  qed
  also have "\<dots> \<longleftrightarrow> (\<forall>j < length prog. inst_start prog j \<longrightarrow> well_formed_at vm prog j)"
    using slots_okI [of prog vm] inst_ok_iff [of prog vm] by blast
  finally show ?thesis
    by (auto simp: validate_def well_formed_def not_le)
qed

section \<open>Registration\<close>

lemma lookup_name_found:
  assumes "idx < length names" "names ! idx = Some name" "\<forall>j < idx. names ! j \<noteq> Some name"
  shows "lookup_name names name i = of_nat (i + idx)"
  using assms
proof (induction names arbitrary: i idx)
  case Nil
  then show ?case by simp
next
  case (Cons other names)
  show ?case
  proof (cases idx)
    case 0
    with Cons.prems show ?thesis by simp
  next
    case (Suc k)
    with Cons.prems have "other \<noteq> Some name" by fastforce
    moreover from Suc Cons.prems have "\<forall>j < k. names ! j \<noteq> Some name" by fastforce
    ultimately show ?thesis using Cons Suc by simp
  qed
qed

lemma lookup_name_missing: "Some name \<notin> set names \<Longrightarrow> lookup_name names name i = - 1"
  by (induction names arbitrary: i) auto

section \<open>Loading\<close>

lemma check_op_cong:
  "ext_funcs vm = ext_funcs vm' \<Longrightarrow> check_op vm prog i op = check_op vm' prog i op"
  by (cases "(vm, prog, i, op)" rule: check_op.cases) auto

lemma validate_from_cong:
  "ext_funcs vm = ext_funcs vm' \<Longrightarrow> validate_from vm prog i = validate_from vm' prog i"
proof (induction vm prog i rule: validate_from.induct)
  case (1 vm prog i)
  note eq = check_op_cong [OF "1.prems", of prog i]
  show ?case
    unfolding validate_from.simps [of vm prog i] validate_from.simps [of vm' prog i] eq Let_def
    by (intro if_cong option.case_cong refl "1.IH" "1.prems") (simp_all add: eq)
qed

lemma validate_cong: "ext_funcs vm = ext_funcs vm' \<Longrightarrow> validate vm prog = validate vm' prog"
  unfolding validate_def by (simp cong: if_cong add: validate_from_cong [of vm vm'])

lemma ubpf_load_Inr:
  assumes "ubpf_load alloc vm code code_len = Inr vm'"
  obtains prog where "prog = insts_of_code (take (unat code_len) code)"
    and "vm' = vm\<lparr>insts := Some prog, num_insts := ucast (code_len div 8)\<rparr>"
    and "insts vm = None" and "8 dvd unat code_len" and "validate vm' prog = None"
proof -
  let ?prog = "insts_of_code (take (unat code_len) code)"
  let ?vm' = "vm\<lparr>insts := Some ?prog, num_insts := ucast (code_len div 8)\<rparr>"
  from assms have n: "insts vm = None" and m: "code_len mod 8 = 0" and v: "validate vm ?prog = None"
    and vm': "vm' = ?vm'"
    by (auto simp: ubpf_load_def Let_def split: if_splits option.splits)
  from m have "unat (code_len mod 8) = 0" by simp
  then have "8 dvd unat code_len" by (simp add: unat_mod mod_eq_0_iff_dvd)
  moreover have "validate vm' ?prog = None"
    using v validate_cong [of vm ?vm'] vm' by simp
  ultimately show thesis using that n vm' by blast
qed

end
