(* ===== verification/Ubpf_Exec.thy ===== *)
theory Ubpf_Exec
  imports Ubpf_Vm
begin

text \<open>
  The interpreter \<^verbatim>\<open>ubpf_exec\<close> of \<^verbatim>\<open>src/ubpf/vm/ubpf_vm.c\<close>. Its loop is a step function; the
  undefined behaviours of C it can run into (a fetch past the last instruction, a shift by
  the width or more, a division whose truncated divisor is zero, a call through NULL) are
  answers of their own, so that proving them away is a statement about the code.
\<close>

section \<open>State and answers\<close>

text \<open>
  The locals of \<^verbatim>\<open>ubpf_exec\<close> that change: \<open>pc\<close> is 16 bits wide, \<open>reg\<close> has 16 entries and is
  indexed by the 4-bit register fields; \<open>store\<close> is the memory of the process and \<open>env\<close> the rest
  of the world, changed by external functions.
\<close>

record 'w mstate =
  pc :: u16
  reg :: "4 word \<Rightarrow> u64"
  store :: memory
  env :: 'w

datatype ub = Fetch_Out_Of_Bounds | Shift_Out_Of_Range | Division_Trap | Call_Null

datatype 'w outcome = Returned u64 memory 'w | Undefined ub

section \<open>Arithmetic\<close>

text \<open>The result of one ALU case: a value, the reported division by zero, or undefined behaviour.\<close>

datatype alu_res = Val u64 | Report_Zero | Undef ub

definition u32 :: "u64 \<Rightarrow> u32" where
  "u32 x = ucast x"

fun alu32_imm :: "alu \<Rightarrow> u64 \<Rightarrow> u32 \<Rightarrow> alu_res" where
  "alu32_imm ADD d i = Val ((d + scast i) AND UINT32_MAX)"
| "alu32_imm SUB d i = Val ((d - scast i) AND UINT32_MAX)"
| "alu32_imm MUL d i = Val ((d * scast i) AND UINT32_MAX)"
| "alu32_imm DIV d i =
     (if u32 (scast i) = 0 then Undef Division_Trap
      else Val (ucast (u32 d div u32 (scast i)) AND UINT32_MAX))"
| "alu32_imm BOR d i = Val ((d OR scast i) AND UINT32_MAX)"
| "alu32_imm BAND d i = Val ((d AND scast i) AND UINT32_MAX)"
| "alu32_imm LSH d i =
     (if 0 \<le> sint i \<and> sint i < 64 then Val (push_bit (nat (sint i)) d AND UINT32_MAX)
      else Undef Shift_Out_Of_Range)"
| "alu32_imm RSH d i =
     (if 0 \<le> sint i \<and> sint i < 32 then Val (ucast (drop_bit (nat (sint i)) (u32 d)) AND UINT32_MAX)
      else Undef Shift_Out_Of_Range)"
| "alu32_imm MOD d i =
     (if u32 (scast i) = 0 then Undef Division_Trap
      else Val (ucast (u32 d mod u32 (scast i)) AND UINT32_MAX))"
| "alu32_imm BXOR d i = Val ((d XOR scast i) AND UINT32_MAX)"
| "alu32_imm MOV d i = Val (scast i AND UINT32_MAX)"
| "alu32_imm ARSH d i =
     (if 0 \<le> sint i \<and> sint i < 32
      then Val (scast (signed_drop_bit (nat (sint i)) (ucast d :: u32)) AND UINT32_MAX)
      else Undef Shift_Out_Of_Range)"

fun alu32_reg :: "alu \<Rightarrow> u64 \<Rightarrow> u64 \<Rightarrow> alu_res" where
  "alu32_reg ADD d s = Val ((d + s) AND UINT32_MAX)"
| "alu32_reg SUB d s = Val ((d - s) AND UINT32_MAX)"
| "alu32_reg MUL d s = Val ((d * s) AND UINT32_MAX)"
| "alu32_reg DIV d s =
     (if s = 0 then Report_Zero
      else if u32 s = 0 then Undef Division_Trap
      else Val (ucast (u32 d div u32 s) AND UINT32_MAX))"
| "alu32_reg BOR d s = Val ((d OR s) AND UINT32_MAX)"
| "alu32_reg BAND d s = Val ((d AND s) AND UINT32_MAX)"
| "alu32_reg LSH d s =
     (if unat s < 64 then Val (push_bit (unat s) d AND UINT32_MAX) else Undef Shift_Out_Of_Range)"
| "alu32_reg RSH d s =
     (if unat s < 32 then Val (ucast (drop_bit (unat s) (u32 d)) AND UINT32_MAX)
      else Undef Shift_Out_Of_Range)"
| "alu32_reg MOD d s =
     (if s = 0 then Report_Zero
      else if u32 s = 0 then Undef Division_Trap
      else Val (ucast (u32 d mod u32 s)))"
| "alu32_reg BXOR d s = Val ((d XOR s) AND UINT32_MAX)"
| "alu32_reg MOV d s = Val (s AND UINT32_MAX)"
| "alu32_reg ARSH d s =
     (if unat (u32 s) < 32
      then Val (scast (signed_drop_bit (unat (u32 s)) (ucast d :: u32)) AND UINT32_MAX)
      else Undef Shift_Out_Of_Range)"

fun alu64_imm :: "alu \<Rightarrow> u64 \<Rightarrow> u32 \<Rightarrow> alu_res" where
  "alu64_imm ADD d i = Val (d + scast i)"
| "alu64_imm SUB d i = Val (d - scast i)"
| "alu64_imm MUL d i = Val (d * scast i)"
| "alu64_imm DIV d i =
     (if (scast i :: u64) = 0 then Undef Division_Trap else Val (d div scast i))"
| "alu64_imm BOR d i = Val (d OR scast i)"
| "alu64_imm BAND d i = Val (d AND scast i)"
| "alu64_imm LSH d i =
     (if 0 \<le> sint i \<and> sint i < 64 then Val (push_bit (nat (sint i)) d)
      else Undef Shift_Out_Of_Range)"
| "alu64_imm RSH d i =
     (if 0 \<le> sint i \<and> sint i < 64 then Val (drop_bit (nat (sint i)) d)
      else Undef Shift_Out_Of_Range)"
| "alu64_imm MOD d i =
     (if (scast i :: u64) = 0 then Undef Division_Trap else Val (d mod scast i))"
| "alu64_imm BXOR d i = Val (d XOR scast i)"
| "alu64_imm MOV d i = Val (scast i)"
| "alu64_imm ARSH d i =
     (if 0 \<le> sint i \<and> sint i < 64 then Val (signed_drop_bit (nat (sint i)) d)
      else Undef Shift_Out_Of_Range)"

fun alu64_reg :: "alu \<Rightarrow> u64 \<Rightarrow> u64 \<Rightarrow> alu_res" where
  "alu64_reg ADD d s = Val (d + s)"
| "alu64_reg SUB d s = Val (d - s)"
| "alu64_reg MUL d s = Val (d * s)"
| "alu64_reg DIV d s = (if s = 0 then Report_Zero else Val (d div s))"
| "alu64_reg BOR d s = Val (d OR s)"
| "alu64_reg BAND d s = Val (d AND s)"
| "alu64_reg LSH d s =
     (if unat s < 64 then Val (push_bit (unat s) d) else Undef Shift_Out_Of_Range)"
| "alu64_reg RSH d s =
     (if unat s < 64 then Val (drop_bit (unat s) d) else Undef Shift_Out_Of_Range)"
| "alu64_reg MOD d s = (if s = 0 then Report_Zero else Val (d mod s))"
| "alu64_reg BXOR d s = Val (d XOR s)"
| "alu64_reg MOV d s = Val s"
| "alu64_reg ARSH d s =
     (if unat s < 64 then Val (signed_drop_bit (unat s) d) else Undef Shift_Out_Of_Range)"

text \<open>The byte-order instructions: \<^verbatim>\<open>htole\<close> truncates on a little-endian host, \<^verbatim>\<open>htobe\<close> also swaps.\<close>

definition bswap :: "nat \<Rightarrow> u64 \<Rightarrow> u64" where
  "bswap n x = of_nat (le_nat (rev (le_bytes n (unat x))))"

definition exec_le :: "u32 \<Rightarrow> u64 \<Rightarrow> u64" where
  "exec_le i d =
     (if i = 16 then ucast (ucast d :: u16)
      else if i = 32 then ucast (ucast d :: u32)
      else d)"

definition exec_be :: "u32 \<Rightarrow> u64 \<Rightarrow> u64" where
  "exec_be i d =
     (if i = 16 then bswap 2 d
      else if i = 32 then bswap 4 d
      else if i = 64 then bswap 8 d
      else d)"

section \<open>Jumps\<close>

fun jump_imm :: "jcond \<Rightarrow> u64 \<Rightarrow> u32 \<Rightarrow> bool" where
  "jump_imm JEQ d i \<longleftrightarrow> d = scast i"
| "jump_imm JGT d i \<longleftrightarrow> d > ucast i"
| "jump_imm JGE d i \<longleftrightarrow> d \<ge> ucast i"
| "jump_imm JLT d i \<longleftrightarrow> d < ucast i"
| "jump_imm JLE d i \<longleftrightarrow> d \<le> ucast i"
| "jump_imm JSET d i \<longleftrightarrow> d AND scast i \<noteq> 0"
| "jump_imm JNE d i \<longleftrightarrow> d \<noteq> scast i"
| "jump_imm JSGT d i \<longleftrightarrow> sint d > sint i"
| "jump_imm JSGE d i \<longleftrightarrow> sint d \<ge> sint i"
| "jump_imm JSLT d i \<longleftrightarrow> sint d < sint i"
| "jump_imm JSLE d i \<longleftrightarrow> sint d \<le> sint i"

fun jump_reg :: "jcond \<Rightarrow> u64 \<Rightarrow> u64 \<Rightarrow> bool" where
  "jump_reg JEQ d s \<longleftrightarrow> d = s"
| "jump_reg JGT d s \<longleftrightarrow> d > s"
| "jump_reg JGE d s \<longleftrightarrow> d \<ge> s"
| "jump_reg JLT d s \<longleftrightarrow> d < s"
| "jump_reg JLE d s \<longleftrightarrow> d \<le> s"
| "jump_reg JSET d s \<longleftrightarrow> d AND s \<noteq> 0"
| "jump_reg JNE d s \<longleftrightarrow> d \<noteq> s"
| "jump_reg JSGT d s \<longleftrightarrow> sint d > sint s"
| "jump_reg JSGE d s \<longleftrightarrow> sint d \<ge> sint s"
| "jump_reg JSLT d s \<longleftrightarrow> sint d < sint s"
| "jump_reg JSLE d s \<longleftrightarrow> sint d \<le> sint s"

section \<open>One turn of the loop\<close>

fun size_bytes :: "msize \<Rightarrow> nat" where
  "size_bytes W = 4"
| "size_bytes H = 2"
| "size_bytes B = 1"
| "size_bytes DW = 8"

definition set_reg :: "'w mstate \<Rightarrow> 4 word \<Rightarrow> u64 \<Rightarrow> 'w mstate" where
  "set_reg s r v = s\<lparr>reg := (reg s)(r := v)\<rparr>"

text \<open>What an ALU case does with its result: the reported division by zero ends the run.\<close>

fun finish_alu :: "'w mstate \<Rightarrow> 4 word \<Rightarrow> alu_res \<Rightarrow> 'w mstate + 'w outcome" where
  "finish_alu s r (Val v) = Inl (set_reg s r v)"
| "finish_alu s r Report_Zero = Inr (Returned UINT64_MAX (store s) (env s))"
| "finish_alu s r (Undef e) = Inr (Undefined e)"

definition exec_load ::
  "u64 \<Rightarrow> u64 \<Rightarrow> u64 \<Rightarrow> nat \<Rightarrow> ebpf_inst \<Rightarrow> 'w mstate \<Rightarrow> 'w mstate + 'w outcome" where
  "exec_load mem mem_len stack n inst s =
     (let a = reg s (src inst) + scast (offset inst)
      in if \<not> bounds_check a n mem mem_len stack
         then Inr (Returned UINT64_MAX (store s) (env s))
         else Inl (set_reg s (dst inst) (of_nat (load_le (store s) a n))))"

definition exec_store ::
  "u64 \<Rightarrow> u64 \<Rightarrow> u64 \<Rightarrow> nat \<Rightarrow> ebpf_inst \<Rightarrow> u64 \<Rightarrow> 'w mstate \<Rightarrow> 'w mstate + 'w outcome" where
  "exec_store mem mem_len stack n inst v s =
     (let a = reg s (dst inst) + scast (offset inst)
      in if \<not> bounds_check a n mem mem_len stack
         then Inr (Returned UINT64_MAX (store s) (env s))
         else Inl (s\<lparr>store := store_le (store s) a n (unat v)\<rparr>))"

definition exec_jump :: "bool \<Rightarrow> ebpf_inst \<Rightarrow> 'w mstate \<Rightarrow> 'w mstate" where
  "exec_jump taken inst s = (if taken then s\<lparr>pc := pc s + offset inst\<rparr> else s)"

definition exec_lddw :: "ebpf_inst list \<Rightarrow> ebpf_inst \<Rightarrow> 'w mstate \<Rightarrow> 'w mstate + 'w outcome" where
  "exec_lddw prog inst s =
     (if unat (pc s) \<ge> length prog then Inr (Undefined Fetch_Out_Of_Bounds)
      else Inl (set_reg (s\<lparr>pc := pc s + 1\<rparr>) (dst inst)
                  (ucast (imm inst) OR push_bit 32 (scast (imm (prog ! unat (pc s)))))))"

definition exec_call :: "'w ubpf_vm \<Rightarrow> ebpf_inst \<Rightarrow> 'w mstate \<Rightarrow> 'w mstate + 'w outcome" where
  "exec_call vm inst s =
     (if unat (imm inst) \<ge> length (ext_funcs vm) then Inr (Undefined Call_Null)
      else case ext_funcs vm ! unat (imm inst) of
             None \<Rightarrow> Inr (Undefined Call_Null)
           | Some f \<Rightarrow>
               (case f (reg s 1) (reg s 2) (reg s 3) (reg s 4) (reg s 5) (store s, env s) of
                  (r, m, w) \<Rightarrow> Inl (set_reg (s\<lparr>store := m, env := w\<rparr>) 0 r)))"

text \<open>The \<^verbatim>\<open>switch\<close>, with \<open>pc\<close> already incremented.\<close>

fun exec_op ::
  "'w ubpf_vm \<Rightarrow> ebpf_inst list \<Rightarrow> u64 \<Rightarrow> u64 \<Rightarrow> u64 \<Rightarrow> ebpf_inst \<Rightarrow> ebpf_op \<Rightarrow> 'w mstate
   \<Rightarrow> 'w mstate + 'w outcome" where
  "exec_op vm prog mem mem_len stack inst (Alu a IMM) s =
     finish_alu s (dst inst) (alu32_imm a (reg s (dst inst)) (imm inst))"
| "exec_op vm prog mem mem_len stack inst (Alu a REG) s =
     finish_alu s (dst inst) (alu32_reg a (reg s (dst inst)) (reg s (src inst)))"
| "exec_op vm prog mem mem_len stack inst Neg s =
     Inl (set_reg s (dst inst) ((- reg s (dst inst)) AND UINT32_MAX))"
| "exec_op vm prog mem mem_len stack inst Le s =
     Inl (set_reg s (dst inst) (exec_le (imm inst) (reg s (dst inst))))"
| "exec_op vm prog mem mem_len stack inst Be s =
     Inl (set_reg s (dst inst) (exec_be (imm inst) (reg s (dst inst))))"
| "exec_op vm prog mem mem_len stack inst (Alu64 a IMM) s =
     finish_alu s (dst inst) (alu64_imm a (reg s (dst inst)) (imm inst))"
| "exec_op vm prog mem mem_len stack inst (Alu64 a REG) s =
     finish_alu s (dst inst) (alu64_reg a (reg s (dst inst)) (reg s (src inst)))"
| "exec_op vm prog mem mem_len stack inst Neg64 s =
     Inl (set_reg s (dst inst) (- reg s (dst inst)))"
| "exec_op vm prog mem mem_len stack inst (Ldx z) s =
     exec_load mem mem_len stack (size_bytes z) inst s"
| "exec_op vm prog mem mem_len stack inst (St z) s =
     exec_store mem mem_len stack (size_bytes z) inst (scast (imm inst)) s"
| "exec_op vm prog mem mem_len stack inst (Stx z) s =
     exec_store mem mem_len stack (size_bytes z) inst (reg s (src inst)) s"
| "exec_op vm prog mem mem_len stack inst Lddw s = exec_lddw prog inst s"
| "exec_op vm prog mem mem_len stack inst Ja s = Inl (exec_jump True inst s)"
| "exec_op vm prog mem mem_len stack inst (Jmp c IMM) s =
     Inl (exec_jump (jump_imm c (reg s (dst inst)) (imm inst)) inst s)"
| "exec_op vm prog mem mem_len stack inst (Jmp c REG) s =
     Inl (exec_jump (jump_reg c (reg s (dst inst)) (reg s (src inst))) inst s)"
| "exec_op vm prog mem mem_len stack inst Call s = exec_call vm inst s"
| "exec_op vm prog mem mem_len stack inst Exit s =
     Inr (Returned (reg s 0) (store s) (env s))"

text \<open>
  One turn of \<^verbatim>\<open>while (1)\<close>: fetch, increment, \<^verbatim>\<open>switch\<close>. A byte that is no opcode matches no case.
\<close>

definition ubpf_step ::
  "'w ubpf_vm \<Rightarrow> ebpf_inst list \<Rightarrow> u64 \<Rightarrow> u64 \<Rightarrow> u64 \<Rightarrow> 'w mstate \<Rightarrow> 'w mstate + 'w outcome" where
  "ubpf_step vm prog mem mem_len stack s =
     (if unat (pc s) \<ge> length prog then Inr (Undefined Fetch_Out_Of_Bounds)
      else
        (let inst = prog ! unat (pc s); s1 = s\<lparr>pc := pc s + 1\<rparr>
         in case decode (opcode inst) of
              None \<Rightarrow> Inl s1
            | Some op \<Rightarrow> exec_op vm prog mem mem_len stack inst op s1))"

text \<open>
  \<open>stack\<close> is the address of the local stack array and \<open>reg0\<close> what the uninitialised register
  array holds; \<open>m\<close> and \<open>w\<close> are the memory and the world on entry.
\<close>

definition init_state ::
  "u64 \<Rightarrow> u64 \<Rightarrow> (4 word \<Rightarrow> u64) \<Rightarrow> memory \<Rightarrow> 'w \<Rightarrow> 'w mstate" where
  "init_state mem stack reg0 m w =
     \<lparr>pc = 0, reg = reg0(1 := mem, 10 := stack + of_nat STACK_SIZE), store = m, env = w\<rparr>"

definition ubpf_exec ::
  "nat \<Rightarrow> 'w ubpf_vm \<Rightarrow> u64 \<Rightarrow> u64 \<Rightarrow> u64 \<Rightarrow> (4 word \<Rightarrow> u64) \<Rightarrow> memory \<Rightarrow> 'w \<Rightarrow> 'w outcome option" where
  "ubpf_exec fuel vm mem mem_len stack reg0 m w =
     (case insts vm of
        None \<Rightarrow> Some (Returned UINT64_MAX m w)
      | Some prog \<Rightarrow>
          run_fuel (ubpf_step vm prog mem mem_len stack) fuel (init_state mem stack reg0 m w))"

section \<open>What a run should satisfy\<close>

text \<open>
  The last instruction does not fall through. \<^verbatim>\<open>validate\<close> does not ask for it: it only looks for
  some \<^verbatim>\<open>EXIT\<close>.
\<close>

definition ends_closed :: "ebpf_inst list \<Rightarrow> bool" where
  "ends_closed prog \<longleftrightarrow>
     prog \<noteq> [] \<and> (opcode (last prog) = op_byte Exit \<or> opcode (last prog) = op_byte Ja)"

text \<open>Jumps only go forward, so no slot is executed twice.\<close>

definition forward_only :: "ebpf_inst list \<Rightarrow> bool" where
  "forward_only prog \<longleftrightarrow>
     (\<forall>inst \<in> set prog. case decode (opcode inst) of
        None \<Rightarrow> True | Some op \<Rightarrow> is_jump op \<longrightarrow> 0 \<le> sint (offset inst))"

definition exec_inv :: "'w ubpf_vm \<Rightarrow> ebpf_inst list \<Rightarrow> 'w mstate \<Rightarrow> bool" where
  "exec_inv vm prog s \<longleftrightarrow>
     validate vm prog = None \<and> length (ext_funcs vm) = MAX_EXT_FUNCS \<and> ends_closed prog
     \<and> unat (pc s) < length prog \<and> inst_start prog (unat (pc s))"

text \<open>Neither a fetch outside the program nor a call through NULL.\<close>

fun stays_inside :: "'w outcome \<Rightarrow> bool" where
  "stays_inside (Undefined Fetch_Out_Of_Bounds) = False"
| "stays_inside (Undefined Call_Null) = False"
| "stays_inside _ = True"

text \<open>
  The addresses a load or store can touch: the packet, the stack, and the first and last eight
  bytes of the address space, which \<^verbatim>\<open>bounds_check\<close> can let through because \<open>addr + size\<close> wraps.
\<close>

definition window :: "u64 \<Rightarrow> u64 \<Rightarrow> u64 \<Rightarrow> u64 set" where
  "window mem mem_len stack = span mem (unat mem_len) \<union> span stack STACK_SIZE \<union> span (- 8) 16"

definition regions_ok :: "u64 \<Rightarrow> u64 \<Rightarrow> u64 \<Rightarrow> bool" where
  "regions_ok mem mem_len stack \<longleftrightarrow>
     unat mem + unat mem_len < 18446744073709551616
     \<and> unat stack + STACK_SIZE < 18446744073709551616"

text \<open>A registered function that does not write to \<open>X\<close>.\<close>

definition leaves_alone :: "u64 set \<Rightarrow> 'w ext_func \<Rightarrow> bool" where
  "leaves_alone X f \<longleftrightarrow>
     (\<forall>a b c d e m w x. x \<in> X \<longrightarrow> fst (snd (f a b c d e (m, w))) x = m x)"

fun keeps :: "u64 set \<Rightarrow> memory \<Rightarrow> 'w outcome \<Rightarrow> bool" where
  "keeps X m (Returned v m' w) \<longleftrightarrow> (\<forall>x \<in> X. m' x = m x)"
| "keeps X m (Undefined e) \<longleftrightarrow> True"

definition frame_inv ::
  "'w ubpf_vm \<Rightarrow> u64 \<Rightarrow> u64 \<Rightarrow> u64 \<Rightarrow> u64 set \<Rightarrow> memory \<Rightarrow> 'w mstate \<Rightarrow> bool" where
  "frame_inv vm mem mem_len stack X m s \<longleftrightarrow>
     regions_ok mem mem_len stack \<and> X \<inter> window mem mem_len stack = {}
     \<and> (\<forall>f. Some f \<in> set (ext_funcs vm) \<longrightarrow> leaves_alone X f) \<and> (\<forall>x \<in> X. store s x = m x)"

section \<open>Control flow\<close>


lemma unat_pc_succ: "unat (p :: u16) < n \<Longrightarrow> n < 65536 \<Longrightarrow> unat (p + 1) = unat p + 1"
  by (simp add: unat_word_ariths)

lemma unat_pc_jump:
  fixes p off :: u16
  assumes "0 \<le> int (unat p) + 1 + sint off" "int (unat p) + 1 + sint off < 65536"
  shows "unat (p + 1 + off) = nat (int (unat p) + 1 + sint off)"
proof -
  have e: "word_of_int (int (unat p) + 1 + sint off) = p + 1 + off" by simp
  from assms(2) have "int (unat p) + 1 + sint off < 2 ^ LENGTH(16)" by simp
  from word_of_int_inverse [OF e assms(1) this]
  have "uint (p + 1 + off) = int (unat p) + 1 + sint off" .
  then show ?thesis by (simp only: unat_eq_nat_uint [of "p + 1 + off"])
qed

lemma finish_alu_pc: "finish_alu s r v = Inl s' \<Longrightarrow> pc s' = pc s"
  by (cases v) (auto simp: set_reg_def)

lemma exec_op_pc:
  assumes "exec_op vm prog mem mem_len stack inst op s = Inl s'"
  shows "if op = Lddw then pc s' = pc s + 1
         else if op = Ja then pc s' = pc s + offset inst
         else op \<noteq> Exit \<and> (pc s' = pc s \<or> is_jump op \<and> pc s' = pc s + offset inst)"
  using assms
  by (cases "(vm, prog, mem, mem_len, stack, inst, op, s)" rule: exec_op.cases)
    (auto simp: exec_load_def exec_store_def exec_jump_def exec_lddw_def exec_call_def set_reg_def
      Let_def dest: finish_alu_pc split: if_splits option.splits prod.splits)

lemma finish_alu_undefined:
  "finish_alu s r v = Inr (Undefined e) \<Longrightarrow> v = Undef e"
  by (cases v) auto

lemma alu_undef:
  "alu32_imm a d i = Undef e \<Longrightarrow> e = Shift_Out_Of_Range \<or> e = Division_Trap"
  "alu32_reg a d r = Undef e \<Longrightarrow> e = Shift_Out_Of_Range \<or> e = Division_Trap"
  "alu64_imm a d i = Undef e \<Longrightarrow> e = Shift_Out_Of_Range \<or> e = Division_Trap"
  "alu64_reg a d r = Undef e \<Longrightarrow> e = Shift_Out_Of_Range \<or> e = Division_Trap"
  by (cases a; simp split: if_splits)+

lemma exec_op_undefined:
  assumes "exec_op vm prog mem mem_len stack inst op s = Inr (Undefined e)"
  shows "e = Shift_Out_Of_Range \<or> e = Division_Trap
         \<or> e = Fetch_Out_Of_Bounds \<and> op = Lddw \<and> length prog \<le> unat (pc s)
         \<or> e = Call_Null \<and> op = Call
            \<and> (length (ext_funcs vm) \<le> unat (imm inst) \<or> ext_funcs vm ! unat (imm inst) = None)"
  using assms
  by (cases "(vm, prog, mem, mem_len, stack, inst, op, s)" rule: exec_op.cases)
    (auto simp: exec_load_def exec_store_def exec_lddw_def exec_call_def Let_def
      dest!: finish_alu_undefined alu_undef split: if_splits option.splits prod.splits)

lemma ends_closed_next:
  assumes "inst_ok vm prog i" "i < length prog" "ends_closed prog"
    and "decode (opcode (prog ! i)) = Some op" "op \<noteq> Exit" "op \<noteq> Ja"
  shows "next_index prog i < length prog"
proof (rule ccontr)
  assume "\<not> next_index prog i < length prog"
  with assms have e: "next_index prog i = length prog"
    by (auto simp: next_index_def inst_ok_def split: if_splits)
  show False
  proof (cases "op = Lddw")
    case True
    with assms(1,4) e have "length prog - 1 = Suc i" and "opcode (prog ! Suc i) = 0"
      by (auto simp: next_index_def inst_ok_def split: if_splits)
    moreover have "last prog = prog ! (length prog - 1)"
      using assms(2) by (intro last_conv_nth) auto
    ultimately have "opcode (last prog) = 0" by simp
    with assms(3) show False
      by (metis decode_0 decode_op_byte ends_closed_def option.distinct(1))
  next
    case False
    with assms e have "last prog = prog ! i"
      by (metis One_nat_def Suc_eq_plus1 diff_Suc_1 ends_closed_def last_conv_nth next_index_def option.inject)
    with assms show False by (auto simp: ends_closed_def)
  qed
qed

text \<open>Where the next instruction is: after the current one, or the target of its jump.\<close>

lemma ubpf_step_succ:
  assumes inv: "exec_inv vm prog s" and step: "ubpf_step vm prog mem mem_len stack s = Inl s'"
  obtains op where "decode (opcode (prog ! unat (pc s))) = Some op"
    and "op \<noteq> Exit \<and> op \<noteq> Ja \<and> unat (pc s') = next_index prog (unat (pc s))
         \<or> is_jump op \<and> check_jump prog (unat (pc s)) = None
           \<and> unat (pc s') = nat (int (unat (pc s)) + 1 + sint (offset (prog ! unat (pc s))))"
proof -
  let ?i = "unat (pc s)" and ?s1 = "s\<lparr>pc := pc s + 1\<rparr>"
  from inv have v: "validate vm prog = None" and i: "?i < length prog" "inst_start prog ?i"
    by (auto simp: exec_inv_def)
  have "inst_ok vm prog ?i" using v i(2,1) by (rule validate_inst_ok)
  then obtain op where op: "decode (opcode (prog ! ?i)) = Some op" and ck: "check_op vm prog ?i op = None"
    by (auto simp: inst_ok_def split: option.splits)
  from validate_length [OF v] have l: "length prog < 65536" by (simp add: MAX_INSTS_def)
  have p1: "unat (pc s + 1) = ?i + 1" using i(1) l by (rule unat_pc_succ)
  from step i op have ex: "exec_op vm prog mem mem_len stack (prog ! ?i) op ?s1 = Inl s'"
    by (simp add: ubpf_step_def Let_def)
  note pcs = exec_op_pc [OF ex]
  show thesis
  proof (cases "op = Lddw")
    case True
    with ck have "?i + 1 < length prog" by (auto split: if_splits)
    with l have "unat (pc s + 1 + 1) = ?i + 2"
      using p1 unat_pc_succ [of "pc s + 1" "length prog"] by simp
    with True pcs op show thesis by (intro that [OF op]) (simp add: next_index_def)
  next
    case nl: False
    show thesis
    proof (cases "pc s' = pc s + 1 \<and> op \<noteq> Ja")
      case True
      with nl pcs op p1 show thesis
        by (intro that [OF op]) (simp add: next_index_def split: if_splits)
    next
      case False
      with nl pcs have j: "is_jump op" and pc': "pc s' = pc s + 1 + offset (prog ! ?i)"
        by (auto split: if_splits)
      from j ck have cj: "check_jump prog ?i = None" by (cases op) auto
      note t = check_jump_target [OF v cj]
      have "unat (pc s') = nat (int ?i + 1 + sint (offset (prog ! ?i)))"
        unfolding pc' by (rule unat_pc_jump) (use t l in linarith)+
      with j cj show thesis by (intro that [OF op]) simp
    qed
  qed
qed

lemma exec_inv_step:
  assumes inv: "exec_inv vm prog s" and step: "ubpf_step vm prog mem mem_len stack s = Inl s'"
  shows "exec_inv vm prog s'"
proof -
  let ?i = "unat (pc s)"
  from inv have v: "validate vm prog = None" and i: "?i < length prog" "inst_start prog ?i"
    and c: "ends_closed prog" by (auto simp: exec_inv_def)
  have ok: "inst_ok vm prog ?i" using v i(2,1) by (rule validate_inst_ok)
  from inv step have "unat (pc s') < length prog \<and> inst_start prog (unat (pc s'))"
  proof (rule ubpf_step_succ, elim disjE conjE)
    fix op
    assume op: "decode (opcode (prog ! ?i)) = Some op" "op \<noteq> Exit" "op \<noteq> Ja"
      and n: "unat (pc s') = next_index prog ?i"
    show ?thesis
      using n ends_closed_next [OF ok i(1) c op] inst_start.follow [OF i(2,1)] by simp
  next
    assume cj: "check_jump prog ?i = None"
      and n: "unat (pc s') = nat (int ?i + 1 + sint (offset (prog ! ?i)))"
    show ?thesis using n check_jump_target [OF v cj] by simp
  qed
  with inv show ?thesis by (simp add: exec_inv_def)
qed

lemma exec_inv_answer:
  assumes inv: "exec_inv vm prog s" and step: "ubpf_step vm prog mem mem_len stack s = Inr r"
  shows "stays_inside r"
proof (cases r)
  case (Undefined e)
  let ?i = "unat (pc s)"
  from inv have v: "validate vm prog = None" and i: "inst_start prog ?i" "?i < length prog"
    and f: "length (ext_funcs vm) = MAX_EXT_FUNCS" by (auto simp: exec_inv_def)
  have "inst_ok vm prog ?i" using v i by (rule validate_inst_ok)
  then obtain op where op: "decode (opcode (prog ! ?i)) = Some op" and ck: "check_op vm prog ?i op = None"
    by (auto simp: inst_ok_def split: option.splits)
  from step i op Undefined
  have ex: "exec_op vm prog mem mem_len stack (prog ! ?i) op (s\<lparr>pc := pc s + 1\<rparr>) = Inr (Undefined e)"
    by (simp add: ubpf_step_def Let_def)
  have "e \<noteq> Fetch_Out_Of_Bounds"
  proof
    assume "e = Fetch_Out_Of_Bounds"
    with exec_op_undefined [OF ex] have "op = Lddw" "length prog \<le> unat (pc s + 1)" by auto
    moreover have "unat (pc s + 1) = ?i + 1"
      using i(2) validate_length [OF v] by (intro unat_pc_succ [of _ "length prog"]) (auto simp: MAX_INSTS_def)
    ultimately show False using ck by (auto split: if_splits)
  qed
  moreover have "e \<noteq> Call_Null"
  proof
    assume "e = Call_Null"
    with exec_op_undefined [OF ex] f
    have "op = Call" and b: "64 \<le> unat (imm (prog ! ?i)) \<or> ext_funcs vm ! unat (imm (prog ! ?i)) = None"
      by (auto simp: MAX_EXT_FUNCS_def)
    with ck have "0 \<le> sint (imm (prog ! ?i))" "sint (imm (prog ! ?i)) < 64"
      "ext_funcs vm ! unat (imm (prog ! ?i)) \<noteq> None"
      by (auto simp: MAX_EXT_FUNCS_def split: if_splits option.splits)
    with b show False using sint_nonneg_unat [of "imm (prog ! ?i)"] by linarith
  qed
  ultimately show ?thesis using Undefined by (cases e) auto
qed simp

interpretation safe: stepper "ubpf_step vm prog mem mem_len stack" "exec_inv vm prog" stays_inside
  for vm prog mem mem_len stack
  by unfold_locales (auto intro: exec_inv_step exec_inv_answer)

lemma forward_step:
  assumes inv: "exec_inv vm prog s" and fw: "forward_only prog"
    and step: "ubpf_step vm prog mem mem_len stack s = Inl s'"
  shows "length prog - Suc (unat (pc s')) < length prog - Suc (unat (pc s))"
proof -
  let ?i = "unat (pc s)"
  from inv have i: "?i < length prog" by (simp add: exec_inv_def)
  then have m: "prog ! ?i \<in> set prog" by simp
  from inv step have "?i < unat (pc s')"
  proof (rule ubpf_step_succ, elim disjE conjE)
    fix op
    assume "decode (opcode (prog ! ?i)) = Some op" "is_jump op"
      and n: "unat (pc s') = nat (int ?i + 1 + sint (offset (prog ! ?i)))"
    with fw m have "0 \<le> sint (offset (prog ! ?i))" by (fastforce simp: forward_only_def)
    with n show ?thesis by linarith
  qed (simp add: next_index_def split: if_splits)
  moreover have "unat (pc s') < length prog"
    using exec_inv_step [OF inv step] by (simp add: exec_inv_def)
  ultimately show ?thesis by linarith
qed

interpretation forward: bounded_stepper "ubpf_step vm prog mem mem_len stack"
  "\<lambda>s. exec_inv vm prog s \<and> forward_only prog" stays_inside "\<lambda>s. length prog - Suc (unat (pc s))"
  for vm prog mem mem_len stack
  by unfold_locales (auto intro: exec_inv_step exec_inv_answer forward_step)

section \<open>Memory\<close>

lemma span_mono:
  assumes "unat b \<le> unat a" "unat a - unat b + n \<le> m" "m < 18446744073709551616"
  shows "span a n \<subseteq> span b m"
proof
  fix x
  assume "x \<in> span a n"
  then have k: "unat (x - a) < n" by (simp add: span_def)
  have ab: "unat (a - b) = unat a - unat b"
    using assms(1) by (simp add: unat_sub word_le_nat_alt)
  have "unat (x - b) = unat ((a - b) + (x - a))" by simp
  also have "\<dots> = unat (a - b) + unat (x - a)"
    using assms k ab by (subst unat_word_ariths(1)) simp
  finally show "x \<in> span b m" using assms k ab by (simp add: span_def)
qed

lemma bounds_check_inside:
  assumes b: "bounds_check a n mem mem_len stack"
    and mem: "unat mem + unat mem_len < 18446744073709551616"
    and stack: "unat stack + STACK_SIZE < 18446744073709551616"
    and n: "unat a + n < 18446744073709551616"
  shows "span a n \<subseteq> span mem (unat mem_len) \<or> span a n \<subseteq> span stack STACK_SIZE"
proof -
  have an: "unat (a + of_nat n) = unat a + n"
    using n by (subst unat_word_ariths(1)) simp
  have ml: "unat (mem + mem_len) = unat mem + unat mem_len"
    using mem by (subst unat_word_ariths(1)) simp
  have st: "unat (stack + of_nat STACK_SIZE) = unat stack + STACK_SIZE"
    using stack by (subst unat_word_ariths(1)) (simp add: STACK_SIZE_def)
  from b consider "unat mem \<le> unat a" "unat a + n \<le> unat mem + unat mem_len"
    | "unat stack \<le> unat a" "unat a + n \<le> unat stack + STACK_SIZE"
    by (auto simp: bounds_check_def word_le_nat_alt an ml st split: if_splits)
  then show ?thesis
  proof cases
    case 1
    then have "span a n \<subseteq> span mem (unat mem_len)" by (intro span_mono) simp_all
    then show ?thesis ..
  next
    case 2
    then have "span a n \<subseteq> span stack STACK_SIZE"
      by (intro span_mono) (simp_all add: STACK_SIZE_def)
    then show ?thesis ..
  qed
qed

lemma bounds_check_window:
  assumes b: "bounds_check a n mem mem_len stack"
    and mem: "unat mem + unat mem_len < 18446744073709551616"
    and stack: "unat stack + STACK_SIZE < 18446744073709551616"
    and n: "n \<le> 8"
  shows "span a n \<subseteq> window mem mem_len stack"
proof (cases "unat a + n < 18446744073709551616")
  case True
  from bounds_check_inside [OF b mem stack True] show ?thesis
    by (auto simp: window_def)
next
  case False
  have top: "unat (- 8 :: u64) = 18446744073709551608" by simp
  have "unat a < 18446744073709551616" by (rule unat_lt64)
  with top False n have "span a n \<subseteq> span (- 8) 16"
    by (intro span_mono; linarith)
  then show ?thesis by (auto simp: window_def)
qed

lemma finish_alu_store: "finish_alu s r v = Inl s' \<Longrightarrow> store s' = store s"
  by (cases v) (auto simp: set_reg_def)

lemma exec_call_frame:
  assumes "exec_call vm inst s = Inl s'" "\<forall>f. Some f \<in> set (ext_funcs vm) \<longrightarrow> leaves_alone X f" "x \<in> X"
  shows "store s' x = store s x"
proof -
  from assms(1) obtain f r m w where f: "Some f \<in> set (ext_funcs vm)"
    and r: "f (reg s 1) (reg s 2) (reg s 3) (reg s 4) (reg s 5) (store s, env s) = (r, m, w)"
    and s': "store s' = m"
    by (auto simp: exec_call_def set_reg_def split: if_splits option.splits prod.splits)
      (metis leI nth_mem)
  from f assms(2) have "leaves_alone X f" by blast
  with assms(3) have "fst (snd (f (reg s 1) (reg s 2) (reg s 3) (reg s 4) (reg s 5) (store s, env s))) x
      = store s x" unfolding leaves_alone_def by blast
  with r s' show ?thesis by simp
qed

lemma exec_store_frame:
  assumes "exec_store mem mem_len stack n inst v s = Inl s'" "regions_ok mem mem_len stack" "n \<le> 8"
    and "x \<notin> window mem mem_len stack"
  shows "store s' x = store s x"
proof -
  let ?a = "reg s (dst inst) + scast (offset inst)"
  from assms(1) have b: "bounds_check ?a n mem mem_len stack"
    and s': "store s' = store_le (store s) ?a n (unat v)"
    by (auto simp: exec_store_def Let_def split: if_splits)
  from bounds_check_window [OF b] assms(2-4) have "x \<notin> span ?a n"
    by (auto simp: regions_ok_def)
  then show ?thesis unfolding s' by (rule store_le_outside)
qed

lemma ubpf_step_frame:
  assumes "ubpf_step vm prog mem mem_len stack s = Inl s'" "regions_ok mem mem_len stack"
    and fs: "\<forall>f. Some f \<in> set (ext_funcs vm) \<longrightarrow> leaves_alone X f"
    and x: "x \<in> X" "X \<inter> window mem mem_len stack = {}"
  shows "store s' x = store s x"
proof (cases "decode (opcode (prog ! unat (pc s)))")
  case None
  with assms(1) show ?thesis by (auto simp: ubpf_step_def Let_def split: if_splits)
next
  case (Some op)
  let ?inst = "prog ! unat (pc s)" and ?s1 = "s\<lparr>pc := pc s + 1\<rparr>"
  from Some assms(1) have ex: "exec_op vm prog mem mem_len stack ?inst op ?s1 = Inl s'"
    by (auto simp: ubpf_step_def Let_def split: if_splits)
  have xw: "x \<notin> window mem mem_len stack" using x by blast
  have z: "size_bytes z \<le> 8" for z by (cases z) auto
  have "store s' x = store ?s1 x"
  proof (cases "is_store op")
    case True
    then obtain z v where "exec_store mem mem_len stack (size_bytes z) ?inst v ?s1 = Inl s'"
      using ex by (cases op) auto
    then show ?thesis using assms(2) z xw by (rule exec_store_frame)
  next
    case ns: False
    show ?thesis
    proof (cases "op = Call")
      case True
      with ex have "exec_call vm ?inst ?s1 = Inl s'" by simp
      then show ?thesis using fs x(1) by (rule exec_call_frame)
    next
      case False
      with ns ex show ?thesis
        by (cases "(vm, prog, mem, mem_len, stack, ?inst, op, ?s1)" rule: exec_op.cases)
          (auto simp: exec_load_def exec_jump_def exec_lddw_def set_reg_def Let_def
            dest: finish_alu_store split: if_splits)
    qed
  qed
  then show ?thesis by simp
qed

text \<open>The registers an instruction can change.\<close>

lemma finish_alu_reg: "finish_alu s r v = Inl s' \<Longrightarrow> q \<noteq> r \<Longrightarrow> reg s' q = reg s q"
  by (cases v) (auto simp: set_reg_def)

lemma exec_op_reg:
  assumes "exec_op vm prog mem mem_len stack inst op s = Inl s'"
    and "is_store op \<or> q \<noteq> dst inst" "q \<noteq> 0"
  shows "reg s' q = reg s q"
  using assms
  by (cases "(vm, prog, mem, mem_len, stack, inst, op, s)" rule: exec_op.cases)
    (auto simp: exec_load_def exec_store_def exec_jump_def exec_lddw_def exec_call_def set_reg_def
      Let_def dest: finish_alu_reg split: if_splits option.splits prod.splits)

lemma step_other_registers:
  assumes v: "validate vm prog = None" and i: "inst_start prog (unat (pc s))"
    and step: "ubpf_step vm prog mem mem_len stack s = Inl s'"
  shows "\<forall>q. q \<noteq> 0 \<and> q \<noteq> dst (prog ! unat (pc s)) \<longrightarrow> reg s' q = reg s q"
    and "reg s' 10 = reg s 10"
proof -
  let ?i = "unat (pc s)"
  from step have l: "?i < length prog" by (auto simp: ubpf_step_def split: if_splits)
  have "inst_ok vm prog ?i" using v i l by (rule validate_inst_ok)
  then obtain op where op: "decode (opcode (prog ! ?i)) = Some op"
    and d: "dst (prog ! ?i) \<le> 9 \<or> is_store op \<and> dst (prog ! ?i) = 10"
    by (auto simp: inst_ok_def split: option.splits)
  from step l op have e: "exec_op vm prog mem mem_len stack (prog ! ?i) op (s\<lparr>pc := pc s + 1\<rparr>) = Inl s'"
    by (simp add: ubpf_step_def Let_def)
  from d have "is_store op \<or> 10 \<noteq> dst (prog ! ?i)" by auto
  with exec_op_reg [OF e, of 10] show "reg s' 10 = reg s 10" by simp
  show "\<forall>q. q \<noteq> 0 \<and> q \<noteq> dst (prog ! ?i) \<longrightarrow> reg s' q = reg s q"
    using exec_op_reg [OF e] by simp
qed

lemma unat_ucast32_less: "unat (ucast (x :: u32) :: u64) < 4294967296"
  using le_less_trans [OF take_bit_nat_less_eq_self [of 64] unat_lt32 [of x]]
  by (simp add: unsigned_ucast_eq)

lemma alu32_imm_bound: "alu32_imm a d i = Val v \<Longrightarrow> unat v < 4294967296"
  by (cases a) (auto simp: and_UINT32_MAX_less split: if_splits)

lemma alu32_reg_bound: "alu32_reg a d r = Val v \<Longrightarrow> unat v < 4294967296"
  by (cases a) (auto simp: and_UINT32_MAX_less unat_ucast32_less split: if_splits)

section \<open>Runs\<close>

lemma ubpf_step_returned:
  "ubpf_step vm prog mem mem_len stack s = Inr (Returned v m w) \<Longrightarrow> m = store s"
proof (cases "decode (opcode (prog ! unat (pc s)))")
  case (Some op)
  assume st: "ubpf_step vm prog mem mem_len stack s = Inr (Returned v m w)"
  let ?s1 = "s\<lparr>pc := pc s + 1\<rparr>"
  have fa: "finish_alu ?s1 r u = Inr (Returned v m w) \<Longrightarrow> m = store s" for r u
    by (cases u) auto
  from st Some have "exec_op vm prog mem mem_len stack (prog ! unat (pc s)) op ?s1 = Inr (Returned v m w)"
    by (auto simp: ubpf_step_def Let_def split: if_splits)
  then show ?thesis
    by (cases "(vm, prog, mem, mem_len, stack, prog ! unat (pc s), op, ?s1)" rule: exec_op.cases)
      (auto simp: exec_load_def exec_store_def exec_lddw_def exec_call_def Let_def
        dest: fa split: if_splits option.splits prod.splits)
qed (auto simp: ubpf_step_def Let_def split: if_splits)

interpretation framed: stepper "ubpf_step vm prog mem mem_len stack"
  "frame_inv vm mem mem_len stack X m" "keeps X m"
  for vm prog mem mem_len stack X m
proof
  show "frame_inv vm mem mem_len stack X m s'"
    if "frame_inv vm mem mem_len stack X m s" "ubpf_step vm prog mem mem_len stack s = Inl s'" for s s'
    using that ubpf_step_frame [OF that(2)] by (auto simp: frame_inv_def)
  show "keeps X m r"
    if "frame_inv vm mem mem_len stack X m s" "ubpf_step vm prog mem mem_len stack s = Inr r" for s r
    using that by (cases r) (auto simp: frame_inv_def dest!: ubpf_step_returned)
qed

lemma loaded_exec_inv:
  assumes "ubpf_load alloc vm code code_len = Inr vm'" "length (ext_funcs vm) = MAX_EXT_FUNCS"
    and "insts vm' = Some prog" "ends_closed prog"
  shows "exec_inv vm' prog (init_state mem stack reg0 m w)"
  using assms(1)
proof (rule ubpf_load_Inr)
  fix p
  assume vm': "vm' = vm\<lparr>insts := Some p, num_insts := ucast (code_len div 8)\<rparr>"
    and v: "validate vm' p = None"
  with assms(3) have "p = prog" by simp
  with vm' v assms(2,4) show ?thesis
    by (simp add: exec_inv_def init_state_def ends_closed_def inst_start.first)
qed

end
