(* ===== verification/Ubpf_Correct.thy ===== *)
theory Ubpf_Correct
  imports Ubpf_Exec
begin

text \<open>
  The properties of the virtual machine: what loading accepts, what a run of a loaded program can
  do, and programs on which the checks of the code are not enough.
\<close>

section \<open>A program used by the witnesses\<close>

text \<open>\<^verbatim>\<open>mov64 r0, 5; stxdw [r10-8], r0; jeq r0, 0, +1; mov64 r0, 7; exit\<close>\<close>

definition demo_code :: "u8 list" where
  "demo_code = [0xb7,0,0,0,5,0,0,0, 0x7b,0x0a,0xf8,0xff,0,0,0,0, 0x15,0,1,0,0,0,0,0,
                0xb7,0,0,0,7,0,0,0, 0x95,0,0,0,0,0,0,0]"

definition demo_prog :: "ebpf_inst list" where
  "demo_prog =
     [\<lparr>opcode = 0xb7, dst = 0, src = 0, offset = 0, imm = 5\<rparr>,
      \<lparr>opcode = 0x7b, dst = 10, src = 0, offset = - 8, imm = 0\<rparr>,
      \<lparr>opcode = 0x15, dst = 0, src = 0, offset = 1, imm = 0\<rparr>,
      \<lparr>opcode = 0xb7, dst = 0, src = 0, offset = 0, imm = 7\<rparr>,
      \<lparr>opcode = 0x95, dst = 0, src = 0, offset = 0, imm = 0\<rparr>]"

definition demo_vm :: "unit ubpf_vm" where
  "demo_vm = \<lparr>insts = None, num_insts = 0, jitted = 0, jitted_size = 0,
              ext_funcs = replicate MAX_EXT_FUNCS None,
              ext_func_names = replicate MAX_EXT_FUNCS None\<rparr>"

definition demo_loaded :: "unit ubpf_vm" where
  "demo_loaded = demo_vm\<lparr>insts := Some demo_prog, num_insts := 5\<rparr>"

text \<open>\<^verbatim>\<open>ja +1; exit; mov64 r0, 0\<close>: it has an \<^verbatim>\<open>exit\<close>, and runs past its last instruction.\<close>

definition escaping_code :: "u8 list" where
  "escaping_code = [0x05,0,1,0,0,0,0,0, 0x95,0,0,0,0,0,0,0, 0xb7,0,0,0,0,0,0,0]"

definition escaping_prog :: "ebpf_inst list" where
  "escaping_prog =
     [\<lparr>opcode = 0x05, dst = 0, src = 0, offset = 1, imm = 0\<rparr>,
      \<lparr>opcode = 0x95, dst = 0, src = 0, offset = 0, imm = 0\<rparr>,
      \<lparr>opcode = 0xb7, dst = 0, src = 0, offset = 0, imm = 0\<rparr>]"

text \<open>\<^verbatim>\<open>lddw r1, 2^32; mov64 r0, 1; div32 r0, r1; exit\<close>\<close>

definition dividing_code :: "u8 list" where
  "dividing_code = [0x18,1,0,0,0,0,0,0, 0,0,0,0,1,0,0,0, 0xb7,0,0,0,1,0,0,0,
                    0x3c,0x10,0,0,0,0,0,0, 0x95,0,0,0,0,0,0,0]"

definition dividing_prog :: "ebpf_inst list" where
  "dividing_prog =
     [\<lparr>opcode = 0x18, dst = 1, src = 0, offset = 0, imm = 0\<rparr>,
      \<lparr>opcode = 0, dst = 0, src = 0, offset = 0, imm = 1\<rparr>,
      \<lparr>opcode = 0xb7, dst = 0, src = 0, offset = 0, imm = 1\<rparr>,
      \<lparr>opcode = 0x3c, dst = 0, src = 1, offset = 0, imm = 0\<rparr>,
      \<lparr>opcode = 0x95, dst = 0, src = 0, offset = 0, imm = 0\<rparr>]"

lemma demo_insts: "insts_of_code (take 40 demo_code) = demo_prog"
  by code_simp

lemma demo_valid: "validate demo_vm demo_prog = None"
  by code_simp

lemma demo_load: "ubpf_load True demo_vm demo_code 40 = Inr demo_loaded"
  using demo_insts demo_valid
  by (simp add: ubpf_load_def demo_loaded_def demo_vm_def)

lemma demo_closed: "ends_closed demo_prog"
  by code_simp

lemma demo_forward: "forward_only demo_prog"
  by code_simp

lemma demo_loaded_insts: "insts demo_loaded = Some demo_prog"
  by (simp add: demo_loaded_def)

lemma demo_vm_funcs: "length (ext_funcs demo_vm) = MAX_EXT_FUNCS" "Some f \<notin> set (ext_funcs demo_loaded)"
  by (simp_all add: demo_vm_def demo_loaded_def)

lemma loaded_insts:
  "ubpf_load alloc vm code code_len = Inr vm' \<Longrightarrow>
   insts vm' = Some (insts_of_code (take (unat code_len) code)) \<and> ext_funcs vm' = ext_funcs vm"
  by (erule ubpf_load_Inr) simp

section \<open>Loading\<close>

text \<open>
  C1. The static check accepts exactly the well-formed programs: fewer than 65536 instructions, an
  \<^verbatim>\<open>EXIT\<close> somewhere, and at every index where an instruction starts a known opcode, registers in
  range, constant divisors that are not zero, a complete \<^verbatim>\<open>lddw\<close>, jumps that land on the start of
  an instruction of the program, and calls of registered functions.
\<close>

theorem validate_exact: "validate vm prog = None \<longleftrightarrow> well_formed vm prog"
  by (rule validate_iff)

text \<open>
  C5. \<^verbatim>\<open>ubpf_load\<close> succeeds exactly when no code is loaded yet, the length is a multiple of eight,
  the program is well-formed and memory is available; it then stores the decoded instructions and
  their number and changes nothing else.
\<close>

theorem ubpf_load_exact:
  "ubpf_load alloc vm code code_len = Inr vm' \<longleftrightarrow>
     insts vm = None \<and> 8 dvd unat code_len \<and> alloc
     \<and> well_formed vm (insts_of_code (take (unat code_len) code))
     \<and> vm' = vm\<lparr>insts := Some (insts_of_code (take (unat code_len) code)),
                num_insts := of_nat (unat code_len div 8)\<rparr>"
proof -
  have "code_len mod 8 = 0 \<longleftrightarrow> 8 dvd unat code_len"
    by (simp add: unat_mod mod_eq_0_iff_dvd flip: unat_eq_0)
  moreover have "ucast (code_len div 8) = (of_nat (unat code_len div 8) :: u16)"
  proof -
    have "unat (code_len div 8) = unat code_len div 8" by (simp add: unat_div)
    moreover have "(of_nat (unat (code_len div 8)) :: u16) = ucast (code_len div 8)" by (rule of_nat_unat)
    ultimately show ?thesis by (simp only:)
  qed
  ultimately show ?thesis
    by (auto simp: ubpf_load_def Let_def validate_iff [symmetric] split: option.splits if_splits)
qed

section \<open>Running\<close>

text \<open>
  C2. A loaded program whose last instruction is \<^verbatim>\<open>EXIT\<close> or \<^verbatim>\<open>JA\<close> never fetches an instruction
  outside its code and never calls through an empty slot of the table of external functions,
  whatever the registered functions do and however long it runs.
\<close>

theorem loaded_program_stays_inside:
  assumes "ubpf_load alloc vm code code_len = Inr vm'" "length (ext_funcs vm) = MAX_EXT_FUNCS"
    and "ends_closed (insts_of_code (take (unat code_len) code))"
    and "ubpf_exec fuel vm' mem mem_len stack reg0 m w = Some r"
  shows "stays_inside r"
proof -
  let ?prog = "insts_of_code (take (unat code_len) code)"
  from loaded_insts [OF assms(1)] have i: "insts vm' = Some ?prog" by simp
  with assms(4) have "run_fuel (ubpf_step vm' ?prog mem mem_len stack) fuel (init_state mem stack reg0 m w) = Some r"
    by (simp add: ubpf_exec_def)
  with loaded_exec_inv [OF assms(1,2) i assms(3)] show ?thesis by (rule safe.run_fuel_good)
qed

theorem loaded_program_stays_inside_witness:
  "\<exists>r. ubpf_exec 6 demo_loaded 4096 256 65536 (\<lambda>_. 0) (\<lambda>_. 0) () = Some r \<and> stays_inside r"
proof -
  have "ubpf_exec 6 demo_loaded 4096 256 65536 (\<lambda>_. 0) (\<lambda>_. 0) () \<noteq> None" by code_simp
  then obtain r where "ubpf_exec 6 demo_loaded 4096 256 65536 (\<lambda>_. 0) (\<lambda>_. 0) () = Some r" by blast
  with loaded_program_stays_inside [OF demo_load demo_vm_funcs(1)] show ?thesis
    by (simp add: demo_insts demo_closed)
qed



text \<open>
  C3. A run changes no byte outside the packet, the stack and the first and last eight bytes of the
  address space, if the registered functions do not: the isolation the memory checks are for.
\<close>

theorem exec_isolates_memory:
  assumes "regions_ok mem mem_len stack"
    and "X \<inter> window mem mem_len stack = {}"
    and "\<forall>f. Some f \<in> set (ext_funcs vm) \<longrightarrow> leaves_alone X f"
    and "ubpf_exec fuel vm mem mem_len stack reg0 m w = Some (Returned v m' w')"
  shows "\<forall>x \<in> X. m' x = m x"
proof (cases "insts vm")
  case None
  with assms(4) show ?thesis by (simp add: ubpf_exec_def)
next
  case (Some prog)
  let ?s = "init_state mem stack reg0 m w"
  have "frame_inv vm mem mem_len stack X m ?s"
    using assms(1-3) by (simp add: frame_inv_def init_state_def)
  moreover from Some assms(4)
  have "run_fuel (ubpf_step vm prog mem mem_len stack) fuel ?s = Some (Returned v m' w')"
    by (simp add: ubpf_exec_def)
  ultimately have "keeps X m (Returned v m' w')" by (rule framed.run_fuel_good)
  then show ?thesis by simp
qed

theorem exec_isolates_memory_witness:
  "\<exists>m'. ubpf_exec 6 demo_loaded 4096 256 65536 (\<lambda>_. 0) (\<lambda>_. 9) () = Some (Returned 7 m' ()) \<and> m' 5000 = 9"
proof -
  have "case ubpf_exec 6 demo_loaded 4096 256 65536 (\<lambda>_. 0) (\<lambda>_. 9) () of
          Some (Returned v m' w) \<Rightarrow> v = 7 | _ \<Rightarrow> False"
    by code_simp
  then obtain m' where r:
    "ubpf_exec 6 demo_loaded 4096 256 65536 (\<lambda>_. 0) (\<lambda>_. 9) () = Some (Returned 7 m' ())"
    by (auto split: option.splits outcome.splits)
  have "regions_ok 4096 256 65536" by (simp add: regions_ok_def STACK_SIZE_def)
  moreover have "{5000} \<inter> window 4096 256 65536 = {}" by (simp add: window_def span_def STACK_SIZE_def)
  ultimately have "\<forall>x \<in> {5000}. m' x = 9"
    using exec_isolates_memory [OF _ _ _ r, of "{5000}"] demo_vm_funcs by blast
  with r show ?thesis by auto
qed

text \<open>
  C6. No instruction of an accepted program changes the frame pointer \<open>r10\<close>, and an instruction
  other than a call changes at most the register its \<open>dst\<close> field names (stores change none).
\<close>

theorem step_keeps_registers:
  assumes "well_formed vm prog" "inst_start prog (unat (pc s))"
    and "ubpf_step vm prog mem mem_len stack s = Inl s'"
  shows "reg s' 10 = reg s 10 \<and> (\<forall>q. q \<noteq> 0 \<and> q \<noteq> dst (prog ! unat (pc s)) \<longrightarrow> reg s' q = reg s q)"
  using assms step_other_registers [of vm prog s mem mem_len stack s'] by (simp flip: validate_iff)

theorem step_keeps_registers_witness:
  "\<exists>s'. ubpf_step demo_vm demo_prog 4096 256 65536 (init_state 4096 65536 (\<lambda>_. 0) (\<lambda>_. 0) ()) = Inl s'
        \<and> reg s' 10 = 67584"
proof -
  let ?s = "init_state 4096 65536 (\<lambda>_. 0) (\<lambda>_. 0) ()"
  have "case ubpf_step demo_vm demo_prog 4096 256 65536 ?s of Inl s' \<Rightarrow> True | Inr r \<Rightarrow> False"
    by code_simp
  then obtain s' where s': "ubpf_step demo_vm demo_prog 4096 256 65536 ?s = Inl s'"
    by (auto split: sum.splits)
  have "well_formed demo_vm demo_prog" using demo_valid by (simp add: validate_iff)
  moreover have "inst_start demo_prog (unat (pc ?s))" by (simp add: init_state_def inst_start.first)
  ultimately have "reg s' 10 = reg ?s 10" using s' step_keeps_registers by blast
  with s' show ?thesis by (simp add: init_state_def STACK_SIZE_def)
qed

text \<open>
  Every 32-bit instruction leaves a result below \<open>2 ^ 32\<close> in its register, so that the upper half
  is always cleared.
\<close>

lemma alu32_result_bound:
  assumes "alu32_imm a d i = Val v \<or> alu32_reg a d r = Val v"
  shows "unat v < 2 ^ 32"
  using assms alu32_imm_bound alu32_reg_bound by auto

section \<open>Where the checks are not enough\<close>

text \<open>
  C8. Looking for some \<^verbatim>\<open>EXIT\<close> does not keep a program inside its code: \<^verbatim>\<open>ja +1; exit; mov64 r0, 0\<close> is
  accepted by \<^verbatim>\<open>ubpf_load\<close> and the interpreter then reads an instruction past the last one.
\<close>

theorem accepted_program_escapes:
  "\<exists>vm'. ubpf_load True demo_vm escaping_code 24 = Inr vm'
        \<and> ubpf_exec 3 vm' mem mem_len stack reg0 m w = Some (Undefined Fetch_Out_Of_Bounds)"
proof -
  have i: "insts_of_code (take 24 escaping_code) = escaping_prog"
    and v: "validate demo_vm escaping_prog = None" by code_simp+
  let ?vm = "demo_vm\<lparr>insts := Some escaping_prog, num_insts := 3\<rparr>"
  have "ubpf_load True demo_vm escaping_code 24 = Inr ?vm"
    using i v by (simp add: ubpf_load_def demo_vm_def)
  moreover have d: "decode 5 = Some Ja" "decode 0xb7 = Some (Alu64 MOV IMM)" by code_simp+
  have "ubpf_exec 3 ?vm mem mem_len stack reg0 m w = Some (Undefined Fetch_Out_Of_Bounds)"
    by (simp add: ubpf_exec_def escaping_prog_def ubpf_step_def init_state_def d
      exec_jump_def set_reg_def)
  ultimately show ?thesis by blast
qed

text \<open>
  C9. The register forms of the 32-bit division and remainder test the 64-bit divisor and divide by
  its lower half: \<^verbatim>\<open>lddw r1, 2^32; mov64 r0, 1; div32 r0, r1; exit\<close> is accepted and traps.
\<close>

theorem accepted_program_traps:
  "\<exists>vm'. ubpf_load True demo_vm dividing_code 40 = Inr vm'
        \<and> ubpf_exec 3 vm' mem mem_len stack reg0 m w = Some (Undefined Division_Trap)"
proof -
  have i: "insts_of_code (take 40 dividing_code) = dividing_prog"
    and v: "validate demo_vm dividing_prog = None" by code_simp+
  let ?vm = "demo_vm\<lparr>insts := Some dividing_prog, num_insts := 5\<rparr>"
  have "ubpf_load True demo_vm dividing_code 40 = Inr ?vm"
    using i v by (simp add: ubpf_load_def demo_vm_def)
  moreover have d: "decode 0x18 = Some Lddw" "decode 0xb7 = Some (Alu64 MOV IMM)"
    "decode 0x3c = Some (Alu DIV REG)" by code_simp+
  have "ubpf_exec 3 ?vm mem mem_len stack reg0 m w = Some (Undefined Division_Trap)"
    by (simp add: ubpf_exec_def dividing_prog_def ubpf_step_def init_state_def d
      exec_lddw_def set_reg_def u32_def)
  ultimately show ?thesis by blast
qed

text \<open>
  C7. Away from the end of the address space \<^verbatim>\<open>bounds_check\<close> is exact: it accepts an access if and
  only if all of its bytes are in the packet or all of them are on the stack.
\<close>

theorem bounds_check_exact:
  assumes "regions_ok mem mem_len stack" "unat a + n < 2 ^ 64"
  shows "bounds_check a n mem mem_len stack \<longleftrightarrow>
    mem \<noteq> 0 \<and> unat mem \<le> unat a \<and> unat a + n \<le> unat mem + unat mem_len
    \<or> unat stack \<le> unat a \<and> unat a + n \<le> unat stack + STACK_SIZE"
proof -
  from assms have "unat (a + of_nat n) = unat a + n" by (simp add: unat_add_no_wrap)
  moreover from assms(1) have "unat (mem + mem_len) = unat mem + unat mem_len"
    "unat (stack + of_nat STACK_SIZE) = unat stack + STACK_SIZE"
    using unat_add_no_wrap [of stack STACK_SIZE]
    by (simp_all add: regions_ok_def unat_word_ariths)
  ultimately show ?thesis by (simp add: bounds_check_def word_le_nat_alt)
qed

theorem bounds_check_exact_witness:
  "\<not> bounds_check 4345 8 4096 256 65536 \<and> bounds_check 4344 8 4096 256 65536"
  using bounds_check_exact [of 4096 256 65536 4345 8] bounds_check_exact [of 4096 256 65536 4344 8]
  by (simp add: regions_ok_def STACK_SIZE_def)

text \<open>
  At the end of the address space it is not: since \<open>addr + size\<close> wraps, every access of at most
  eight bytes that runs over the end is accepted, wherever the packet and the stack are.
\<close>

lemma bounds_check_wraps:
  assumes "regions_ok mem mem_len stack" "n \<le> 8" "2 ^ 64 \<le> unat a + n"
  shows "bounds_check a n mem mem_len stack"
proof -
  have a: "unat a < 18446744073709551616" by (rule unat_lt64)
  have o: "18446744073709551616 \<le> unat a + n" using assms(3) by simp
  have "unat (a + of_nat n) = (unat a + n) mod 18446744073709551616"
    using assms(2) by (simp add: unat_word_ariths)
  also have "\<dots> = unat a + n - 18446744073709551616"
    using a o assms(2) le_mod_geq [OF o] by (intro trans [OF le_mod_geq [OF o] mod_less]) linarith
  finally have "unat (a + of_nat n) \<le> 8" using a assms(2) by linarith
  moreover have "unat stack \<le> unat a"
    using assms(1,2) o by (simp add: regions_ok_def STACK_SIZE_def)
  moreover from assms(1) have "unat (stack + of_nat STACK_SIZE) = unat stack + STACK_SIZE"
    using unat_add_no_wrap [of stack STACK_SIZE] by (simp add: regions_ok_def)
  ultimately show ?thesis by (simp add: bounds_check_def word_le_nat_alt STACK_SIZE_def)
qed

section \<open>External functions\<close>

text \<open>
  Registering a function at a slot below 64 whose name no lower slot has makes the lookup of that
  name return the slot, puts the function there and leaves the other slots as they were.
\<close>

lemma register_lookup:
  assumes "length (ext_funcs vm) = MAX_EXT_FUNCS" "length (ext_func_names vm) = MAX_EXT_FUNCS"
    and "idx < MAX_EXT_FUNCS" "\<forall>j < idx. ext_func_names vm ! j \<noteq> Some name"
    and "ubpf_register vm idx name fn = (r, vm')"
  shows "r = 0 \<and> ubpf_lookup_registered_function vm' name = of_nat idx
    \<and> ext_funcs vm' ! idx = Some fn \<and> (\<forall>j. j \<noteq> idx \<longrightarrow> ext_funcs vm' ! j = ext_funcs vm ! j)"
proof -
  from assms have r: "r = 0" "vm' = vm\<lparr>ext_funcs := (ext_funcs vm)[idx := Some fn],
      ext_func_names := (ext_func_names vm)[idx := Some name]\<rparr>"
    by (simp_all add: ubpf_register_def split: if_splits)
  have "lookup_name ((ext_func_names vm)[idx := Some name]) name 0 = of_nat (0 + idx)"
    using assms by (intro lookup_name_found) simp_all
  with r assms show ?thesis by (simp add: ubpf_lookup_registered_function_def)
qed

end
