(* ===== verification/Ubpf_Loader.thy ===== *)
theory Ubpf_Loader
  imports Ubpf_Vm
begin

text \<open>
  The ELF loader of \<^verbatim>\<open>src/ubpf/vm/ubpf_loader.c\<close>: the checks of \<^verbatim>\<open>ubpf_load_elf\<close> on the file header, the
  section table, the search for the text section, the relocations against the registered functions
  and the final \<^verbatim>\<open>ubpf_load\<close>. The file is the list of its bytes; offsets and sizes keep the width of
  the ELF structures. Reads that leave the file and writes that leave the copy of the text section
  are answers of their own.
\<close>

section \<open>Constants and structures of \<^verbatim>\<open>elf.h\<close>\<close>

definition MAX_SECTIONS :: nat where "MAX_SECTIONS = 32"
definition EM_BPF :: nat where "EM_BPF = 247"
definition ELFMAG :: "u8 list" where "ELFMAG = [0x7f, 0x45, 0x4c, 0x46]"
definition ELFCLASS64 :: nat where "ELFCLASS64 = 2"
definition ELFDATA2LSB :: nat where "ELFDATA2LSB = 1"
definition ELFOSABI_NONE :: nat where "ELFOSABI_NONE = 0"
definition ET_REL :: nat where "ET_REL = 1"
definition EM_NONE :: nat where "EM_NONE = 0"
definition SHT_PROGBITS :: nat where "SHT_PROGBITS = 1"
definition SHT_REL :: nat where "SHT_REL = 9"
definition SHF_ALLOC_EXECINSTR :: nat where "SHF_ALLOC_EXECINSTR = 6"

text \<open>The little-endian field of \<open>n\<close> bytes at byte \<open>off\<close> of the file.\<close>

definition field_at :: "u8 list \<Rightarrow> nat \<Rightarrow> nat \<Rightarrow> nat" where
  "field_at elf off n = le_nat (take n (drop off elf))"

record elf_ehdr =
  e_type :: nat
  e_machine :: nat
  e_shoff :: u64
  e_shentsize :: nat
  e_shnum :: nat

definition ehdr_of :: "u8 list \<Rightarrow> elf_ehdr" where
  "ehdr_of elf = \<lparr>e_type = field_at elf 16 2, e_machine = field_at elf 18 2,
                  e_shoff = of_nat (field_at elf 40 8), e_shentsize = field_at elf 58 2,
                  e_shnum = field_at elf 60 2\<rparr>"

text \<open>\<^verbatim>\<open>struct section\<close>: the fields of the header, and the place and size of the data in the file.\<close>

record elf_section =
  sh_type :: nat
  sh_flags :: nat
  sh_link :: nat
  sh_info :: nat
  data_off :: u64
  data_size :: u64

datatype elf_err =
    No_Elf_Header | Wrong_Magic | Wrong_Class | Wrong_Byte_Order | Wrong_Version | Wrong_Os_Abi
  | Wrong_Type | Wrong_Machine nat | Too_Many_Sections
  | Bad_Section_Header | Bad_Section_Data | Text_Section_Not_Found | Elf_Out_Of_Memory
  | Bad_Symbol_Table_Index | Bad_String_Table_Index
  | Bad_Relocation_Type nat | Bad_Symbol_Index | Bad_Symbol_Name | Bad_Relocation_Offset
  | Function_Not_Found string
  | Load_Failed ubpf_err
  | Name_Runs_Past_File
  | Write_Outside_Text

section \<open>The checks\<close>

text \<open>\<^verbatim>\<open>bounds_check\<close> of the loader: the offset of an object that lies in the file.\<close>

definition bounds_check_elf :: "u8 list \<Rightarrow> u64 \<Rightarrow> u64 \<Rightarrow> nat option" where
  "bounds_check_elf elf off sz =
     (if off + sz > of_nat (length elf) \<or> off + sz < off then None else Some (unat off))"

definition check_ehdr :: "u8 list \<Rightarrow> elf_err + elf_ehdr" where
  "check_ehdr elf =
     (case bounds_check_elf elf 0 64 of
        None \<Rightarrow> Inl No_Elf_Header
      | Some p \<Rightarrow>
          (let ehdr = ehdr_of elf
           in if take 4 elf \<noteq> ELFMAG then Inl Wrong_Magic
              else if field_at elf 4 1 \<noteq> ELFCLASS64 then Inl Wrong_Class
              else if field_at elf 5 1 \<noteq> ELFDATA2LSB then Inl Wrong_Byte_Order
              else if field_at elf 6 1 \<noteq> 1 then Inl Wrong_Version
              else if field_at elf 7 1 \<noteq> ELFOSABI_NONE then Inl Wrong_Os_Abi
              else if e_type ehdr \<noteq> ET_REL then Inl Wrong_Type
              else if e_machine ehdr \<noteq> EM_NONE \<and> e_machine ehdr \<noteq> EM_BPF
              then Inl (Wrong_Machine (e_machine ehdr))
              else if e_shnum ehdr > MAX_SECTIONS then Inl Too_Many_Sections
              else Inr ehdr))"

text \<open>One turn of the loop over the section headers.\<close>

definition parse_section :: "u8 list \<Rightarrow> elf_ehdr \<Rightarrow> nat \<Rightarrow> elf_err + elf_section" where
  "parse_section elf ehdr i =
     (case bounds_check_elf elf (e_shoff ehdr + of_nat (i * e_shentsize ehdr)) 64 of
        None \<Rightarrow> Inl Bad_Section_Header
      | Some p \<Rightarrow>
          (let off = of_nat (field_at elf (p + 24) 8); sz = of_nat (field_at elf (p + 32) 8)
           in case bounds_check_elf elf off sz of
                None \<Rightarrow> Inl Bad_Section_Data
              | Some q \<Rightarrow>
                  Inr \<lparr>sh_type = field_at elf (p + 4) 4, sh_flags = field_at elf (p + 8) 8,
                       sh_link = field_at elf (p + 40) 4, sh_info = field_at elf (p + 44) 4,
                       data_off = off, data_size = sz\<rparr>))"

fun parse_sections :: "u8 list \<Rightarrow> elf_ehdr \<Rightarrow> nat list \<Rightarrow> elf_err + elf_section list" where
  "parse_sections elf ehdr [] = Inr []"
| "parse_sections elf ehdr (i # is) =
     (case parse_section elf ehdr i of
        Inl e \<Rightarrow> Inl e
      | Inr s \<Rightarrow> (case parse_sections elf ehdr is of Inl e \<Rightarrow> Inl e | Inr ss \<Rightarrow> Inr (s # ss)))"

text \<open>The search for the text section; 0, the initial value, also when there is none.\<close>

definition is_text :: "elf_section \<Rightarrow> bool" where
  "is_text s \<longleftrightarrow> sh_type s = SHT_PROGBITS \<and> sh_flags s = SHF_ALLOC_EXECINSTR"

fun find_text :: "elf_section list \<Rightarrow> nat \<Rightarrow> nat" where
  "find_text [] i = 0"
| "find_text (s # ss) i = (if is_text s then i else find_text ss (Suc i))"

section \<open>Relocations\<close>

text \<open>The NUL-terminated string at a byte of the file; \<open>None\<close> when no NUL follows in the file.\<close>

fun c_string :: "u8 list \<Rightarrow> string option" where
  "c_string [] = None"
| "c_string (b # bs) =
     (if b = 0 then Some []
      else case c_string bs of None \<Rightarrow> None | Some s \<Rightarrow> Some (char_of (unat b) # s))"

text \<open>\<^verbatim>\<open>*(uint32_t *)(text_copy + r_offset + 4) = imm\<close>, inside the copy.\<close>

definition patch_imm :: "u8 list \<Rightarrow> nat \<Rightarrow> u32 \<Rightarrow> u8 list" where
  "patch_imm text off v = take (off + 4) text @ le_bytes 4 (unat v) @ drop (off + 8) text"

definition reloc_offset :: "u8 list \<Rightarrow> nat \<Rightarrow> u64" where
  "reloc_offset elf r = of_nat (field_at elf r 8)"

text \<open>\<open>st_name\<close> of the symbol a relocation entry refers to, and the name it points to.\<close>

definition reloc_st_name :: "u8 list \<Rightarrow> elf_section \<Rightarrow> nat \<Rightarrow> nat" where
  "reloc_st_name elf symtab r =
     field_at elf (unat (data_off symtab) + 24 * field_at elf (r + 12) 4) 4"

definition reloc_name :: "u8 list \<Rightarrow> elf_section \<Rightarrow> elf_section \<Rightarrow> nat \<Rightarrow> string option" where
  "reloc_name elf symtab strtab r =
     c_string (drop (unat (data_off strtab) + reloc_st_name elf symtab r) elf)"

text \<open>One turn of the loop over the relocations of a section; \<open>r\<close> is where the entry is in the file.\<close>

definition apply_reloc ::
  "'w ubpf_vm \<Rightarrow> u8 list \<Rightarrow> elf_section \<Rightarrow> elf_section \<Rightarrow> nat \<Rightarrow> u8 list \<Rightarrow> elf_err + u8 list" where
  "apply_reloc vm elf symtab strtab r text =
     (let r_offset = reloc_offset elf r;
          r_type = field_at elf (r + 8) 4;
          sym_idx = field_at elf (r + 12) 4;
          num_syms = (unat (data_size symtab) div 24) mod 4294967296
      in if r_type \<noteq> 2 \<and> r_type \<noteq> 10 then Inl (Bad_Relocation_Type r_type)
         else if sym_idx \<ge> num_syms then Inl Bad_Symbol_Index
         else if reloc_st_name elf symtab r \<ge> unat (data_size strtab) then Inl Bad_Symbol_Name
         else if r_offset + 8 > of_nat (length text) then Inl Bad_Relocation_Offset
         else case reloc_name elf symtab strtab r of
                None \<Rightarrow> Inl Name_Runs_Past_File
              | Some sym_name \<Rightarrow>
                  (let idx = ubpf_lookup_registered_function vm sym_name
                   in if idx = - 1 then Inl (Function_Not_Found sym_name)
                      else if unat r_offset + 8 > length text then Inl Write_Outside_Text
                      else Inr (patch_imm text (unat r_offset) idx)))"

fun apply_relocs ::
  "'w ubpf_vm \<Rightarrow> u8 list \<Rightarrow> elf_section \<Rightarrow> elf_section \<Rightarrow> nat list \<Rightarrow> u8 list \<Rightarrow> elf_err + u8 list" where
  "apply_relocs vm elf symtab strtab [] text = Inr text"
| "apply_relocs vm elf symtab strtab (r # rs) text =
     (case apply_reloc vm elf symtab strtab r text of
        Inl e \<Rightarrow> Inl e
      | Inr text' \<Rightarrow> apply_relocs vm elf symtab strtab rs text')"

text \<open>One turn of the loop over the sections that looks for relocations of the text section.\<close>

definition relocate_section ::
  "'w ubpf_vm \<Rightarrow> u8 list \<Rightarrow> elf_section list \<Rightarrow> nat \<Rightarrow> elf_section \<Rightarrow> u8 list \<Rightarrow> elf_err + u8 list" where
  "relocate_section vm elf secs text_shndx rel text =
     (if sh_type rel \<noteq> SHT_REL then Inr text
      else if sh_info rel \<noteq> text_shndx then Inr text
      else if sh_link rel \<ge> length secs then Inl Bad_Symbol_Table_Index
      else let symtab = secs ! sh_link rel
           in if sh_link symtab \<ge> length secs then Inl Bad_String_Table_Index
              else apply_relocs vm elf symtab (secs ! sh_link symtab)
                     (map (\<lambda>j. unat (data_off rel) + 16 * j) [0..<unat (data_size rel) div 16]) text)"

fun relocate_all ::
  "'w ubpf_vm \<Rightarrow> u8 list \<Rightarrow> elf_section list \<Rightarrow> nat \<Rightarrow> elf_section list \<Rightarrow> u8 list \<Rightarrow> elf_err + u8 list" where
  "relocate_all vm elf secs text_shndx [] text = Inr text"
| "relocate_all vm elf secs text_shndx (rel # rels) text =
     (case relocate_section vm elf secs text_shndx rel text of
        Inl e \<Rightarrow> Inl e
      | Inr text' \<Rightarrow> relocate_all vm elf secs text_shndx rels text')"

text \<open>
  \<^verbatim>\<open>ubpf_load_elf\<close>. \<open>alloc\<close> says whether the \<^verbatim>\<open>malloc\<close> of the copy and the one of \<^verbatim>\<open>ubpf_load\<close> succeed. The
  size of the text section is cut to 32 bits when it is passed on.
\<close>

definition ubpf_load_elf ::
  "bool \<times> bool \<Rightarrow> 'w ubpf_vm \<Rightarrow> u8 list \<Rightarrow> elf_err + 'w ubpf_vm" where
  "ubpf_load_elf alloc vm elf =
     (case check_ehdr elf of
        Inl e \<Rightarrow> Inl e
      | Inr ehdr \<Rightarrow>
          (case parse_sections elf ehdr [0..<e_shnum ehdr] of
             Inl e \<Rightarrow> Inl e
           | Inr secs \<Rightarrow>
               (let text_shndx = find_text secs 0
                in if text_shndx = 0 then Inl Text_Section_Not_Found
                   else
                     (let text = secs ! text_shndx;
                          text_copy = take (unat (data_size text)) (drop (unat (data_off text)) elf)
                      in if \<not> fst alloc then Inl Elf_Out_Of_Memory
                         else case relocate_all vm elf secs text_shndx secs text_copy of
                                Inl e \<Rightarrow> Inl e
                              | Inr code \<Rightarrow>
                                  (case ubpf_load (snd alloc) vm code (ucast (data_size text)) of
                                     Inl e \<Rightarrow> Inl (Load_Failed e)
                                   | Inr vm' \<Rightarrow> Inr vm')))))"

text \<open>The data of a section lies in the file.\<close>

definition section_inside :: "u8 list \<Rightarrow> elf_section \<Rightarrow> bool" where
  "section_inside elf s \<longleftrightarrow> unat (data_off s) + unat (data_size s) \<le> length elf"

text \<open>
  A file whose text section is \<^verbatim>\<open>exit\<close>; a machine that has \<open>f\<close> in slot 3; and a relocation entry for \<open>f\<close>
  whose offset is \<open>2 ^ 64 - 8\<close>.
\<close>

definition demo_elf :: "u8 list" where
  "demo_elf =
     [127,69,76,70,2,1,1,0,0,0,0,0,0,0,0,0,1,0,247,0,1,0,0,0,0,0,0,0,0,0,0,0,
      0,0,0,0,0,0,0,0,0,0,0,0,0,0,0,0,0,0,0,0,64,0,0,0,0,0,64,0,2,0,0,0,
      0,0,0,0,1,0,0,0,6,0,0,0,0,0,0,0,0,0,0,0,0,0,0,0,128,0,0,0,0,0,0,0,
      8,0,0,0,0,0,0,0,0,0,0,0,0,0,0,0,0,0,0,0,0,0,0,0,0,0,0,0,0,0,0,0,
      149,0,0,0,0,0,0,0]"

definition elf_vm :: "unit ubpf_vm" where
  "elf_vm = \<lparr>insts = None, num_insts = 0, jitted = 0, jitted_size = 0,
             ext_funcs = (replicate MAX_EXT_FUNCS None)[3 := Some (\<lambda>a b c d e s. (a, s))],
             ext_func_names = (replicate MAX_EXT_FUNCS None)[3 := Some ''f'']\<rparr>"

definition wrapping_elf :: "u8 list" where
  "wrapping_elf =
     [248,255,255,255,255,255,255,255, 2,0,0,0,0,0,0,0,
      0,0,0,0,0,0,0,0,0,0,0,0,0,0,0,0,0,0,0,0,0,0,0,0, 102,0]"

definition wrapping_symtab :: elf_section where
  "wrapping_symtab = \<lparr>sh_type = 2, sh_flags = 0, sh_link = 0, sh_info = 0, data_off = 16, data_size = 24\<rparr>"

definition wrapping_strtab :: elf_section where
  "wrapping_strtab = \<lparr>sh_type = 3, sh_flags = 0, sh_link = 0, sh_info = 0, data_off = 40, data_size = 2\<rparr>"

section \<open>Lemmas\<close>

lemma bounds_check_elf_Some:
  assumes "length elf < 18446744073709551616"
  shows "bounds_check_elf elf off sz = Some p \<longleftrightarrow> p = unat off \<and> unat off + unat sz \<le> length elf"
proof -
  have "unat off < 18446744073709551616" "unat sz < 18446744073709551616" by (rule unat_lt64)+
  then have "off + sz < off \<longleftrightarrow> 18446744073709551616 \<le> unat off + unat sz"
    unfolding word_less_nat_alt unat_add_words by presburger
  with assms show ?thesis
    by (auto simp: bounds_check_elf_def word_less_nat_alt unat_add_words)
qed

lemma parse_section_inside:
  "length elf < 18446744073709551616 \<Longrightarrow> parse_section elf ehdr i = Inr s \<Longrightarrow> section_inside elf s"
  by (auto simp: parse_section_def section_inside_def Let_def bounds_check_elf_Some split: option.splits)

lemma parse_sections_inside:
  "length elf < 18446744073709551616 \<Longrightarrow> parse_sections elf ehdr ks = Inr ss \<Longrightarrow>
   length ss = length ks \<and> (\<forall>s \<in> set ss. section_inside elf s)"
  by (induction ks arbitrary: ss) (auto dest: parse_section_inside split: sum.splits)

lemma find_text_spec: "find_text ss i \<noteq> 0 \<Longrightarrow> i \<le> find_text ss i \<and> find_text ss i < i + length ss \<and> is_text (ss ! (find_text ss i - i))"
proof (induction ss arbitrary: i)
  case (Cons s ss)
  then show ?case
    using Cons.IH [of "Suc i"] by (cases "is_text s") (auto simp: nth_Cons' Suc_le_eq)
qed simp

lemma length_patch_imm: "off + 8 \<le> length code \<Longrightarrow> length (patch_imm code off v) = length code"
  by (simp add: patch_imm_def)

lemma apply_reloc_Inr:
  assumes "apply_reloc vm elf symtab strtab r code = Inr code'"
  obtains name where "reloc_name elf symtab strtab r = Some name"
    and "ubpf_lookup_registered_function vm name \<noteq> - 1"
    and "unat (reloc_offset elf r) + 8 \<le> length code"
    and "code' = patch_imm code (unat (reloc_offset elf r)) (ubpf_lookup_registered_function vm name)"
  using assms by (auto simp: apply_reloc_def Let_def not_less split: if_splits option.splits)

lemma apply_relocs_length: "apply_relocs vm elf symtab strtab rs code = Inr code' \<Longrightarrow> length code' = length code"
  by (induction rs arbitrary: code) (auto split: sum.splits elim!: apply_reloc_Inr simp: length_patch_imm)

lemma relocate_all_length: "relocate_all vm elf secs n rels code = Inr code' \<Longrightarrow> length code' = length code"
  by (induction rels arbitrary: code)
    (auto simp: relocate_section_def Let_def dest: apply_relocs_length split: sum.splits if_splits)

lemma chunk_patch_imm:
  assumes "8 * m + 8 \<le> length code" "8 * k + 8 \<le> length code"
  shows "take 8 (drop (8 * k) (patch_imm code (8 * m) v)) =
    (if k = m then take 4 (drop (8 * m) code) @ le_bytes 4 (unat v) else take 8 (drop (8 * k) code))"
proof (rule nth_equalityI)
  fix i
  assume "i < length (take 8 (drop (8 * k) (patch_imm code (8 * m) v)))"
  then have i: "i < 8" by simp
  have "k < m \<or> k = m \<or> m < k" by linarith
  with i assms show "take 8 (drop (8 * k) (patch_imm code (8 * m) v)) ! i =
      (if k = m then take 4 (drop (8 * m) code) @ le_bytes 4 (unat v) else take 8 (drop (8 * k) code)) ! i"
    by (elim disjE) (auto simp: patch_imm_def nth_append min_def)
qed (use assms in \<open>auto simp: length_patch_imm\<close>)

lemma inst_of_patched:
  assumes "length bs = 8"
  shows "inst_of_bytes (take 4 bs @ le_bytes 4 (unat v)) = (inst_of_bytes bs)\<lparr>imm := v\<rparr>"
  using assms by (simp add: inst_of_bytes_def nth_append le_nat_le_bytes drop_take)

lemma insts_patch_imm:
  assumes "8 * m + 8 \<le> length code"
  shows "insts_of_code (patch_imm code (8 * m) v) =
    (insts_of_code code)[m := (insts_of_code code ! m)\<lparr>imm := v\<rparr>]"
proof (rule nth_equalityI)
  show l: "length (insts_of_code (patch_imm code (8 * m) v)) = length ((insts_of_code code)[m := (insts_of_code code ! m)\<lparr>imm := v\<rparr>])"
    using assms by (simp add: length_patch_imm)
  fix k
  assume "k < length (insts_of_code (patch_imm code (8 * m) v))"
  with assms have k: "k < length code div 8" by (simp add: length_patch_imm)
  then have k8: "8 * k + 8 \<le> length code" by presburger
  have m: "m < length code div 8" using assms by presburger
  have "inst_of_bytes (take 4 (drop (8 * m) code) @ le_bytes 4 (unat v)) = (inst_of_bytes (take 8 (drop (8 * m) code)))\<lparr>imm := v\<rparr>"
    using inst_of_patched [of "take 8 (drop (8 * m) code)" v] assms by simp
  with k m chunk_patch_imm [OF assms k8, of v] assms
  show "insts_of_code (patch_imm code (8 * m) v) ! k = (insts_of_code code)[m := (insts_of_code code ! m)\<lparr>imm := v\<rparr>] ! k"
    by (auto simp: insts_of_code_def nth_list_update length_patch_imm)
qed

section \<open>Properties\<close>

text \<open>
  C10. The bounds check of the loader accepts exactly the objects that lie in the file, whatever the
  64-bit offset and size: the test for a sum that wraps is enough.
\<close>

theorem bounds_check_elf_exact:
  assumes "length elf < 2 ^ 64"
  shows "bounds_check_elf elf off sz = Some p \<longleftrightarrow> p = unat off \<and> unat off + unat sz \<le> length elf"
  using assms by (intro bounds_check_elf_Some) simp

theorem bounds_check_elf_exact_witness:
  "bounds_check_elf [0, 0, 0] 1 2 = Some 1 \<and> bounds_check_elf [0, 0, 0] 1 (- 2) \<noteq> Some 1"
  using bounds_check_elf_exact [of "[0, 0, 0]" 1 2 1] bounds_check_elf_exact [of "[0, 0, 0]" 1 "- 2" 1]
  by simp

text \<open>
  C11. A relocation at the start of an instruction replaces the immediate of that instruction by the
  slot of the function its symbol names, and changes nothing else of the program.
\<close>

theorem reloc_patches_call:
  assumes "apply_reloc vm elf symtab strtab r code = Inr code'"
    and "unat (reloc_offset elf r) = 8 * m"
  shows "\<exists>name. reloc_name elf symtab strtab r = Some name
    \<and> insts_of_code code' =
        (insts_of_code code)[m := (insts_of_code code ! m)\<lparr>imm := ubpf_lookup_registered_function vm name\<rparr>]"
  using assms by (elim apply_reloc_Inr) (simp add: insts_patch_imm)

theorem reloc_patches_call_witness:
  "\<exists>code'. apply_reloc elf_vm (take 8 [0,0,0,0,0,0,0,0] @ drop 8 wrapping_elf) wrapping_symtab wrapping_strtab 0
      (replicate 16 0) = Inr code' \<and> imm (insts_of_code code' ! 0) = 3"
proof -
  let ?elf = "take 8 [0,0,0,0,0,0,0,0] @ drop 8 wrapping_elf"
  let ?r = "apply_reloc elf_vm ?elf wrapping_symtab wrapping_strtab 0 (replicate 16 0)"
  have "case ?r of Inr c \<Rightarrow> True | Inl e \<Rightarrow> False"
    and o: "unat (reloc_offset ?elf 0) = 0"
    and n: "reloc_name ?elf wrapping_symtab wrapping_strtab 0 = Some ''f''"
    and l: "ubpf_lookup_registered_function elf_vm ''f'' = 3" by code_simp+
  then obtain c where c: "?r = Inr c" by (auto split: sum.splits)
  from reloc_patches_call [OF c, of 0] o n l have "imm (insts_of_code c ! 0) = 3"
    by (auto simp: insts_of_code_def)
  with c show ?thesis by blast
qed



text \<open>
  A relocation can write outside the copy of the text section, and only when its offset is
  within eight of the end of the 64-bit range, where the sum in the check wraps.
\<close>

lemma reloc_write_outside:
  assumes "apply_reloc vm elf symtab strtab r code = Inl Write_Outside_Text" "length code < 2 ^ 64"
  shows "2 ^ 64 \<le> unat (reloc_offset elf r) + 8"
  using assms
  by (auto simp: apply_reloc_def Let_def not_less word_le_nat_alt unat_add_words
      split: if_splits option.splits)

end
