(* ===== verification/Heap_Management.thy ===== *)
theory Heap_Management
  imports Memory
begin

text \<open>
  The heap of a plugin, \<^verbatim>\<open>src/ubpf/tools/heap_management.c\<close>: a first-fit allocator in a fixed buffer,
  whose blocks carry their metadata in the memory itself. Memory is byte-addressed, so that the
  metadata and the data of the blocks share it, and pointers are 64-bit words.
\<close>

section \<open>State\<close>

definition SIZE_PLUGIN_HEAP :: int where "SIZE_PLUGIN_HEAP = 64000"
definition METADATA_SIZE :: nat where "METADATA_SIZE = 24"
definition ALIGNMENT_FACTOR :: u32 where "ALIGNMENT_FACTOR = 4"
definition MAGIC_NUMBER :: u32 where "MAGIC_NUMBER = 83"

text \<open>The pointers of \<^verbatim>\<open>heap_t\<close>; the buffer \<^verbatim>\<open>mem\<close> is part of the memory.\<close>

record heap =
  heap_start :: u64
  heap_end :: u64
  heap_last_block :: u64

text \<open>The fields of \<^verbatim>\<open>struct meta_data\<close> at address \<open>p\<close>.\<close>

definition md_size :: "memory \<Rightarrow> u64 \<Rightarrow> u32" where
  "md_size m p = of_nat (load_le m p 4)"

definition md_available :: "memory \<Rightarrow> u64 \<Rightarrow> u32" where
  "md_available m p = of_nat (load_le m (p + 4) 4)"

definition md_next :: "memory \<Rightarrow> u64 \<Rightarrow> u64" where
  "md_next m p = of_nat (load_le m (p + 8) 8)"

definition md_id :: "memory \<Rightarrow> u64 \<Rightarrow> u32" where
  "md_id m p = of_nat (load_le m (p + 16) 4)"

definition md_magic :: "memory \<Rightarrow> u64 \<Rightarrow> u32" where
  "md_magic m p = of_nat (load_le m (p + 20) 4)"

definition set_size :: "u64 \<Rightarrow> u32 \<Rightarrow> memory \<Rightarrow> memory" where
  "set_size p v m = store_le m p 4 (unat v)"

definition set_available :: "u64 \<Rightarrow> u32 \<Rightarrow> memory \<Rightarrow> memory" where
  "set_available p v m = store_le m (p + 4) 4 (unat v)"

definition set_next :: "u64 \<Rightarrow> u64 \<Rightarrow> memory \<Rightarrow> memory" where
  "set_next p v m = store_le m (p + 8) 8 (unat v)"

definition set_id :: "u64 \<Rightarrow> u32 \<Rightarrow> memory \<Rightarrow> memory" where
  "set_id p v m = store_le m (p + 16) 4 (unat v)"

definition set_magic :: "u64 \<Rightarrow> u32 \<Rightarrow> memory \<Rightarrow> memory" where
  "set_magic p v m = store_le m (p + 20) 4 (unat v)"

section \<open>Operations\<close>

definition align_size :: "u32 \<Rightarrow> u32" where
  "align_size sz =
     (if sz mod ALIGNMENT_FACTOR \<noteq> 0 then sz + ALIGNMENT_FACTOR - sz mod ALIGNMENT_FACTOR else sz)"

text \<open>\<^verbatim>\<open>my_sbrk\<close>: the new end, or NULL. The difference of the pointers is a signed 64-bit number.\<close>

definition my_sbrk :: "heap \<Rightarrow> u64 \<Rightarrow> u64 \<times> heap" where
  "my_sbrk h increment =
     (if sint (heap_end h + increment - heap_start h) > SIZE_PLUGIN_HEAP then (0, h)
      else (heap_end h + increment, h\<lparr>heap_end := heap_end h + increment\<rparr>))"

text \<open>The loop of \<^verbatim>\<open>find_slot\<close>; it does not return when the list of blocks has a cycle.\<close>

partial_function (option) find_slot_loop :: "memory \<Rightarrow> u32 \<Rightarrow> u64 \<Rightarrow> u64 option" where
  [code]: "find_slot_loop m sz iter =
     (if iter = 0 then Some 0
      else if md_available m iter \<noteq> 0 \<and> md_size m iter \<ge> sz then Some iter
      else find_slot_loop m sz (md_next m iter))"

definition find_slot :: "heap \<Rightarrow> memory \<Rightarrow> u32 \<Rightarrow> (u64 \<times> memory) option" where
  "find_slot h m sz =
     (if heap_start h = heap_end h then Some (0, m)
      else if sint (fst (my_sbrk h 0) - heap_start h) < int (unat sz) then Some (0, m)
      else case find_slot_loop m sz (heap_start h) of
             None \<Rightarrow> None
           | Some p \<Rightarrow> Some (p, if p = 0 then m else set_available p 0 m))"

definition divide_slot :: "u64 \<Rightarrow> u32 \<Rightarrow> memory \<Rightarrow> memory" where
  "divide_slot slot sz m =
     (let new_slot = slot + of_nat METADATA_SIZE + ucast sz;
          m1 = set_size new_slot (md_size m slot - sz - of_nat METADATA_SIZE) m;
          m2 = set_available new_slot 1 m1;
          m3 = set_next new_slot (md_next m2 slot) m2;
          m4 = set_magic new_slot MAGIC_NUMBER m3;
          m5 = set_size slot sz m4
      in set_next slot new_slot m5)"

definition extend :: "heap \<Rightarrow> memory \<Rightarrow> u32 \<Rightarrow> u64 \<times> heap \<times> memory" where
  "extend h m sz =
     (let new_block = fst (my_sbrk h 0)
      in if sint (new_block - heap_start h) > SIZE_PLUGIN_HEAP then (0, h, m)
         else
           (let (flag, h1) = my_sbrk h (ucast sz + of_nat METADATA_SIZE)
            in if flag = 0 then (0, h1, m)
               else
                 (let m1 = set_size new_block sz m;
                      m2 = set_available new_block 0 m1;
                      m3 = set_next new_block 0 m2;
                      m4 = set_magic new_block MAGIC_NUMBER m3;
                      m5 = (if heap_last_block h1 \<noteq> 0
                            then set_next (heap_last_block h1) new_block m4 else m4)
                  in (new_block, h1\<lparr>heap_last_block := new_block\<rparr>, m5))))"

text \<open>What \<^verbatim>\<open>plugin_malloc\<close> and \<^verbatim>\<open>plugin_malloc_with_id\<close> both do before they look at \<open>slot\<close>.\<close>

definition get_slot :: "heap \<Rightarrow> memory \<Rightarrow> u32 \<Rightarrow> (u64 \<times> heap \<times> memory) option" where
  "get_slot h m sz =
     (if heap_start h \<noteq> 0 then
        (case find_slot h m sz of
           None \<Rightarrow> None
         | Some (slot, m1) \<Rightarrow>
             if slot \<noteq> 0 then
               Some (slot, h,
                 if unat (md_size m1 slot) > unat sz + METADATA_SIZE then divide_slot slot sz m1 else m1)
             else Some (extend h m1 sz))
      else
        (let h1 = h\<lparr>heap_start := fst (my_sbrk h 0)\<rparr> in Some (extend h1 m sz)))"

definition plugin_malloc :: "heap \<Rightarrow> memory \<Rightarrow> u32 \<Rightarrow> (u64 \<times> heap \<times> memory) option" where
  "plugin_malloc h m sz =
     (case get_slot h m (align_size sz) of
        None \<Rightarrow> None
      | Some (slot, h', m') \<Rightarrow>
          Some (if slot = 0 then 0 else slot + of_nat METADATA_SIZE, h', m'))"

definition plugin_malloc_with_id ::
  "heap \<Rightarrow> memory \<Rightarrow> u32 \<Rightarrow> u32 \<Rightarrow> (u64 \<times> heap \<times> memory) option" where
  "plugin_malloc_with_id h m ident sz =
     (case get_slot h m (align_size sz) of
        None \<Rightarrow> None
      | Some (slot, h', m') \<Rightarrow>
          if slot = 0 then Some (0, h', m')
          else Some (slot + of_nat METADATA_SIZE, h', set_id slot ident m'))"

partial_function (option) get_memory_loop :: "memory \<Rightarrow> u32 \<Rightarrow> u64 \<Rightarrow> u64 option" where
  [code]: "get_memory_loop m ident iter =
     (if iter = 0 then Some 0
      else if md_available m iter = 0 \<and> md_id m iter = ident then Some (iter + of_nat METADATA_SIZE)
      else get_memory_loop m ident (md_next m iter))"

definition plugin_get_memory_with_id :: "heap \<Rightarrow> memory \<Rightarrow> u32 \<Rightarrow> u64 option" where
  "plugin_get_memory_with_id h m ident =
     (if heap_start h = heap_end h then Some 0 else get_memory_loop m ident (heap_start h))"

definition get_metadata :: "u64 \<Rightarrow> u64" where
  "get_metadata ptr = ptr - of_nat METADATA_SIZE"

definition plugin_free :: "heap \<Rightarrow> memory \<Rightarrow> u64 \<Rightarrow> memory" where
  "plugin_free h m ptr =
     (if heap_start h = 0 then m
      else if ptr \<ge> heap_start h + of_nat METADATA_SIZE \<and> ptr < fst (my_sbrk h 0)
              \<and> md_magic m (get_metadata ptr) = MAGIC_NUMBER
      then set_available (get_metadata ptr) 1 m
      else m)"

definition plugin_realloc :: "heap \<Rightarrow> memory \<Rightarrow> u64 \<Rightarrow> u32 \<Rightarrow> (u64 \<times> heap \<times> memory) option" where
  "plugin_realloc h m ptr sz =
     (if ptr = 0 then plugin_malloc h m sz
      else if ptr < heap_start h + of_nat METADATA_SIZE \<and> ptr \<ge> fst (my_sbrk h 0) then Some (0, h, m)
      else if md_magic m (get_metadata ptr) \<noteq> MAGIC_NUMBER then Some (0, h, m)
      else
        (let old_size = md_size m (get_metadata ptr)
         in if sz \<le> old_size then Some (ptr, h, set_size (get_metadata ptr) sz m)
            else case plugin_malloc h m sz of
                   None \<Rightarrow> None
                 | Some (new_ptr, h1, m1) \<Rightarrow>
                     if new_ptr = 0 then Some (0, h1, plugin_free h1 m1 ptr)
                     else
                       (let m2 = store_bytes m1 new_ptr (load_bytes m1 ptr (unat old_size))
                        in Some (new_ptr, h1, plugin_free h1 m2 ptr))))"

section \<open>Well-formed heaps\<close>

text \<open>
  The blocks of a heap, in the order of their addresses: each has the magic number and ends, with
  its metadata and data, before the next one begins.
\<close>

fun laid_out :: "memory \<Rightarrow> nat \<Rightarrow> u64 list \<Rightarrow> nat \<Rightarrow> bool" where
  "laid_out m lo [] hi \<longleftrightarrow> lo \<le> hi"
| "laid_out m lo (a # bs) hi \<longleftrightarrow>
     lo \<le> unat a \<and> md_magic m a = MAGIC_NUMBER
     \<and> laid_out m (unat a + METADATA_SIZE + unat (md_size m a)) bs hi"

text \<open>The list that the \<^verbatim>\<open>next_block\<close> pointers form from \<open>p\<close> on.\<close>

fun linked :: "memory \<Rightarrow> u64 \<Rightarrow> u64 list \<Rightarrow> bool" where
  "linked m p [] \<longleftrightarrow> p = 0"
| "linked m p (a # ls) \<longleftrightarrow> p = a \<and> a \<noteq> 0 \<and> linked m (md_next m a) ls"

text \<open>The same for a part of the list that leads to \<open>q\<close>.\<close>

fun linked_to :: "memory \<Rightarrow> u64 \<Rightarrow> u64 list \<Rightarrow> u64 \<Rightarrow> bool" where
  "linked_to m p [] q \<longleftrightarrow> p = q"
| "linked_to m p (a # ls) q \<longleftrightarrow> p = a \<and> a \<noteq> 0 \<and> linked_to m (md_next m a) ls q"

text \<open>
  \<open>bs\<close> are all blocks, \<open>ls\<close> those that are on the list: \<^verbatim>\<open>extend\<close> can drop blocks from it. A heap
  without blocks has \<open>heap_start = heap_end\<close>.
\<close>

definition heap_inv :: "heap \<Rightarrow> memory \<Rightarrow> u64 list \<Rightarrow> u64 list \<Rightarrow> bool" where
  "heap_inv h m bs ls \<longleftrightarrow>
     heap_start h \<noteq> 0 \<and> unat (heap_start h) + 64000 < 18446744073709551616
     \<and> unat (heap_end h) \<le> unat (heap_start h) + 64000
     \<and> laid_out m (unat (heap_start h)) bs (unat (heap_end h))
     \<and> distinct ls \<and> set ls \<subseteq> set bs
     \<and> (if ls = [] then heap_start h = heap_end h \<and> heap_last_block h = 0
        else heap_start h \<noteq> heap_end h \<and> linked m (heap_start h) ls \<and> heap_last_block h \<in> set ls)"

definition allocated :: "memory \<Rightarrow> u64 list \<Rightarrow> u64 set" where
  "allocated m bs = {a \<in> set bs. md_available m a = 0}"

text \<open>The bytes the owner of a block may use.\<close>

definition data_of :: "memory \<Rightarrow> u64 \<Rightarrow> u64 set" where
  "data_of m a = span (a + of_nat METADATA_SIZE) (unat (md_size m a))"

text \<open>Nothing an owner of an allocated block can see has changed.\<close>

definition keeps_allocated :: "memory \<Rightarrow> u64 list \<Rightarrow> memory \<Rightarrow> bool" where
  "keeps_allocated m bs m' \<longleftrightarrow>
     (\<forall>a \<in> allocated m bs. md_size m' a = md_size m a \<and> (\<forall>x \<in> data_of m a. m' x = m x))"

end
