(* ===== verification/Heap_Invariant.thy ===== *)
theory Heap_Invariant
  imports Heap_Management
begin

text \<open>
  The operations of the plugin heap keep its blocks well-formed: what the setters of one block leave
  alone, dividing a block, extending the heap, and then what a request, a release and a write to an
  allocated block do.
\<close>

section \<open>Metadata\<close>

text \<open>The metadata of a block: what the setters change and what the getters read.\<close>

lemma meta_spans:
  "span a 4 \<subseteq> span a 24" "span (a + 4) 4 \<subseteq> span a 24" "span (a + 8) 8 \<subseteq> span a 24"
  "span (a + 16) 4 \<subseteq> span a 24" "span (a + 20) 4 \<subseteq> span a 24"
  using span_offset [of 0 4 24 a] span_offset [of 4 4 24 a] span_offset [of 8 8 24 a]
    span_offset [of 16 4 24 a] span_offset [of 20 4 24 a] by simp_all

lemmas md_defs = md_size_def md_available_def md_next_def md_id_def md_magic_def
lemmas set_defs = set_size_def set_available_def set_next_def set_id_def set_magic_def

lemma setter_outside [heap_simps]:
  assumes "x \<notin> span a 24"
  shows "set_size a v m x = m x" "set_available a v m x = m x" "set_next a p m x = m x"
    "set_id a v m x = m x" "set_magic a v m x = m x"
  using assms meta_spans [of a] by (auto simp: set_defs intro!: store_le_outside)

lemma getter_cong:
  assumes "\<And>x. x \<in> span a 24 \<Longrightarrow> m x = m' x"
  shows "md_size m a = md_size m' a" "md_available m a = md_available m' a" "md_next m a = md_next m' a"
    "md_id m a = md_id m' a" "md_magic m a = md_magic m' a"
  using assms meta_spans [of a] by (auto simp: md_defs intro!: arg_cong [where f = of_nat] load_le_cong)

lemma meta_disjoint:
  "span (a + of_nat i) n \<inter> span (a + of_nat j) k = {}" if "i + n \<le> j" "j + k \<le> 24"
proof -
  have False if x: "unat (x - (a + of_nat i)) < n" "unat (x - (a + of_nat j)) < k" for x
  proof -
    have "unat (x - (a + of_nat i) + of_nat i) = unat (x - (a + of_nat i)) + i"
      "unat (x - (a + of_nat j) + of_nat j) = unat (x - (a + of_nat j)) + j"
      using x \<open>i + n \<le> j\<close> \<open>j + k \<le> 24\<close> by (simp_all only: unat_add_no_wrap)
    then show False using x \<open>i + n \<le> j\<close> by simp
  qed
  then show ?thesis by (auto simp: span_def)
qed

lemma meta_fields_disjoint:
  "span a 4 \<inter> span (a + 4) 4 = {}" "span a 4 \<inter> span (a + 8) 8 = {}" "span a 4 \<inter> span (a + 16) 4 = {}"
  "span a 4 \<inter> span (a + 20) 4 = {}" "span (a + 4) 4 \<inter> span (a + 8) 8 = {}"
  "span (a + 4) 4 \<inter> span (a + 16) 4 = {}" "span (a + 4) 4 \<inter> span (a + 20) 4 = {}"
  "span (a + 8) 8 \<inter> span (a + 16) 4 = {}" "span (a + 8) 8 \<inter> span (a + 20) 4 = {}"
  "span (a + 16) 4 \<inter> span (a + 20) 4 = {}"
  using meta_disjoint [of 0 4 4 4 a] meta_disjoint [of 0 4 8 8 a] meta_disjoint [of 0 4 16 4 a]
    meta_disjoint [of 0 4 20 4 a] meta_disjoint [of 4 4 8 8 a] meta_disjoint [of 4 4 16 4 a]
    meta_disjoint [of 4 4 20 4 a] meta_disjoint [of 8 8 16 4 a] meta_disjoint [of 8 8 20 4 a]
    meta_disjoint [of 16 4 20 4 a] by simp_all

lemma getter_setter_same [heap_simps]:
  "md_size (set_size a v m) a = v" "md_available (set_available a v m) a = v"
  "md_next (set_next a p m) a = p" "md_id (set_id a v m) a = v" "md_magic (set_magic a v m) a = v"
  by (simp_all add: md_defs set_defs load_store_le)

lemma getter_setter_other [heap_simps]:
  "md_size (set_available a v m) a = md_size m a" "md_size (set_next a p m) a = md_size m a"
  "md_size (set_id a v m) a = md_size m a" "md_size (set_magic a v m) a = md_size m a"
  "md_available (set_size a v m) a = md_available m a" "md_available (set_next a p m) a = md_available m a"
  "md_available (set_id a v m) a = md_available m a" "md_available (set_magic a v m) a = md_available m a"
  "md_next (set_size a v m) a = md_next m a" "md_next (set_available a v m) a = md_next m a"
  "md_next (set_id a v m) a = md_next m a" "md_next (set_magic a v m) a = md_next m a"
  "md_id (set_size a v m) a = md_id m a" "md_id (set_available a v m) a = md_id m a"
  "md_id (set_next a p m) a = md_id m a" "md_id (set_magic a v m) a = md_id m a"
  "md_magic (set_size a v m) a = md_magic m a" "md_magic (set_available a v m) a = md_magic m a"
  "md_magic (set_next a p m) a = md_magic m a" "md_magic (set_id a v m) a = md_magic m a"
  using meta_fields_disjoint [of a]
  by (simp_all add: md_defs set_defs load_store_le_disjoint Int_commute)

text \<open>The setters of one block do not change the metadata of another one.\<close>

lemma getter_setter_apart [heap_simps]:
  assumes "span a 24 \<inter> span b 24 = {}"
  shows "md_size (set_size a v m) b = md_size m b" "md_size (set_available a v m) b = md_size m b"
    "md_size (set_next a p m) b = md_size m b" "md_size (set_magic a v m) b = md_size m b"
    "md_available (set_size a v m) b = md_available m b" "md_available (set_available a v m) b = md_available m b"
    "md_available (set_next a p m) b = md_available m b" "md_available (set_magic a v m) b = md_available m b"
    "md_next (set_size a v m) b = md_next m b" "md_next (set_available a v m) b = md_next m b"
    "md_next (set_next a p m) b = md_next m b" "md_next (set_magic a v m) b = md_next m b"
    "md_magic (set_size a v m) b = md_magic m b" "md_magic (set_available a v m) b = md_magic m b"
    "md_magic (set_next a p m) b = md_magic m b" "md_magic (set_magic a v m) b = md_magic m b"
    "md_size (set_id a v m) b = md_size m b" "md_next (set_id a v m) b = md_next m b"
    "md_magic (set_id a v m) b = md_magic m b"
  using assms by (auto intro!: getter_cong setter_outside)

section \<open>Lists of blocks\<close>

lemma laid_out_cong:
  "(\<And>a. a \<in> set bs \<Longrightarrow> md_size m' a = md_size m a \<and> md_magic m' a = md_magic m a) \<Longrightarrow>
   laid_out m' lo bs hi = laid_out m lo bs hi"
  by (induction bs arbitrary: lo) simp_all

lemma laid_out_mono: "laid_out m lo bs hi \<Longrightarrow> hi \<le> hi' \<Longrightarrow> laid_out m lo bs hi'"
  by (induction bs arbitrary: lo) auto

lemma laid_out_append:
  "laid_out m lo (xs @ a # ys) hi \<longleftrightarrow>
     laid_out m lo xs (unat a) \<and> md_magic m a = MAGIC_NUMBER
     \<and> laid_out m (unat a + METADATA_SIZE + unat (md_size m a)) ys hi"
  by (induction xs arbitrary: lo) auto

lemma laid_out_le: "laid_out m lo bs hi \<Longrightarrow> lo \<le> hi"
  by (induction bs arbitrary: lo) fastforce+

lemma laid_out_bounds:
  "laid_out m lo bs hi \<Longrightarrow> a \<in> set bs \<Longrightarrow>
   lo \<le> unat a \<and> unat a + METADATA_SIZE + unat (md_size m a) \<le> hi \<and> md_magic m a = MAGIC_NUMBER"
proof (induction bs arbitrary: lo)
  case (Cons b bs)
  then show ?case using laid_out_le [of m _ bs hi] by fastforce
qed simp

lemma laid_out_apart:
  "laid_out m lo bs hi \<Longrightarrow> a \<in> set bs \<Longrightarrow> b \<in> set bs \<Longrightarrow> a \<noteq> b \<Longrightarrow>
   unat a + METADATA_SIZE + unat (md_size m a) \<le> unat b \<or>
   unat b + METADATA_SIZE + unat (md_size m b) \<le> unat a"
proof (induction bs arbitrary: lo)
  case (Cons c bs)
  then show ?case using laid_out_bounds [of m _ bs hi] by fastforce
qed simp

lemma linked_cong:
  "(\<And>a. a \<in> set ls \<Longrightarrow> md_next m' a = md_next m a) \<Longrightarrow> linked m' p ls = linked m p ls"
  by (induction ls arbitrary: p) simp_all

lemma linked_append:
  "linked m p (xs @ a # ys) \<longleftrightarrow> linked_to m p xs a \<and> a \<noteq> 0 \<and> linked m (md_next m a) ys"
  by (induction xs arbitrary: p) auto

lemma linked_to_cong:
  "(\<And>a. a \<in> set ls \<Longrightarrow> md_next m' a = md_next m a) \<Longrightarrow> linked_to m' p ls q = linked_to m p ls q"
  by (induction ls arbitrary: p) simp_all

lemma find_slot_loop_linked:
  "linked m p ls \<Longrightarrow>
   find_slot_loop m sz p =
     Some (case find (\<lambda>a. md_available m a \<noteq> 0 \<and> sz \<le> md_size m a) ls of None \<Rightarrow> 0 | Some a \<Rightarrow> a)"
  by (induction ls arbitrary: p) (subst find_slot_loop.simps, auto)+

lemma get_memory_loop_linked:
  "linked m p ls \<Longrightarrow>
   get_memory_loop m i p =
     Some (case find (\<lambda>a. md_available m a = 0 \<and> md_id m a = i) ls of
             None \<Rightarrow> 0 | Some a \<Rightarrow> a + of_nat METADATA_SIZE)"
  by (induction ls arbitrary: p) (subst get_memory_loop.simps, auto)+

lemma heap_inv_extents:
  assumes "heap_inv h m bs ls" "a \<in> set bs"
  shows "unat (heap_start h) \<le> unat a" "unat a + 24 + unat (md_size m a) \<le> unat (heap_end h)"
    "unat a + 24 + unat (md_size m a) < 18446744073709551616" "md_magic m a = MAGIC_NUMBER" "a \<noteq> 0"
proof -
  from assms have l: "laid_out m (unat (heap_start h)) bs (unat (heap_end h))"
    and s: "heap_start h \<noteq> 0" by (auto simp: heap_inv_def)
  from laid_out_bounds [OF l assms(2)]
  show u: "unat (heap_start h) \<le> unat a" "unat a + 24 + unat (md_size m a) \<le> unat (heap_end h)"
    "md_magic m a = MAGIC_NUMBER" by (simp_all add: METADATA_SIZE_def)
  have "unat (heap_end h) < 18446744073709551616" by (rule unat_lt64)
  with u(2) show "unat a + 24 + unat (md_size m a) < 18446744073709551616" by linarith
  from s have "0 < unat (heap_start h)" by (simp add: unat_gt_0)
  with u show "a \<noteq> 0" by auto
qed

lemma block_data_nonzero:
  assumes "heap_inv h m bs ls" "a \<in> set bs"
  shows "a + 24 \<noteq> 0"
proof -
  have "unat (a + of_nat 24) = unat a + 24"
    using heap_inv_extents(3) [OF assms] by (intro unat_add_no_wrap) linarith
  then show ?thesis by auto
qed

lemma heap_inv_apart:
  assumes "heap_inv h m bs ls" "a \<in> set bs" "b \<in> set bs" "a \<noteq> b"
  shows "span a (24 + unat (md_size m a)) \<inter> span b (24 + unat (md_size m b)) = {}"
proof -
  from assms(1) have "laid_out m (unat (heap_start h)) bs (unat (heap_end h))" by (simp add: heap_inv_def)
  from laid_out_apart [OF this assms(2-4)]
  consider "unat a + (24 + unat (md_size m a)) \<le> unat b" | "unat b + (24 + unat (md_size m b)) \<le> unat a"
    by (auto simp: METADATA_SIZE_def add.assoc)
  then show ?thesis
  proof cases
    case 1
    then show ?thesis using heap_inv_extents(3) [OF assms(1,3)] by (intro span_apart) linarith+
  next
    case 2
    then have "span b (24 + unat (md_size m b)) \<inter> span a (24 + unat (md_size m a)) = {}"
      using heap_inv_extents(3) [OF assms(1,2)] by (intro span_apart) linarith+
    then show ?thesis by blast
  qed
qed

lemma data_extent:
  assumes "heap_inv h m bs ls" "a \<in> set bs"
  shows "data_of m a \<subseteq> span a (24 + unat (md_size m a))" "data_of m a \<inter> span a 24 = {}"
proof -
  note e = heap_inv_extents [OF assms]
  show "data_of m a \<subseteq> span a (24 + unat (md_size m a))"
    using e span_offset [of 24 "unat (md_size m a)" "24 + unat (md_size m a)" a]
    by (simp add: data_of_def METADATA_SIZE_def)
  have "unat (a + of_nat 24) = unat a + 24" using e by (intro unat_add_no_wrap) linarith
  with e show "data_of m a \<inter> span a 24 = {}"
    using span_apart [of a 24 "a + of_nat 24" "unat (md_size m a)"]
    by (simp add: data_of_def METADATA_SIZE_def Int_commute)
qed

lemma heap_inv_meta_apart:
  assumes "heap_inv h m bs ls" "a \<in> set bs" "b \<in> set bs"
  shows "a \<noteq> b \<Longrightarrow> span a 24 \<inter> span b 24 = {}" "data_of m a \<inter> span b 24 = {}"
proof -
  note s = span_shorter [of 24 "24 + unat (md_size m a)" a] span_shorter [of 24 "24 + unat (md_size m b)" b]
  show "a \<noteq> b \<Longrightarrow> span a 24 \<inter> span b 24 = {}" using heap_inv_apart [OF assms] s by auto
  show "data_of m a \<inter> span b 24 = {}"
    using heap_inv_apart [OF assms] s data_extent [OF assms(1,2)] by (cases "a = b") auto
qed

lemma heap_inv_cong:
  assumes "heap_inv h m bs ls"
    and "\<And>a. a \<in> set bs \<Longrightarrow> md_size m' a = md_size m a \<and> md_magic m' a = md_magic m a \<and> md_next m' a = md_next m a"
  shows "heap_inv h m' bs ls"
proof -
  from assms(1) have "set ls \<subseteq> set bs" by (simp add: heap_inv_def)
  with assms(2) have "linked m' p ls = linked m p ls" for p by (intro linked_cong) auto
  moreover have "laid_out m' lo bs hi = laid_out m lo bs hi" for lo hi using assms(2) by (intro laid_out_cong) auto
  ultimately show ?thesis using assms(1) by (simp add: heap_inv_def)
qed

text \<open>Changing the availability or the identifier of a block.\<close>

lemma set_id_inv:
  assumes I: "heap_inv h m bs ls" and p: "p \<in> set bs"
  shows "heap_inv h (set_id p v m) bs ls"
proof (rule heap_inv_cong [OF I])
  fix a
  assume a: "a \<in> set bs"
  show "md_size (set_id p v m) a = md_size m a \<and> md_magic (set_id p v m) a = md_magic m a
      \<and> md_next (set_id p v m) a = md_next m a"
    using heap_inv_meta_apart(1) [OF I p a] by (cases "a = p") (simp_all add: heap_simps)
qed

lemma set_available_meta:
  assumes "heap_inv h m bs ls" "p \<in> set bs" "a \<in> set bs"
  shows "md_size (set_available p v m) a = md_size m a" "md_magic (set_available p v m) a = md_magic m a"
    "md_next (set_available p v m) a = md_next m a"
    "md_available (set_available p v m) a = (if a = p then v else md_available m a)"
  using heap_inv_meta_apart(1) [OF assms(1,2,3)] by (cases "a = p"; simp add: heap_simps)+

lemma set_available_inv:
  "heap_inv h m bs ls \<Longrightarrow> p \<in> set bs \<Longrightarrow> heap_inv h (set_available p v m) bs ls"
  by (rule heap_inv_cong) (simp_all add: set_available_meta [of h m bs ls])

lemma set_available_data:
  assumes "heap_inv h m bs ls" "p \<in> set bs" "a \<in> set bs" "x \<in> data_of m a"
  shows "set_available p v m x = m x"
  using heap_inv_meta_apart(2) [OF assms(1,3,2)] assms(4) by (intro setter_outside) auto

section \<open>Dividing a block\<close>

lemma divide_slot_meta:
  assumes "unat p + 24 + unat (md_size m p) < 18446744073709551616"
    and "unat sz + 24 < unat (md_size m p)"
  defines "q \<equiv> p + 24 + ucast sz" and "m' \<equiv> divide_slot p sz m"
  shows "unat q = unat p + 24 + unat sz"
    and "md_size m' p = sz" "md_available m' p = md_available m p" "md_next m' p = q" "md_magic m' p = md_magic m p"
    and "unat (md_size m' q) = unat (md_size m p) - unat sz - 24" "md_available m' q = 1"
    "md_next m' q = md_next m p" "md_magic m' q = MAGIC_NUMBER"
    and "x \<notin> span p 24 \<Longrightarrow> x \<notin> span q 24 \<Longrightarrow> m' x = m x"
proof -
  have p24: "unat (p + 24) = unat p + 24"
    using unat_add_no_wrap [of p 24] assms(1) by simp
  then show q: "unat q = unat p + 24 + unat sz"
    using assms(1,2) by (simp add: q_def unat_add_words)
  have "span p 24 \<inter> span q 24 = {}"
    using q assms(1,2) by (intro span_apart) linarith+
  then have d: "span p 24 \<inter> span q 24 = {}" "span q 24 \<inter> span p 24 = {}" by auto
  have m': "m' = set_next p q (set_size p sz (set_magic q MAGIC_NUMBER (set_next q (md_next m p)
      (set_available q 1 (set_size q (md_size m p - sz - 24) m)))))"
    unfolding m'_def divide_slot_def Let_def q_def [symmetric]
    using d by (simp add: METADATA_SIZE_def q_def [symmetric] heap_simps)
  show "md_size m' p = sz" "md_available m' p = md_available m p" "md_next m' p = q"
    "md_magic m' p = md_magic m p" "md_available m' q = 1" "md_next m' q = md_next m p"
    "md_magic m' q = MAGIC_NUMBER"
    unfolding m' using d by (simp_all add: heap_simps)
  have "md_size m' q = md_size m p - sz - 24" unfolding m' using d by (simp add: heap_simps)
  moreover have "unat (md_size m p - sz - 24) = unat (md_size m p) - unat sz - 24"
    using assms(2) by (simp add: unat_sub_if_size unat_sub word_le_nat_alt)
  ultimately show "unat (md_size m' q) = unat (md_size m p) - unat sz - 24" by simp
  show "x \<notin> span p 24 \<Longrightarrow> x \<notin> span q 24 \<Longrightarrow> m' x = m x"
    unfolding m' by (simp add: heap_simps)
qed

lemma laid_out_distinct: "laid_out m lo bs hi \<Longrightarrow> distinct bs"
proof (induction bs arbitrary: lo)
  case (Cons b bs)
  then show ?case using laid_out_bounds [of m _ bs hi b] by (fastforce simp: METADATA_SIZE_def)
qed simp

lemma divide_slot_frame:
  assumes "heap_inv h m bs ls" "p \<in> set bs" "unat sz + 24 < unat (md_size m p)"
    and "a \<in> set bs" "a \<noteq> p" "x \<in> span a (24 + unat (md_size m a))"
  shows "divide_slot p sz m x = m x"
proof -
  note e = heap_inv_extents [OF assms(1,2)]
  let ?q = "p + 24 + ucast sz"
  have "span (p + of_nat (24 + unat sz)) 24 \<subseteq> span p (24 + unat (md_size m p))"
    using e assms(3) by (intro span_offset) linarith+
  then have "span ?q 24 \<subseteq> span p (24 + unat (md_size m p))" by (simp add: add.assoc)
  then have "x \<notin> span ?q 24" "x \<notin> span p 24"
    using heap_inv_apart [OF assms(1,4,2,5)] assms(6) span_shorter [of 24 "24 + unat (md_size m p)" p] by auto
  then show ?thesis using divide_slot_meta(10) [OF e(3) assms(3)] by blast
qed

lemma divide_slot_frame_meta:
  assumes "heap_inv h m bs ls" "p \<in> set bs" "unat sz + 24 < unat (md_size m p)" "a \<in> set bs" "a \<noteq> p"
  shows "md_size (divide_slot p sz m) a = md_size m a" "md_available (divide_slot p sz m) a = md_available m a"
    "md_next (divide_slot p sz m) a = md_next m a" "md_magic (divide_slot p sz m) a = md_magic m a"
  using divide_slot_frame [OF assms] span_shorter [of 24 "24 + unat (md_size m a)" a]
  by (auto intro!: getter_cong)

lemma divide_slot_inv:
  assumes I: "heap_inv h m bs ls" and p: "p \<in> set ls" and sz: "unat sz + 24 < unat (md_size m p)"
  shows "\<exists>bs' ls'. heap_inv h (divide_slot p sz m) bs' ls' \<and> set bs' = insert (p + 24 + ucast sz) (set bs)
           \<and> set ls \<subseteq> set ls'"
proof -
  let ?q = "p + 24 + ucast sz" and ?m = "divide_slot p sz m"
  from I have lo: "laid_out m (unat (heap_start h)) bs (unat (heap_end h))" and sub: "set ls \<subseteq> set bs"
    and dl: "distinct ls" and ln: "linked m (heap_start h) ls"
    using p by (auto simp: heap_inv_def split: if_splits)
  with p have pb: "p \<in> set bs" by auto
  note e = heap_inv_extents [OF I pb]
  note d = divide_slot_meta [OF e(3) sz]
  note fr = divide_slot_frame_meta [OF I pb sz]
  obtain xs ys where bs: "bs = xs @ p # ys" using pb by (auto simp: in_set_conv_decomp)
  obtain us vs where ls: "ls = us @ p # vs" using p by (auto simp: in_set_conv_decomp)
  have np: "p \<notin> set xs" "p \<notin> set ys" using laid_out_distinct [OF lo] bs by auto
  have nu: "p \<notin> set us" "p \<notin> set vs" using dl ls by auto
  have nq: "?q \<notin> set bs"
  proof
    assume "?q \<in> set bs"
    moreover from d(1) have "unat ?q \<noteq> unat p" by linarith
    then have "?q \<noteq> p" by metis
    ultimately show False
      using laid_out_apart [OF lo pb, of ?q] d(1) sz by (simp add: METADATA_SIZE_def)
  qed
  have "laid_out ?m (unat (heap_start h)) xs (unat p)"
    using lo fr(1,4) np bs by (subst laid_out_cong [of xs ?m m]) (auto simp: laid_out_append)
  moreover have "laid_out ?m (unat p + 24 + unat (md_size m p)) ys (unat (heap_end h))"
    using lo fr(1,4) np bs by (subst laid_out_cong [of ys ?m m]) (auto simp: laid_out_append METADATA_SIZE_def)
  ultimately have "laid_out ?m (unat (heap_start h)) (xs @ p # ?q # ys) (unat (heap_end h))"
    using d(1,2,5,6,9) e(4) sz by (simp add: laid_out_append METADATA_SIZE_def ac_simps)
  moreover have "linked ?m (heap_start h) (us @ p # ?q # vs)"
  proof -
    have "linked_to ?m (heap_start h) us p"
      using ln fr(3) nu ls sub bs by (subst linked_to_cong [of us ?m m]) (auto simp: linked_append)
    moreover have "linked ?m (md_next m p) vs"
      using ln fr(3) nu ls sub bs by (subst linked_cong [of vs ?m m]) (auto simp: linked_append)
    moreover from d(1) have "unat ?q \<noteq> 0" by linarith
    then have "?q \<noteq> 0" by (metis unat_0)
    ultimately show ?thesis using d e by (simp add: linked_append)
  qed
  ultimately have "heap_inv h ?m (xs @ p # ?q # ys) (us @ p # ?q # vs)"
    using I nq dl sub bs ls by (auto simp: heap_inv_def split: if_splits)
  moreover have "set (xs @ p # ?q # ys) = insert ?q (set bs)" "set ls \<subseteq> set (us @ p # ?q # vs)"
    using bs ls by auto
  ultimately show ?thesis by blast
qed

section \<open>Extending the heap\<close>

lemma my_sbrk_cases:
  assumes "unat (heap_start h) \<le> unat (heap_end h)" "unat (heap_end h) \<le> unat (heap_start h) + 64000"
    and "unat (heap_start h) + 64000 < 18446744073709551616" "unat inc < 8589934592"
  shows "my_sbrk h inc =
    (if unat (heap_start h) + 64000 < unat (heap_end h) + unat inc then (0, h)
     else (heap_end h + inc, h\<lparr>heap_end := heap_end h + inc\<rparr>))"
proof -
  let ?d = "heap_end h - heap_start h"
  have d: "unat ?d = unat (heap_end h) - unat (heap_start h)"
    using assms(1) by (simp add: unat_sub word_le_nat_alt)
  have "heap_end h + inc - heap_start h = ?d + inc" by simp
  then have "unat (heap_end h + inc - heap_start h) = unat (?d + inc)" by (simp only:)
  also have "\<dots> = unat ?d + unat inc" using d assms by (simp add: unat_add_words)
  finally have u: "unat (heap_end h + inc - heap_start h) = unat (heap_end h) + unat inc - unat (heap_start h)"
    using d assms(1) by linarith
  have "sint (heap_end h + inc - heap_start h) = int (unat (heap_end h + inc - heap_start h))"
    using u assms by (intro sint_small64) linarith
  with u have "sint (heap_end h + inc - heap_start h) > 64000
      \<longleftrightarrow> unat (heap_start h) + 64000 < unat (heap_end h) + unat inc"
    using assms(1) by linarith
  then show ?thesis by (simp add: my_sbrk_def SIZE_PLUGIN_HEAP_def)
qed

lemma heap_inv_bounds:
  assumes "heap_inv h m bs ls"
  shows "unat (heap_start h) \<le> unat (heap_end h)" "unat (heap_end h) \<le> unat (heap_start h) + 64000"
    "unat (heap_start h) + 64000 < 18446744073709551616" "heap_start h \<noteq> 0" "heap_end h \<noteq> 0"
proof -
  show a: "unat (heap_start h) \<le> unat (heap_end h)" "unat (heap_end h) \<le> unat (heap_start h) + 64000"
    "unat (heap_start h) + 64000 < 18446744073709551616" "heap_start h \<noteq> 0"
    using assms laid_out_le by (auto simp: heap_inv_def)
  then show "heap_end h \<noteq> 0" by (auto simp: unat_eq_0)
qed

lemma extend_cases:
  assumes "heap_inv h m bs ls"
  defines "e \<equiv> heap_end h"
  shows "extend h m sz =
    (if unat (heap_start h) + 64000 < unat e + 24 + unat sz then (0, h, m)
     else (e, h\<lparr>heap_end := e + (ucast sz + 24), heap_last_block := e\<rparr>,
       (if heap_last_block h \<noteq> 0 then set_next (heap_last_block h) e else id)
         (set_magic e MAGIC_NUMBER (set_next e 0 (set_available e 0 (set_size e sz m))))))"
proof -
  note b = heap_inv_bounds [OF assms(1)]
  have z: "my_sbrk h 0 = (e, h)" using my_sbrk_cases [OF b(1-3), of 0] b by (simp add: e_def)
  have sz: "unat sz < 4294967296" by (rule unat_lt32)
  then have "unat sz + 24 < 18446744073709551616" by linarith
  then have u: "unat (ucast sz + 24 :: u64) = unat sz + 24"
    using unat_add_no_wrap [of "ucast sz" 24] by simp
  have "my_sbrk h (ucast sz + 24) =
     (if unat (heap_start h) + 64000 < unat e + 24 + unat sz then (0, h)
      else (e + (ucast sz + 24), h\<lparr>heap_end := e + (ucast sz + 24)\<rparr>))"
    using my_sbrk_cases [OF b(1-3), of "ucast sz + 24"] u sz by (simp add: e_def add_ac)
  moreover have "e + (ucast sz + 24) \<noteq> 0" if "\<not> unat (heap_start h) + 64000 < unat e + 24 + unat sz"
  proof -
    have "unat (e + (ucast sz + 24)) = unat e + (unat sz + 24)"
      using that u b by (simp add: unat_add_words)
    then show ?thesis by auto
  qed
  moreover have "\<not> sint (e - heap_start h) > 64000"
  proof -
    have "unat (e - heap_start h) = unat e - unat (heap_start h)"
      using b(1) by (simp add: unat_sub word_le_nat_alt e_def)
    then have "sint (e - heap_start h) = int (unat e - unat (heap_start h))"
      using b sint_small64 [of "e - heap_start h"] by (simp add: e_def)
    with b(2) show ?thesis by (simp add: e_def)
  qed
  ultimately show ?thesis
    by (simp add: extend_def z Let_def METADATA_SIZE_def SIZE_PLUGIN_HEAP_def split: if_splits)
qed

lemma extend_inv:
  assumes I: "heap_inv h m bs ls" and x: "extend h m sz = (e, h', m')" "e \<noteq> 0"
  shows "e = heap_end h" "\<exists>ls'. heap_inv h' m' (bs @ [e]) ls' \<and> e \<in> set ls'" "md_available m' e = 0" "md_size m' e = sz"
    "\<And>a. a \<in> set bs \<Longrightarrow> md_size m' a = md_size m a \<and> md_available m' a = md_available m a"
    "\<And>a x. a \<in> set bs \<Longrightarrow> x \<in> data_of m a \<Longrightarrow> m' x = m x"
proof -
  let ?l = "heap_last_block h"
  define m4 where "m4 = set_magic e MAGIC_NUMBER (set_next e 0 (set_available e 0 (set_size e sz m)))"
  from x extend_cases [OF I, of sz] have e: "e = heap_end h"
    and fits: "unat e + 24 + unat sz \<le> unat (heap_start h) + 64000"
    and h': "h' = h\<lparr>heap_end := e + (ucast sz + 24), heap_last_block := e\<rparr>"
    and m': "m' = (if ?l \<noteq> 0 then set_next ?l e else id) m4"
    by (auto simp: m4_def split: if_splits)
  show "e = heap_end h" by (rule e)
  have ee: "unat e = unat (heap_end h)" using e by simp
  note b = heap_inv_bounds [OF I]
  have ext: "span a (24 + unat (md_size m a)) \<inter> span e 24 = {}" if "a \<in> set bs" for a
    using heap_inv_extents(2) [OF I that] fits b(3) ee by (intro span_apart) linarith+
  have ne: "a \<noteq> e" if "a \<in> set bs" for a
    using heap_inv_extents(2) [OF I that] e by auto
  have meta: "span a 24 \<inter> span e 24 = {}" "span e 24 \<inter> span a 24 = {}" if "a \<in> set bs" for a
    using ext [OF that] span_shorter [of 24 "24 + unat (md_size m a)" a] by auto
  have lb: "?l \<in> set bs" if "?l \<noteq> 0" using I that by (auto simp: heap_inv_def split: if_splits)
  have e4: "md_available m' e = 0" "md_size m' e = sz" "md_magic m' e = MAGIC_NUMBER" "md_next m' e = 0"
    unfolding m' m4_def using meta [OF lb] by (auto simp: heap_simps)
  then show "md_available m' e = 0" "md_size m' e = sz" by simp_all
  have a4: "md_size m' a = md_size m a" "md_available m' a = md_available m a" "md_magic m' a = md_magic m a"
    "md_next m' a = (if a = ?l then e else md_next m a)" if a: "a \<in> set bs" for a
    using meta [OF a] heap_inv_meta_apart(1) [OF I lb a] heap_inv_extents(5) [OF I a]
    unfolding m' m4_def by (cases "a = ?l"; auto simp: heap_simps)+
  then show "\<And>a. a \<in> set bs \<Longrightarrow> md_size m' a = md_size m a \<and> md_available m' a = md_available m a" by simp
  show "m' x = m x" if a: "a \<in> set bs" and x: "x \<in> data_of m a" for a x
  proof -
    have "x \<notin> span e 24" using ext [OF a] data_extent(1) [OF I a] x by auto
    moreover have "?l \<noteq> 0 \<Longrightarrow> x \<notin> span ?l 24" using heap_inv_meta_apart(2) [OF I a lb] x by auto
    ultimately show ?thesis unfolding m' m4_def by (simp add: heap_simps)
  qed
  have ue: "unat (e + (ucast sz + 24)) = unat e + 24 + unat sz"
  proof -
    have "e + (ucast sz + 24) = e + of_nat (24 + unat sz)" by (simp add: add.commute)
    then show ?thesis using unat_add_no_wrap [of e "24 + unat sz"] fits b by (simp only: ac_simps)
  qed
  have "laid_out m' (unat (heap_start h)) bs (unat e)"
    using I a4 e by (subst laid_out_cong [of bs m' m]) (auto simp: heap_inv_def)
  then have lo: "laid_out m' (unat (heap_start h)) (bs @ [e]) (unat (heap_end h'))"
    using e4 ue by (simp add: laid_out_append h' METADATA_SIZE_def)
  have nh: "heap_start h' \<noteq> heap_end h'"
  proof -
    have "unat (heap_start h') \<noteq> unat (heap_end h')" using ue e b(1) by (simp add: h')
    then show ?thesis by metis
  qed
  show "\<exists>ls'. heap_inv h' m' (bs @ [e]) ls' \<and> e \<in> set ls'"
  proof (cases "ls = []")
    case True
    with I e have "heap_start h = e" by (auto simp: heap_inv_def)
    with lo nh e4 fits b ue h' have "heap_inv h' m' (bs @ [e]) [e]"
      by (simp add: heap_inv_def)
    then show ?thesis by (intro exI [of _ "[e]"]) simp
  next
    case False
    with I have ln: "linked m (heap_start h) ls" and l: "?l \<in> set ls" and sub: "set ls \<subseteq> set bs"
      and dl: "distinct ls" by (auto simp: heap_inv_def)
    obtain us vs where ls: "ls = us @ ?l # vs" using l by (metis in_set_conv_decomp)
    have "linked_to m' (heap_start h) us ?l"
      using ln a4(4) sub dl by (subst linked_to_cong [of us m' m]) (auto simp: linked_append ls)
    then have "linked m' (heap_start h) (us @ ?l # [e])"
      using a4(4) e4 l sub x(2) heap_inv_extents(5) [OF I, of ?l] by (auto simp: linked_append)
    moreover have "distinct (us @ ?l # [e])" "set (us @ ?l # [e]) \<subseteq> set (bs @ [e])"
      using dl sub ne ls by (auto simp: ls)
    ultimately have "heap_inv h' m' (bs @ [e]) (us @ ?l # [e])"
      using lo nh fits b ue h' by (simp add: heap_inv_def)
    then show ?thesis by (intro exI [of _ "us @ ?l # [e]"]) simp
  qed
qed

section \<open>The allocator\<close>

text \<open>A free block that is taken, and divided when it is large enough.\<close>

lemma take_slot:
  assumes I: "heap_inv h m bs ls" and p: "p \<in> set ls" "md_available m p \<noteq> 0" "sz \<le> md_size m p"
  defines "m1 \<equiv> set_available p 0 m"
  defines "m' \<equiv> if unat (md_size m1 p) > unat sz + METADATA_SIZE then divide_slot p sz m1 else m1"
  shows "\<exists>bs' ls'. heap_inv h m' bs' ls' \<and> allocated m' bs' = insert p (allocated m bs)
           \<and> sz \<le> md_size m' p \<and> keeps_allocated m bs m' \<and> p \<in> set ls'"
proof -
  from I p have pb: "p \<in> set bs" by (auto simp: heap_inv_def)
  note sm = set_available_meta [OF I pb, where v = 0, folded m1_def]
  have I1: "heap_inv h m1 bs ls" unfolding m1_def using I pb by (rule set_available_inv)
  have k1: "keeps_allocated m bs m1"
    using sm set_available_data [OF I pb, where v = 0, folded m1_def]
    by (auto simp: keeps_allocated_def allocated_def)
  have al1: "allocated m1 bs = insert p (allocated m bs)"
    using sm(4) pb by (auto simp: allocated_def split: if_splits)
  show ?thesis
  proof (cases "unat (md_size m1 p) > unat sz + METADATA_SIZE")
    case False
    then have "m' = m1" by (simp add: m'_def)
    with I1 k1 al1 pb p sm(1) show ?thesis by (intro exI [of _ bs] exI [of _ ls]) simp
  next
    case True
    then have m': "m' = divide_slot p sz m1" and sz: "unat sz + 24 < unat (md_size m1 p)"
      by (simp_all add: m'_def METADATA_SIZE_def)
    let ?q = "p + 24 + ucast sz"
    from divide_slot_inv [OF I1 p(1) sz] obtain bs' ls'
      where I': "heap_inv h m' bs' ls'" and bs': "set bs' = insert ?q (set bs)" and ls': "set ls \<subseteq> set ls'" by (auto simp: m')
    note d = divide_slot_meta [OF heap_inv_extents(3) [OF I1 pb] sz, folded m']
    note f = divide_slot_frame_meta [OF I1 pb sz, folded m'] divide_slot_frame [OF I1 pb sz, folded m']
    have "a \<in> allocated m bs \<Longrightarrow> a \<noteq> p" for a using p(2) by (auto simp: allocated_def)
    then have "keeps_allocated m bs m'"
      using k1 f data_extent(1) [OF I1] by (fastforce simp: keeps_allocated_def allocated_def data_of_def)
    moreover have "a \<in> allocated m' bs' \<longleftrightarrow> a \<in> allocated m1 bs" for a
      using d(3,7) f(2) bs' pb sm(4) [OF pb] by (cases "a = ?q"; cases "a = p") (auto simp: allocated_def)
    ultimately show ?thesis using I' d(2) al1 ls' p(1) by (intro exI [of _ bs'] exI [of _ ls']) auto
  qed
qed

lemma find_slot_spec:
  assumes I: "heap_inv h m bs ls"
  obtains p where "find_slot h m sz = Some (p, if p = 0 then m else set_available p 0 m)"
    and "p \<noteq> 0 \<longrightarrow> p \<in> set ls \<and> md_available m p \<noteq> 0 \<and> sz \<le> md_size m p"
proof (cases "heap_start h = heap_end h \<or> sint (fst (my_sbrk h 0) - heap_start h) < int (unat sz)")
  case True
  then have "find_slot h m sz = Some (0, m)" by (auto simp: find_slot_def)
  with that [of 0] show thesis by simp
next
  case False
  then have n: "heap_start h \<noteq> heap_end h" "\<not> sint (fst (my_sbrk h 0) - heap_start h) < int (unat sz)" by auto
  with I have "linked m (heap_start h) ls" by (auto simp only: heap_inv_def split: if_splits)
  note l = find_slot_loop_linked [OF this, of sz]
  let ?f = "find (\<lambda>a. md_available m a \<noteq> 0 \<and> sz \<le> md_size m a) ls"
  have f: "find_slot h m sz = Some (case ?f of None \<Rightarrow> 0 | Some a \<Rightarrow> a,
      if (case ?f of None \<Rightarrow> 0 | Some a \<Rightarrow> a) = 0 then m else set_available (case ?f of None \<Rightarrow> 0 | Some a \<Rightarrow> a) 0 m)"
    by (simp only: find_slot_def l n if_False option.case)
  show thesis
  proof (cases ?f)
    case None
    with f that [of 0] show thesis by simp
  next
    case (Some a)
    with f that [of a] find_Some_props [OF Some] show thesis by simp
  qed
qed

text \<open>What a request for \<open>sz\<close> bytes does to a well-formed heap.\<close>

lemma get_slot_total:
  assumes I: "heap_inv h m bs ls"
  obtains (fail) "get_slot h m sz = Some (0, h, m)"
  | (ok) p h' m' bs' ls' where "get_slot h m sz = Some (p, h', m')" "p \<noteq> 0"
      "heap_inv h' m' bs' ls'" "allocated m' bs' = insert p (allocated m bs)" "p \<notin> allocated m bs"
      "sz \<le> md_size m' p" "keeps_allocated m bs m'" "p \<in> set ls'"
proof -
  note b = heap_inv_bounds [OF I]
  have ext: thesis if "get_slot h m sz = Some (extend h m sz)"
  proof (cases "extend h m sz")
    case (fields e h' m')
    show thesis
    proof (cases "e = 0")
      case True
      with extend_cases [OF I, of sz] b(5) fields have "extend h m sz = (0, h, m)" by (auto split: if_splits)
      with that fail show thesis by simp
    next
      case False
      note x = extend_inv [OF I fields False]
      obtain ls' where I': "heap_inv h' m' (bs @ [e]) ls'" "e \<in> set ls'" using x(2) by blast
      have "e \<notin> set bs" using x(1) heap_inv_extents(2) [OF I] by fastforce
      moreover have "keeps_allocated m bs m'"
        using x(5,6) by (auto simp: keeps_allocated_def allocated_def)
      moreover have "allocated m' (bs @ [e]) = insert e (allocated m bs)"
        using x(3,5) by (auto simp: allocated_def)
      ultimately show thesis
        using ok [of e h' m' "bs @ [e]" ls'] that fields False I' x(3,4) by (auto simp: allocated_def)
    qed
  qed
  obtain p where pm: "find_slot h m sz = Some (p, if p = 0 then m else set_available p 0 m)"
    and p: "p \<noteq> 0 \<longrightarrow> p \<in> set ls \<and> md_available m p \<noteq> 0 \<and> sz \<le> md_size m p"
    by (rule find_slot_spec [OF I, of sz])
  show thesis
  proof (cases "p = 0")
    case True
    with pm b(4) have "get_slot h m sz = Some (extend h m sz)" by (simp add: get_slot_def)
    then show thesis by (rule ext)
  next
    case False
    define m1 where "m1 = set_available p 0 m"
    define m' where "m' = (if unat (md_size m1 p) > unat sz + METADATA_SIZE then divide_slot p sz m1 else m1)"
    from take_slot [OF I, of p sz] p [rule_format, OF False] obtain bs' ls' where
      "heap_inv h m' bs' ls'" "allocated m' bs' = insert p (allocated m bs)" "sz \<le> md_size m' p"
      "keeps_allocated m bs m'" "p \<in> set ls'"
      unfolding m'_def m1_def by blast
    moreover have "p \<notin> allocated m bs" using p [rule_format, OF False] by (simp add: allocated_def)
    moreover have "get_slot h m sz = Some (p, h, m')"
      using pm False b(4) by (simp add: get_slot_def m'_def m1_def)
    ultimately show thesis using ok False by blast
  qed
qed

section \<open>Writing and releasing\<close>

lemma data_write:
  assumes I: "heap_inv h m bs ls" and a: "a \<in> set bs" and w: "\<And>x. x \<notin> data_of m a \<Longrightarrow> m' x = m x"
  shows "heap_inv h m' bs ls" "allocated m' bs = allocated m bs"
    "b \<in> set bs \<Longrightarrow> md_size m' b = md_size m b \<and> md_available m' b = md_available m b \<and> md_magic m' b = md_magic m b"
    "b \<in> set bs \<Longrightarrow> b \<noteq> a \<Longrightarrow> x \<in> data_of m b \<Longrightarrow> m' x = m x"
proof -
  have meta: "m x = m' x" if "b \<in> set bs" "x \<in> span b 24" for b x
  proof -
    have "x \<notin> data_of m a" using heap_inv_meta_apart(2) [OF I a that(1)] that(2) by blast
    then show ?thesis using w by simp
  qed
  have g: "md_size m' b = md_size m b" "md_available m' b = md_available m b" "md_next m' b = md_next m b"
    "md_magic m' b = md_magic m b" if "b \<in> set bs" for b
    using meta [OF that] by (auto intro!: getter_cong [symmetric])
  then show "heap_inv h m' bs ls" using I by (auto intro: heap_inv_cong)
  show "allocated m' bs = allocated m bs" using g by (auto simp: allocated_def)
  show "b \<in> set bs \<Longrightarrow> md_size m' b = md_size m b \<and> md_available m' b = md_available m b \<and> md_magic m' b = md_magic m b"
    using g by simp
  show "m' x = m x" if "b \<in> set bs" "b \<noteq> a" "x \<in> data_of m b"
    using heap_inv_apart [OF I that(1) a that(2)] data_extent(1) [OF I a] data_extent(1) [OF I that(1)] that(3) w
    by blast
qed

lemma free_ptr:
  assumes I: "heap_inv h m bs ls" and a: "a \<in> set bs" and s: "md_size m a \<noteq> 0"
  shows "plugin_free h m (a + 24) = set_available a 1 m"
proof -
  note e = heap_inv_extents [OF I a] and b = heap_inv_bounds [OF I]
  have "my_sbrk h 0 = (heap_end h, h)" using my_sbrk_cases [OF b(1-3), of 0] b by simp
  moreover have "unat (a + 24) = unat a + 24" "unat (heap_start h + 24) = unat (heap_start h) + 24"
    using unat_add_no_wrap [of a 24] unat_add_no_wrap [of "heap_start h" 24] e b by simp_all
  moreover from s have "0 < unat (md_size m a)" by (simp add: unat_gt_0)
  ultimately show ?thesis
    using e b by (simp add: plugin_free_def get_metadata_def METADATA_SIZE_def word_le_nat_alt word_less_nat_alt)
qed

lemma free_allocated:
  assumes I: "heap_inv h m bs ls" and a: "a \<in> set bs" and s: "md_size m a \<noteq> 0"
  defines "m' \<equiv> plugin_free h m (a + 24)"
  shows "heap_inv h m' bs ls" "allocated m' bs = allocated m bs - {a}" "keeps_allocated m bs m'"
proof -
  have m': "m' = set_available a 1 m" unfolding m'_def using I a s by (rule free_ptr)
  show "heap_inv h m' bs ls" unfolding m' using I a by (rule set_available_inv)
  show "allocated m' bs = allocated m bs - {a}" unfolding m'
    using set_available_meta(4) [OF I a] a by (auto simp: allocated_def split: if_splits)
  show "keeps_allocated m bs m'" unfolding m'
    using set_available_meta(1) [OF I a] set_available_data [OF I a] by (auto simp: keeps_allocated_def allocated_def)
qed

text \<open>A pointer outside the heap is ignored.\<close>

lemma free_outside:
  assumes I: "heap_inv h m bs ls" and p: "ptr < heap_start h + 24 \<or> heap_end h \<le> ptr"
  shows "plugin_free h m ptr = m"
proof -
  note b = heap_inv_bounds [OF I]
  have "my_sbrk h 0 = (heap_end h, h)" using my_sbrk_cases [OF b(1-3), of 0] b by simp
  with p show ?thesis by (auto simp: plugin_free_def METADATA_SIZE_def)
qed

lemma plugin_malloc_total:
  assumes I: "heap_inv h m bs ls"
  obtains (fail) "plugin_malloc h m sz = Some (0, h, m)"
  | (ok) a h' m' bs' ls' where "plugin_malloc h m sz = Some (a + 24, h', m')" "a + 24 \<noteq> 0"
      "heap_inv h' m' bs' ls'" "allocated m' bs' = insert a (allocated m bs)" "a \<notin> allocated m bs"
      "align_size sz \<le> md_size m' a" "keeps_allocated m bs m'"
proof (rule get_slot_total [OF I, of "align_size sz"])
  assume "get_slot h m (align_size sz) = Some (0, h, m)"
  with fail show thesis by (simp add: plugin_malloc_def)
next
  fix p h' m' bs' ls'
  assume g: "get_slot h m (align_size sz) = Some (p, h', m')" "p \<noteq> 0" and I': "heap_inv h' m' bs' ls'"
    and al: "allocated m' bs' = insert p (allocated m bs)"
    and r: "p \<notin> allocated m bs" "align_size sz \<le> md_size m' p" "keeps_allocated m bs m'"
  from al have "p \<in> set bs'" by (auto simp: allocated_def)
  with I' have "p + 24 \<noteq> 0" by (rule block_data_nonzero)
  with g I' al r ok [of p h' m' bs' ls'] show thesis by (simp add: plugin_malloc_def METADATA_SIZE_def)
qed

lemma align_size_ge:
  assumes "sz \<le> 4294967292"
  shows "sz \<le> align_size sz" "unat (align_size sz) mod 4 = 0"
proof -
  have r: "unat (sz mod 4) = unat sz mod 4" by (simp add: unat_mod)
  have s: "unat sz \<le> 4294967292" using assms by (simp add: word_le_nat_alt)
  have "sz \<le> align_size sz \<and> unat (align_size sz) mod 4 = 0"
  proof (cases "sz mod 4 = 0")
    case True
    with r show ?thesis by (simp add: align_size_def ALIGNMENT_FACTOR_def)
  next
    case False
    with r have nz: "unat sz mod 4 \<noteq> 0" by (metis unat_eq_0)
    have "unat sz mod 4 < 4" by simp
    moreover have d: "unat sz = 4 * (unat sz div 4) + unat sz mod 4" by simp
    ultimately have u4: "unat sz < 4294967292" using nz s by presburger
    then have "unat (sz + 4) = unat sz + 4" by (simp add: unat_word_ariths)
    then have "unat (sz + 4 - sz mod 4) = unat sz + 4 - unat sz mod 4"
      using r by (simp add: unat_sub word_le_nat_alt)
    with False have "unat (align_size sz) = unat sz + 4 - unat sz mod 4"
      by (simp add: align_size_def ALIGNMENT_FACTOR_def)
    moreover have "(unat sz + 4 - unat sz mod 4) mod 4 = 0" "unat sz \<le> unat sz + 4 - unat sz mod 4"
      using d by presburger+
    ultimately show ?thesis by (simp add: word_le_nat_alt)
  qed
  then show "sz \<le> align_size sz" "unat (align_size sz) mod 4 = 0" by simp_all
qed

end
