(* ===== verification/Heap_Correct.thy ===== *)
theory Heap_Correct
  imports Heap_Invariant
begin

text \<open>
  What the plugin heap promises to its users: a contract of allocators as a locale, the heap of
  \<^verbatim>\<open>heap_management.c\<close> as an instance of it, and the properties of its operations.
\<close>

section \<open>The heap as seen from outside\<close>

text \<open>\<open>A\<close> is the set of the regions, address and size, that are in use.\<close>

definition heap_rep :: "heap \<times> memory \<Rightarrow> (u64 \<times> nat) set \<Rightarrow> bool" where
  "heap_rep s A \<longleftrightarrow> (\<exists>bs ls. heap_inv (fst s) (snd s) bs ls
     \<and> A = (\<lambda>a. (a + 24, unat (md_size (snd s) a))) ` allocated (snd s) bs)"

definition heap_alloc :: "heap \<times> memory \<Rightarrow> u32 \<Rightarrow> (u64 \<times> heap \<times> memory) option" where
  "heap_alloc s n = plugin_malloc (fst s) (snd s) n"

definition heap_release :: "heap \<times> memory \<Rightarrow> u64 \<Rightarrow> heap \<times> memory" where
  "heap_release s p = (fst s, plugin_free (fst s) (snd s) p)"

definition heap_write :: "heap \<times> memory \<Rightarrow> u64 \<Rightarrow> u8 \<Rightarrow> heap \<times> memory" where
  "heap_write s x v = (fst s, (snd s)(x := v))"

text \<open>A heap no block of which has been requested yet.\<close>

definition demo_heap :: heap where
  "demo_heap = \<lparr>heap_start = 4096, heap_end = 4096, heap_last_block = 0\<rparr>"

text \<open>A heap with one block of 100 bytes that is in use, as a first request leaves it.\<close>

definition demo_heap1 :: heap where
  "demo_heap1 = \<lparr>heap_start = 4096, heap_end = 4220, heap_last_block = 4096\<rparr>"

definition demo_memory1 :: memory where
  "demo_memory1 = set_magic 4096 MAGIC_NUMBER (set_next 4096 0 (set_available 4096 0 (set_size 4096 100 (\<lambda>_. 0))))"

section \<open>The contract of an allocator\<close>

locale region_allocator =
  fixes rep :: "'s \<Rightarrow> (u64 \<times> nat) set \<Rightarrow> bool"
    and bytes :: "'s \<Rightarrow> memory"
    and alloc :: "'s \<Rightarrow> u32 \<Rightarrow> (u64 \<times> 's) option"
    and release :: "'s \<Rightarrow> u64 \<Rightarrow> 's"
    and put :: "'s \<Rightarrow> u64 \<Rightarrow> u8 \<Rightarrow> 's"
  assumes rep_disjoint: "rep s A \<Longrightarrow> (p, n) \<in> A \<Longrightarrow> (q, k) \<in> A \<Longrightarrow> (p, n) \<noteq> (q, k) \<Longrightarrow> span p n \<inter> span q k = {}"
    and alloc_total: "rep s A \<Longrightarrow> \<exists>p s'. alloc s sz = Some (p, s')"
    and alloc_none: "rep s A \<Longrightarrow> alloc s sz = Some (0, s') \<Longrightarrow> s' = s"
    and alloc_some: "rep s A \<Longrightarrow> alloc s sz = Some (p, s') \<Longrightarrow> p \<noteq> 0 \<Longrightarrow> sz \<le> 4294967292 \<Longrightarrow>
          \<exists>n. unat sz \<le> n \<and> (p, n) \<notin> A \<and> rep s' (insert (p, n) A)"
    and alloc_bytes: "rep s A \<Longrightarrow> alloc s sz = Some (p, s') \<Longrightarrow> (q, k) \<in> A \<Longrightarrow> x \<in> span q k \<Longrightarrow> bytes s' x = bytes s x"
    and release_rep: "rep s A \<Longrightarrow> (p, n) \<in> A \<Longrightarrow> 0 < n \<Longrightarrow> rep (release s p) (A - {(p, n)})"
    and release_bytes: "rep s A \<Longrightarrow> (p, n) \<in> A \<Longrightarrow> 0 < n \<Longrightarrow> (q, k) \<in> A \<Longrightarrow> x \<in> span q k \<Longrightarrow> bytes (release s p) x = bytes s x"
    and put_rep: "rep s A \<Longrightarrow> (p, n) \<in> A \<Longrightarrow> x \<in> span p n \<Longrightarrow> rep (put s x v) A"
    and put_bytes: "bytes (put s x v) y = (if y = x then v else bytes s y)"
begin

text \<open>A new region overlaps no region that is in use.\<close>

lemma alloc_fresh:
  assumes "rep s A" "alloc s sz = Some (p, s')" "p \<noteq> 0" "sz \<le> 4294967292"
  shows "\<exists>n. unat sz \<le> n \<and> rep s' (insert (p, n) A) \<and> (\<forall>(q, k) \<in> A. span p n \<inter> span q k = {})"
proof -
  from alloc_some [OF assms] obtain n where n: "unat sz \<le> n" "(p, n) \<notin> A" "rep s' (insert (p, n) A)" by blast
  have "span p n \<inter> span q k = {}" if "(q, k) \<in> A" for q k
    using rep_disjoint [OF n(3), of p n q k] n(2) that by auto
  with n show ?thesis by blast
qed

text \<open>What was written to a region is still there after another request and a release.\<close>

lemma data_survives:
  assumes "rep s A" "(q, k) \<in> A" "x \<in> span q k" "alloc (put s x v) sz = Some (p, s')" "p \<noteq> 0" "0 < sz" "sz \<le> 4294967292"
  shows "bytes (release s' p) x = v"
proof -
  have r: "rep (put s x v) A" using assms(1-3) by (rule put_rep)
  from alloc_some [OF r assms(4,5,7)] obtain n where n: "unat sz \<le> n" "rep s' (insert (p, n) A)" by blast
  from assms(6) n(1) have "0 < n" by (metis gr_zeroI le_zero_eq unat_eq_0 word_not_simps(1))
  then have "bytes (release s' p) x = bytes s' x" using release_bytes [OF n(2), of p n q k x] assms(2,3) by simp
  also have "\<dots> = bytes (put s x v) x" using alloc_bytes [OF r assms(4,2,3)] .
  finally show ?thesis by (simp add: put_bytes)
qed

end

section \<open>The plugin heap keeps the contract\<close>

lemma heap_rep_regionE:
  assumes "heap_rep s A" "(p, n) \<in> A"
  obtains bs ls a where "heap_inv (fst s) (snd s) bs ls" "A = (\<lambda>a. (a + 24, unat (md_size (snd s) a))) ` allocated (snd s) bs"
    "a \<in> allocated (snd s) bs" "a \<in> set bs" "p = a + 24" "n = unat (md_size (snd s) a)" "span p n = data_of (snd s) a"
  using assms by (auto simp: heap_rep_def allocated_def data_of_def METADATA_SIZE_def)

lemma heap_rep_malloc:
  assumes I: "heap_inv h m bs ls" and x: "plugin_malloc h m sz = Some (p, h', m')"
  shows "keeps_allocated m bs m'"
    and "p = 0 \<Longrightarrow> h' = h \<and> m' = m"
    and "p \<noteq> 0 \<Longrightarrow> sz \<le> 4294967292 \<Longrightarrow> \<exists>a bs' ls'. p = a + 24 \<and> heap_inv h' m' bs' ls' \<and> a \<notin> allocated m bs
        \<and> allocated m' bs' = insert a (allocated m bs) \<and> sz \<le> md_size m' a"
proof -
  have "keeps_allocated m bs m' \<and> (p = 0 \<longrightarrow> h' = h \<and> m' = m) \<and> (p \<noteq> 0 \<longrightarrow> sz \<le> 4294967292 \<longrightarrow>
      (\<exists>a bs' ls'. p = a + 24 \<and> heap_inv h' m' bs' ls' \<and> a \<notin> allocated m bs
        \<and> allocated m' bs' = insert a (allocated m bs) \<and> sz \<le> md_size m' a))"
  proof (rule plugin_malloc_total [OF I, of sz])
    assume "plugin_malloc h m sz = Some (0, h, m)"
    with x show ?thesis by (auto simp: keeps_allocated_def)
  next
    fix a h'' m'' bs' ls'
    assume *: "plugin_malloc h m sz = Some (a + 24, h'', m'')" "a + 24 \<noteq> 0" "heap_inv h'' m'' bs' ls'"
      "allocated m'' bs' = insert a (allocated m bs)" "a \<notin> allocated m bs"
      "align_size sz \<le> md_size m'' a" "keeps_allocated m bs m''"
    with x have e: "p = a + 24" "h'' = h'" "m'' = m'" by auto
    have "sz \<le> 4294967292 \<longrightarrow> sz \<le> md_size m'' a"
      using align_size_ge(1) [of sz] *(6) by (auto intro: order_trans)
    with *(2-5,7) e(1) show ?thesis unfolding e(2,3) [symmetric]
      by (intro conjI impI exI [of _ a] exI [of _ bs'] exI [of _ ls']) auto
  qed
  then show "keeps_allocated m bs m'" "p = 0 \<Longrightarrow> h' = h \<and> m' = m"
    "p \<noteq> 0 \<Longrightarrow> sz \<le> 4294967292 \<Longrightarrow> \<exists>a bs' ls'. p = a + 24 \<and> heap_inv h' m' bs' ls' \<and> a \<notin> allocated m bs
        \<and> allocated m' bs' = insert a (allocated m bs) \<and> sz \<le> md_size m' a" by auto
qed

lemma heap_regions_disjoint:
  fixes s :: "heap \<times> memory"
  assumes "heap_rep s A" "(p, n) \<in> A" "(q, k) \<in> A" "(p, n) \<noteq> (q, k)"
  shows "span p n \<inter> span q k = {}"
proof -
  from assms obtain bs ls a b where I: "heap_inv (fst s) (snd s) bs ls" and ab: "a \<in> set bs" "b \<in> set bs" "a \<noteq> b"
    and d: "span p n = data_of (snd s) a" "span q k = data_of (snd s) b"
    by (elim heap_rep_regionE) (auto simp: allocated_def data_of_def METADATA_SIZE_def)
  with heap_inv_apart [OF I ab] data_extent(1) [OF I ab(1)] data_extent(1) [OF I ab(2)]
  show ?thesis by blast
qed

lemma heap_alloc_total:
  fixes s :: "heap \<times> memory"
  assumes "heap_rep s A"
  shows "\<exists>p s'. heap_alloc s sz = Some (p, s')"
proof -
  from assms obtain bs ls where I: "heap_inv (fst s) (snd s) bs ls" by (auto simp: heap_rep_def)
  show ?thesis
    by (rule plugin_malloc_total [OF I, of sz]) (auto simp: heap_alloc_def)
qed

lemma heap_alloc_none:
  fixes s s' :: "heap \<times> memory"
  assumes "heap_rep s A" and x: "heap_alloc s sz = Some (0, s')"
  shows "s' = s"
proof -
  from assms obtain bs ls where I: "heap_inv (fst s) (snd s) bs ls" by (auto simp: heap_rep_def)
  from x have "plugin_malloc (fst s) (snd s) sz = Some (0, fst s', snd s')" by (simp add: heap_alloc_def)
  from heap_rep_malloc(2) [OF I this] show ?thesis by (simp add: prod_eq_iff)
qed

lemma heap_alloc_some:
  fixes s s' :: "heap \<times> memory"
  assumes r: "heap_rep s A" and x: "heap_alloc s sz = Some (p, s')" "p \<noteq> 0" "sz \<le> 4294967292"
  shows "\<exists>n. unat sz \<le> n \<and> (p, n) \<notin> A \<and> heap_rep s' (insert (p, n) A)"
proof -
  from assms obtain bs ls where I: "heap_inv (fst s) (snd s) bs ls"
    and A: "A = (\<lambda>a. (a + 24, unat (md_size (snd s) a))) ` allocated (snd s) bs" by (auto simp: heap_rep_def)
  from x have m: "plugin_malloc (fst s) (snd s) sz = Some (p, fst s', snd s')" by (simp add: heap_alloc_def)
  from heap_rep_malloc(3) [OF I m x(2,3)] obtain a bs' ls' where p: "p = a + 24"
    and I': "heap_inv (fst s') (snd s') bs' ls'" and al: "allocated (snd s') bs' = insert a (allocated (snd s) bs)"
    and na: "a \<notin> allocated (snd s) bs" and sz: "sz \<le> md_size (snd s') a" by blast
  have "md_size (snd s') b = md_size (snd s) b" if "b \<in> allocated (snd s) bs" for b
    using heap_rep_malloc(1) [OF I m] that by (simp add: keeps_allocated_def)
  then have "insert (p, unat (md_size (snd s') a)) A = (\<lambda>a. (a + 24, unat (md_size (snd s') a))) ` allocated (snd s') bs'"
    unfolding al A p by simp
  then have "heap_rep s' (insert (p, unat (md_size (snd s') a)) A)" using I' by (auto simp: heap_rep_def)
  moreover have "(p, unat (md_size (snd s') a)) \<notin> A" using na by (auto simp: A p)
  moreover have "unat sz \<le> unat (md_size (snd s') a)" using sz by (simp add: word_le_nat_alt)
  ultimately show ?thesis by blast
qed

lemma heap_alloc_bytes:
  fixes s s' :: "heap \<times> memory"
  assumes r: "heap_rep s A" and m: "heap_alloc s sz = Some (p, s')" and qk: "(q, k) \<in> A" "x \<in> span q k"
  shows "snd s' x = snd s x"
proof -
  from r qk(1) obtain bs ls a where I: "heap_inv (fst s) (snd s) bs ls" and a: "a \<in> allocated (snd s) bs"
    "span q k = data_of (snd s) a" by (rule heap_rep_regionE)
  from m have "plugin_malloc (fst s) (snd s) sz = Some (p, fst s', snd s')" by (simp add: heap_alloc_def)
  from heap_rep_malloc(1) [OF I this] a qk(2) show ?thesis by (auto simp: keeps_allocated_def)
qed

lemma heap_release_rep:
  fixes s :: "heap \<times> memory"
  assumes r: "heap_rep s A" and pn: "(p, n) \<in> A" "0 < n"
  shows "heap_rep (heap_release s p) (A - {(p, n)})"
proof -
  from r pn(1) obtain bs ls a where I: "heap_inv (fst s) (snd s) bs ls"
    and A: "A = (\<lambda>a. (a + 24, unat (md_size (snd s) a))) ` allocated (snd s) bs"
    and a: "a \<in> allocated (snd s) bs" "a \<in> set bs" "p = a + 24" "n = unat (md_size (snd s) a)"
    by (rule heap_rep_regionE)
  from pn(2) a(4) have "md_size (snd s) a \<noteq> 0" by auto
  note f = free_allocated [OF I a(2) this, folded a(3)]
  let ?m = "plugin_free (fst s) (snd s) p"
  have "md_size ?m b = md_size (snd s) b" if "b \<in> allocated (snd s) bs" for b
    using f(3) that by (simp add: keeps_allocated_def)
  then have "A - {(p, n)} = (\<lambda>a. (a + 24, unat (md_size ?m a))) ` allocated ?m bs"
    unfolding f(2) A using a by auto
  with f(1) show ?thesis by (auto simp: heap_rep_def heap_release_def)
qed

lemma heap_release_bytes:
  fixes s :: "heap \<times> memory"
  assumes r: "heap_rep s A" and pn: "(p, n) \<in> A" "0 < n" and qk: "(q, k) \<in> A" "x \<in> span q k"
  shows "snd (heap_release s p) x = snd s x"
proof -
  from r pn(1) obtain bs ls a where I: "heap_inv (fst s) (snd s) bs ls"
    and A: "A = (\<lambda>a. (a + 24, unat (md_size (snd s) a))) ` allocated (snd s) bs"
    and a: "a \<in> set bs" "p = a + 24" "n = unat (md_size (snd s) a)" by (rule heap_rep_regionE)
  from pn(2) a(3) have "md_size (snd s) a \<noteq> 0" by auto
  note f = free_allocated(3) [OF I a(1) this, folded a(2)]
  from qk(1) obtain b where b: "b \<in> allocated (snd s) bs" "q = b + 24" "k = unat (md_size (snd s) b)" by (auto simp: A)
  with f qk(2) show ?thesis
    by (auto simp: keeps_allocated_def heap_release_def data_of_def METADATA_SIZE_def)
qed

lemma heap_put_rep:
  fixes s :: "heap \<times> memory"
  assumes r: "heap_rep s A" and pn: "(p, n) \<in> A" "x \<in> span p n"
  shows "heap_rep (heap_write s x v) A"
proof -
  from r pn(1) obtain bs ls a where I: "heap_inv (fst s) (snd s) bs ls"
    and A: "A = (\<lambda>a. (a + 24, unat (md_size (snd s) a))) ` allocated (snd s) bs"
    and a: "a \<in> set bs" "span p n = data_of (snd s) a" by (rule heap_rep_regionE)
  define m' where "m' = (snd s)(x := v)"
  have "m' y = snd s y" if "y \<notin> data_of (snd s) a" for y using that a(2) pn(2) by (auto simp: m'_def)
  note w = data_write [OF I a(1) this]
  have "A = (\<lambda>a. (a + 24, unat (md_size m' a))) ` allocated m' bs"
    unfolding A w(2) using w(3) by (intro image_cong) (auto simp: allocated_def)
  moreover have "heap_inv (fst s) m' bs ls" by (rule w(1))
  ultimately show ?thesis by (auto simp: heap_rep_def heap_write_def m'_def)
qed

lemma heap_put_bytes:
  fixes s :: "heap \<times> memory"
  shows "snd (heap_write s x v) y = (if y = x then v else snd s y)"
  by (simp add: heap_write_def)

lemmas heap_laws = heap_regions_disjoint heap_alloc_total heap_alloc_none heap_alloc_some
  heap_alloc_bytes heap_release_rep heap_release_bytes heap_put_rep heap_put_bytes

interpretation plugin_heap: region_allocator heap_rep snd heap_alloc heap_release heap_write
  by unfold_locales (fact heap_laws)+

section \<open>Growing a block\<close>

lemma realloc_unfold:
  assumes I: "heap_inv h m bs ls" and a: "a \<in> set bs" and sz: "md_size m a < sz"
  shows "plugin_realloc h m (a + 24) sz =
    (case plugin_malloc h m sz of
       None \<Rightarrow> None
     | Some (p, h1, m1) \<Rightarrow>
         if p = 0 then Some (0, h1, plugin_free h1 m1 (a + 24))
         else Some (p, h1, plugin_free h1
                (store_bytes m1 p (load_bytes m1 (a + 24) (unat (md_size m a)))) (a + 24)))"
proof -
  note e = heap_inv_extents [OF I a] and b = heap_inv_bounds [OF I]
  have u: "unat (a + 24) = unat a + 24" "unat (heap_start h + 24) = unat (heap_start h) + 24"
    using unat_add_no_wrap [of a 24] unat_add_no_wrap [of "heap_start h" 24] e b by simp_all
  then have "a + 24 \<noteq> 0" by auto
  moreover have "\<not> a + 24 < heap_start h + 24" using u e by (simp add: word_less_nat_alt)
  ultimately show ?thesis
    using e(4) sz
    by (auto simp: plugin_realloc_def get_metadata_def METADATA_SIZE_def Let_def split: option.splits)
qed

lemma realloc_grow:
  assumes I: "heap_inv h m bs ls" and a: "a \<in> allocated m bs" and nz: "md_size m a \<noteq> 0"
    and sz: "md_size m a < sz" "sz \<le> 4294967292"
    and r: "plugin_realloc h m (a + 24) sz = Some (p, h', m')" "p \<noteq> 0"
  shows "\<exists>b bs' ls'. p = b + 24 \<and> heap_inv h' m' bs' ls' \<and> sz \<le> md_size m' b
    \<and> allocated m' bs' = insert b (allocated m bs - {a})
    \<and> load_bytes m' p (unat (md_size m a)) = load_bytes m (a + 24) (unat (md_size m a))"
proof -
  let ?n = "unat (md_size m a)"
  from a have ab: "a \<in> set bs" by (simp add: allocated_def)
  have n: "?n < 18446744073709551616" by (rule less_trans [OF unat_lt32]) simp
  from r realloc_unfold [OF I ab sz(1)] obtain m1 where al: "plugin_malloc h m sz = Some (p, h', m1)"
    and m': "m' = plugin_free h' (store_bytes m1 p (load_bytes m1 (a + 24) ?n)) (a + 24)"
    by (auto split: option.splits if_splits)
  from heap_rep_malloc(1) [OF I al] have k: "keeps_allocated m bs m1" .
  from heap_rep_malloc(3) [OF I al r(2) sz(2)] obtain b bs' ls' where p: "p = b + 24"
    and I1: "heap_inv h' m1 bs' ls'" and nb: "b \<notin> allocated m bs"
    and al1: "allocated m1 bs' = insert b (allocated m bs)" and szb: "sz \<le> md_size m1 b" by blast
  from al1 a have bb: "b \<in> set bs'" "a \<in> set bs'" by (auto simp: allocated_def)
  have sa: "md_size m1 a = md_size m a" using k a by (simp add: keeps_allocated_def)
  let ?bytes = "load_bytes m1 (a + 24) ?n"
  define m2 where "m2 = store_bytes m1 p ?bytes"
  have sub: "span p ?n \<subseteq> data_of m1 b"
    using sz(1) szb by (auto simp: p data_of_def METADATA_SIZE_def word_less_nat_alt word_le_nat_alt intro: span_shorter [THEN subsetD, rotated])
  then have "m2 x = m1 x" if "x \<notin> data_of m1 b" for x
    using that unfolding m2_def by (intro store_bytes_outside) auto
  note w = data_write [OF I1 bb(1) this]
  have s2: "md_size m2 a = md_size m a" "md_size m2 b = md_size m1 b" using w(3) bb sa by simp_all
  with nz have nz2: "md_size m2 a \<noteq> 0" by simp
  note f = free_allocated [OF w(1) bb(2) nz2]
  have m'2: "m' = plugin_free h' m2 (a + 24)" by (simp add: m' m2_def)
  have b2: "b \<in> allocated m2 bs'" using w(2) al1 by simp
  with f(3) have k2: "md_size m' b = md_size m2 b" "\<forall>x \<in> data_of m2 b. m' x = m2 x"
    by (simp_all add: keeps_allocated_def m'2)
  have "load_bytes m' p ?n = load_bytes m2 p ?n"
    using k2(2) sub s2 n by (intro load_bytes_cong) (auto simp: data_of_def)
  also have "\<dots> = ?bytes" unfolding m2_def using n by (intro load_store_same) simp_all
  also have "\<dots> = load_bytes m (a + 24) ?n"
    using k a n by (intro load_bytes_cong) (auto simp: keeps_allocated_def data_of_def METADATA_SIZE_def)
  finally have "load_bytes m' p ?n = load_bytes m (a + 24) ?n" .
  moreover have "allocated m' bs' = insert b (allocated m bs - {a})"
    using f(2) w(2) al1 nb a by (auto simp: m'2)
  ultimately show ?thesis using p f(1) k2(1) s2(2) szb by (auto simp: m'2)
qed

lemma demo_heap_rep: "heap_rep (demo_heap, \<lambda>_. 0) {}"
proof -
  have "heap_inv demo_heap (\<lambda>_. 0) [] []" by (simp add: heap_inv_def demo_heap_def)
  then show ?thesis unfolding heap_rep_def by (intro exI [of _ "[]"]) (auto simp: allocated_def)
qed

text \<open>A request is served when the buffer has room for a new block.\<close>

lemma get_slot_room:
  assumes I: "heap_inv h m bs ls" and f: "unat (heap_end h) + 24 + unat sz \<le> unat (heap_start h) + 64000"
  shows "\<exists>p h' m'. get_slot h m sz = Some (p, h', m') \<and> p \<noteq> 0"
proof -
  note b = heap_inv_bounds [OF I]
  obtain p where p: "find_slot h m sz = Some (p, if p = 0 then m else set_available p 0 m)"
    by (rule find_slot_spec [OF I, of sz])
  show ?thesis
  proof (cases "p = 0")
    case True
    with p b(4) have "get_slot h m sz = Some (extend h m sz)" by (simp add: get_slot_def)
    with extend_cases [OF I, of sz] f b(5) show ?thesis by simp
  next
    case False
    with p b(4) show ?thesis by (simp add: get_slot_def)
  qed
qed

lemma malloc_room:
  assumes rep: "heap_rep (h, m) A"
    and f: "unat (heap_end h) + 24 + unat (align_size sz) \<le> unat (heap_start h) + 64000"
  shows "\<exists>p h' m'. plugin_malloc h m sz = Some (p, h', m') \<and> p \<noteq> 0"
proof -
  from rep obtain bs ls where I: "heap_inv h m bs ls" by (auto simp: heap_rep_def)
  from get_slot_room [OF I f] obtain p h' m' where g: "get_slot h m (align_size sz) = Some (p, h', m')" "p \<noteq> 0"
    by blast
  show ?thesis
  proof (rule get_slot_total [OF I, of "align_size sz"])
    assume "get_slot h m (align_size sz) = Some (0, h, m)"
    with g show ?thesis by simp
  next
    fix a h1 m1 bs' ls'
    assume "get_slot h m (align_size sz) = Some (a, h1, m1)" "a \<noteq> 0" "heap_inv h1 m1 bs' ls'"
      "allocated m1 bs' = insert a (allocated m bs)"
    with block_data_nonzero [of h1 m1 bs' ls' a] show ?thesis
      by (auto simp: plugin_malloc_def METADATA_SIZE_def allocated_def)
  qed
qed

lemma demo1_meta:
  "md_size demo_memory1 4096 = 100" "md_available demo_memory1 4096 = 0" "md_next demo_memory1 4096 = 0"
  "md_magic demo_memory1 4096 = MAGIC_NUMBER"
  by (simp_all add: demo_memory1_def heap_simps)

lemma demo1_rep: "heap_rep (demo_heap1, demo_memory1) {(4120, 100)}"
proof -
  have "heap_inv demo_heap1 demo_memory1 [4096] [4096]"
    by (simp add: heap_inv_def demo_heap1_def demo1_meta METADATA_SIZE_def)
  moreover have "{(4120, 100)} =
      (\<lambda>a. (a + 24, unat (md_size demo_memory1 a))) ` allocated demo_memory1 [4096]"
    by (auto simp: allocated_def demo1_meta)
  ultimately show ?thesis by (auto simp: heap_rep_def)
qed

section \<open>Properties\<close>



text \<open>
  C14. \<^verbatim>\<open>plugin_malloc\<close> always returns: the search for a free block ends on a well-formed heap. It returns
  NULL only when the buffer has no room for a new block, and then it has changed nothing.
\<close>

theorem malloc_returns:
  assumes "heap_rep (h, m) A"
  shows "\<exists>p h' m'. plugin_malloc h m sz = Some (p, h', m') \<and>
    (p = 0 \<longrightarrow> h' = h \<and> m' = m
       \<and> unat (heap_start h) + 64000 < unat (heap_end h) + 24 + unat (align_size sz))"
proof -
  from plugin_heap.alloc_total [OF assms, of sz] obtain p s' where a: "heap_alloc (h, m) sz = Some (p, s')" by blast
  then have "plugin_malloc h m sz = Some (p, fst s', snd s')" by (simp add: heap_alloc_def)
  moreover have "s' = (h, m)" if "p = 0" using plugin_heap.alloc_none [OF assms, of sz s'] a that by simp
  ultimately show ?thesis using malloc_room [OF assms, of sz] by fastforce
qed

theorem malloc_returns_witness: "\<exists>r. plugin_malloc demo_heap (\<lambda>_. 0) 65000 = Some r"
  using malloc_returns [OF demo_heap_rep, of 65000] by blast

text \<open>
  C15. \<^verbatim>\<open>plugin_free\<close> of a region in use that is not empty gives it back and only it; the other regions
  keep their bytes.
\<close>

theorem free_region:
  assumes "heap_rep (h, m) A" "(p, n) \<in> A" "0 < n"
  shows "heap_rep (h, plugin_free h m p) (A - {(p, n)})
    \<and> (\<forall>(q, k) \<in> A. \<forall>x \<in> span q k. plugin_free h m p x = m x)"
proof
  show "heap_rep (h, plugin_free h m p) (A - {(p, n)})"
    using plugin_heap.release_rep [OF assms] by (simp add: heap_release_def)
  show "\<forall>(q, k) \<in> A. \<forall>x \<in> span q k. plugin_free h m p x = m x"
    using plugin_heap.release_bytes [OF assms] by (auto simp: heap_release_def)
qed

theorem free_region_witness:
  "heap_rep (demo_heap1, plugin_free demo_heap1 demo_memory1 4120) {}"
  using free_region [OF demo1_rep, of 4120 100] by simp





lemma malloc_with_id_slot:
  assumes I: "heap_inv h m bs ls" and r: "plugin_malloc_with_id h m ident sz = Some (p, h', m')" "p \<noteq> 0"
  obtains a m1 bs' ls' where "heap_inv h' m1 bs' ls'" "a \<in> allocated m1 bs'" "a \<in> set ls'"
    "m' = set_id a ident m1"
proof (rule get_slot_total [OF I, of "align_size sz"])
  assume "get_slot h m (align_size sz) = Some (0, h, m)"
  with r show thesis by (simp add: plugin_malloc_with_id_def)
next
  fix a h1 m1 bs' ls'
  assume "get_slot h m (align_size sz) = Some (a, h1, m1)" "a \<noteq> 0" "heap_inv h1 m1 bs' ls'"
    "allocated m1 bs' = insert a (allocated m bs)" "a \<in> set ls'"
  with r that [of m1 bs' ls' a] show thesis by (simp add: plugin_malloc_with_id_def)
qed

text \<open>
  C18. After a successful \<^verbatim>\<open>plugin_malloc_with_id\<close> the lookup of the identifier ends and returns the data
  of a block that is in use and carries it.
\<close>

theorem malloc_with_id_found:
  assumes "heap_rep (h, m) A" "plugin_malloc_with_id h m ident sz = Some (p, h', m')" "p \<noteq> 0"
  shows "\<exists>q. plugin_get_memory_with_id h' m' ident = Some (q + 24)
    \<and> md_available m' q = 0 \<and> md_id m' q = ident \<and> md_magic m' q = MAGIC_NUMBER"
proof -
  from assms(1) obtain bs ls where I: "heap_inv h m bs ls" by (auto simp: heap_rep_def)
  obtain a m1 bs' ls' where I': "heap_inv h' m1 bs' ls'" and a: "a \<in> allocated m1 bs'" "a \<in> set ls'"
    and m': "m' = set_id a ident m1"
    using I assms(2,3) by (rule malloc_with_id_slot)
  from a(1) have ab: "a \<in> set bs'" by (simp add: allocated_def)
  have I2: "heap_inv h' m' bs' ls'" unfolding m' using I' ab by (rule set_id_inv)
  moreover have "ls' \<noteq> []" using a(2) by auto
  ultimately have ln: "linked m' (heap_start h') ls'" and ne: "heap_start h' \<noteq> heap_end h'"
    and sub: "set ls' \<subseteq> set bs'" by (simp_all add: heap_inv_def)
  let ?P = "\<lambda>b. md_available m' b = 0 \<and> md_id m' b = ident"
  have "?P a" using a(1) by (simp add: m' heap_simps allocated_def)
  then have "find ?P ls' \<noteq> None" using a(2) by (auto simp: find_None_iff)
  then obtain q where q: "find ?P ls' = Some q" by blast
  from find_Some_props [OF q] have P: "?P q" and "q \<in> set bs'" using sub by blast+
  then have "md_magic m' q = MAGIC_NUMBER" using heap_inv_extents(4) [OF I2] by blast
  moreover have "plugin_get_memory_with_id h' m' ident = Some (q + 24)"
    using ne by (simp add: plugin_get_memory_with_id_def get_memory_loop_linked [OF ln] q METADATA_SIZE_def)
  ultimately show ?thesis using P by blast
qed

theorem malloc_with_id_found_witness:
  "\<exists>p h' m' q. plugin_malloc_with_id demo_heap (\<lambda>_. 0) 9 50 = Some (p, h', m')
    \<and> plugin_get_memory_with_id h' m' 9 = Some (q + 24) \<and> md_id m' q = 9"
proof -
  have "get_slot demo_heap (\<lambda>_. 0) 52 = Some (extend demo_heap (\<lambda>_. 0) 52)"
    by (simp add: get_slot_def find_slot_def demo_heap_def)
  moreover have "fst (extend demo_heap (\<lambda>_. 0) 52) = 4096" by code_simp
  ultimately obtain p h' m' where r: "plugin_malloc_with_id demo_heap (\<lambda>_. 0) 9 50 = Some (p, h', m')" "p \<noteq> 0"
    by (cases "extend demo_heap (\<lambda>_. 0) 52")
      (auto simp: plugin_malloc_with_id_def align_size_def ALIGNMENT_FACTOR_def METADATA_SIZE_def)
  with malloc_with_id_found [OF demo_heap_rep r] show ?thesis by blast
qed

text \<open>
  A request for more than \<^verbatim>\<open>0xFFFFFFFC\<close> bytes wraps to a request for none when the size is
  aligned, and is served.
\<close>

lemma malloc_size_wraps:
  assumes "4294967292 < sz"
  shows "plugin_malloc h m sz = plugin_malloc h m 0"
proof -
  have "sz \<in> {4294967293, 4294967294, 4294967295}"
  proof -
    have "unat sz < 4294967296" by (rule unat_lt32)
    moreover have "4294967292 < unat sz" using assms by (simp add: word_less_nat_alt)
    ultimately have "unat sz = 4294967293 \<or> unat sz = 4294967294 \<or> unat sz = 4294967295" by presburger
    then show ?thesis by (auto simp flip: word_unat_eq_iff) (auto simp: word_unat_eq_iff)
  qed
  moreover have "align_size 4294967293 = 0" "align_size 4294967294 = 0" "align_size 4294967295 = 0"
    "align_size 0 = 0" by code_simp+
  ultimately have "align_size sz = align_size 0" by auto
  then show ?thesis by (simp add: plugin_malloc_def)
qed


end
