(* ===== verification/Memcpy.thy ===== *)
theory Memcpy
  imports Memory
begin

text \<open>
  The copying and filling routines offered to plugins, \<^verbatim>\<open>src/ubpf/tools/my_memcpy.c\<close>: both work a
  machine word at a time where the operands allow it, and are shown to do what a byte-wise
  definition says, for overlapping operands too.
\<close>

section \<open>\<^verbatim>\<open>plugin_memcpy\<close>\<close>

text \<open>\<^verbatim>\<open>typedef int word\<close>\<close>

definition wsize :: nat where "wsize = 4"
definition wmask :: u64 where "wmask = of_nat wsize - 1"

text \<open>
  The bodies of the loops, \<open>n\<close> bytes at a time: forward, with the pointers incremented after the
  copy, and backward, with the pointers decremented before it.
\<close>

fun loop_up :: "nat \<Rightarrow> nat \<Rightarrow> u64 \<times> u64 \<times> memory \<Rightarrow> u64 \<times> u64 \<times> memory" where
  "loop_up n 0 s = s"
| "loop_up n (Suc t) (dst, src, m) =
     loop_up n t (dst + of_nat n, src + of_nat n, store_bytes m dst (load_bytes m src n))"

fun loop_down :: "nat \<Rightarrow> nat \<Rightarrow> u64 \<times> u64 \<times> memory \<Rightarrow> u64 \<times> u64 \<times> memory" where
  "loop_down n 0 s = s"
| "loop_down n (Suc t) (dst, src, m) =
     loop_down n t (dst - of_nat n, src - of_nat n,
       store_bytes m (dst - of_nat n) (load_bytes m (src - of_nat n) n))"

text \<open>The number of turns of \<^verbatim>\<open>TLOOP1\<close>, a \<^verbatim>\<open>do ... while (--t)\<close>: it wraps when \<open>t\<close> is 0.\<close>

definition turns1 :: "u64 \<Rightarrow> nat" where
  "turns1 t = (if t = 0 then 18446744073709551616 else unat t)"

definition align_up :: "u64 \<Rightarrow> u64 \<Rightarrow> u64 \<Rightarrow> u64" where
  "align_up dst src len =
     (if (src XOR dst) AND wmask \<noteq> 0 \<or> len < of_nat wsize then len
      else of_nat wsize - (src AND wmask))"

definition align_down :: "u64 \<Rightarrow> u64 \<Rightarrow> u64 \<Rightarrow> u64" where
  "align_down dst src len =
     (if (src XOR dst) AND wmask \<noteq> 0 \<or> len \<le> of_nat wsize then len else src AND wmask)"

definition copy_forward :: "u64 \<Rightarrow> u64 \<Rightarrow> u64 \<Rightarrow> memory \<Rightarrow> memory" where
  "copy_forward dst src len m =
     (let t = align_up dst src len;
          (len1, s1) = (if (src OR dst) AND wmask \<noteq> 0
                        then (len - t, loop_up 1 (turns1 t) (dst, src, m))
                        else (len, (dst, src, m)));
          s2 = loop_up wsize (unat (len1 div of_nat wsize)) s1
      in snd (snd (loop_up 1 (unat (len1 AND wmask)) s2)))"

definition copy_backward :: "u64 \<Rightarrow> u64 \<Rightarrow> u64 \<Rightarrow> memory \<Rightarrow> memory" where
  "copy_backward dst0 src0 len m =
     (let src = src0 + len; dst = dst0 + len;
          t = align_down dst src len;
          (len1, s1) = (if (src OR dst) AND wmask \<noteq> 0
                        then (len - t, loop_down 1 (turns1 t) (dst, src, m))
                        else (len, (dst, src, m)));
          s2 = loop_down wsize (unat (len1 div of_nat wsize)) s1
      in snd (snd (loop_down 1 (unat (len1 AND wmask)) s2)))"

definition plugin_memcpy :: "memory \<Rightarrow> u64 \<Rightarrow> u64 \<Rightarrow> u64 \<Rightarrow> u64 \<times> memory" where
  "plugin_memcpy m dst0 src0 len =
     (if len = 0 \<or> dst0 = src0 then (dst0, m)
      else if dst0 < src0 then (dst0, copy_forward dst0 src0 len m)
      else (dst0, copy_backward dst0 src0 len m))"

section \<open>\<^verbatim>\<open>plugin_memset\<close>\<close>

text \<open>The word made of four copies of the byte.\<close>

definition spread_byte :: "u32 \<Rightarrow> u32" where
  "spread_byte c =
     (let wc = c AND 0xFF in wc OR (push_bit 8 wc OR push_bit 16 wc OR push_bit 24 wc))"

fun fill_words :: "nat \<Rightarrow> u64 \<Rightarrow> u32 \<Rightarrow> memory \<Rightarrow> memory" where
  "fill_words 0 ws wc m = m"
| "fill_words (Suc k) ws wc m = fill_words k (ws + 4) wc (store_le m ws 4 (unat wc))"

definition plugin_memset :: "memory \<Rightarrow> u64 \<Rightarrow> u32 \<Rightarrow> u64 \<Rightarrow> u64 \<times> memory" where
  "plugin_memset m dest c n =
     (let b = ucast c :: u8;
          m1 = m(dest + (n - 1) := b, dest := b);
          m2 = m1(dest + (n - 2) := b, dest + 1 := b, dest + (n - 3) := b, dest + 2 := b);
          m3 = m2(dest + (n - 4) := b, dest + 3 := b);
          k = (- dest) AND 3;
          words = ((n - k) AND (- 4)) div 4
      in if n = 0 then (dest, m)
         else if n \<le> 2 then (dest, m1)
         else if n \<le> 6 then (dest, m2)
         else if n \<le> 8 then (dest, m3)
         else (dest, fill_words (unat words) (dest + k) (spread_byte c) m3))"

section \<open>Reference definitions\<close>

definition moved :: "memory \<Rightarrow> u64 \<Rightarrow> u64 \<Rightarrow> nat \<Rightarrow> memory" where
  "moved m dst src n = store_bytes m dst (load_bytes m src n)"

definition filled :: "memory \<Rightarrow> u64 \<Rightarrow> nat \<Rightarrow> u8 \<Rightarrow> memory" where
  "filled m a n b = store_bytes m a (replicate n b)"

section \<open>The loops of the copy\<close>

lemma moved_up:
  assumes "unat dst \<le> unat src" "unat src + (n + k) < 18446744073709551616"
  shows "moved (moved m dst src n) (dst + of_nat n) (src + of_nat n) k = moved m dst src (n + k)"
proof -
  have u: "unat (src + of_nat n) = unat src + n" "unat (dst + of_nat n) = unat dst + n"
    using assms by (simp_all add: unat_add_no_wrap)
  have "span dst n \<inter> span (src + of_nat n) k = {}" using assms u by (intro span_apart) linarith+
  then have "load_bytes (moved m dst src n) (src + of_nat n) k = load_bytes m (src + of_nat n) k"
    unfolding moved_def using assms(2) by (intro load_store_disjoint) auto
  then show ?thesis
    using store_bytes_append [of "load_bytes m src n" "load_bytes m (src + of_nat n) k" m dst] assms(2)
    by (simp add: moved_def load_bytes_append)
qed

lemma moved_down:
  assumes "unat src \<le> unat dst" "unat dst + (n + k) < 18446744073709551616"
  shows "moved (moved m (dst + of_nat n) (src + of_nat n) k) dst src n = moved m dst src (n + k)"
proof -
  have u: "unat (src + of_nat n) = unat src + n" "unat (dst + of_nat n) = unat dst + n"
    using assms by (simp_all add: unat_add_no_wrap)
  have "span src n \<inter> span (dst + of_nat n) k = {}" using assms u by (intro span_apart) linarith+
  then have "load_bytes (moved m (dst + of_nat n) (src + of_nat n) k) src n = load_bytes m src n"
    unfolding moved_def using assms(2) by (intro load_store_disjoint) auto
  then show ?thesis
    using store_bytes_prepend [of "load_bytes m src n" "load_bytes m (src + of_nat n) k" "dst + of_nat n" dst m] assms(2)
    by (simp add: moved_def load_bytes_append)
qed

lemma loop_up_moved:
  "unat dst \<le> unat src \<Longrightarrow> unat src + n * t < 18446744073709551616 \<Longrightarrow>
   loop_up n t (dst, src, m) = (dst + of_nat (n * t), src + of_nat (n * t), moved m dst src (n * t))"
proof (induction t arbitrary: dst src m)
  case 0
  then show ?case by (simp add: moved_def load_bytes_def)
next
  case (Suc t)
  have u: "unat (src + of_nat n) = unat src + n" "unat (dst + of_nat n) = unat dst + n"
    using Suc.prems by (simp_all add: unat_add_no_wrap)
  have "loop_up n (Suc t) (dst, src, m) = loop_up n t (dst + of_nat n, src + of_nat n, moved m dst src n)"
    by (simp add: moved_def)
  also have "\<dots> = (dst + of_nat n + of_nat (n * t), src + of_nat n + of_nat (n * t),
      moved (moved m dst src n) (dst + of_nat n) (src + of_nat n) (n * t))"
    using Suc.prems u by (intro Suc.IH) simp_all
  also have "moved (moved m dst src n) (dst + of_nat n) (src + of_nat n) (n * t) = moved m dst src (n + n * t)"
    using Suc.prems by (intro moved_up) simp_all
  finally show ?case by (simp add: add.assoc)
qed

lemma loop_down_moved:
  "unat src \<le> unat dst \<Longrightarrow> unat dst + n * t < 18446744073709551616 \<Longrightarrow>
   loop_down n t (dst + of_nat (n * t), src + of_nat (n * t), m) = (dst, src, moved m dst src (n * t))"
proof (induction t arbitrary: m)
  case 0
  then show ?case by (simp add: moved_def load_bytes_def)
next
  case (Suc t)
  let ?k = "n * t"
  have "loop_down n (Suc t) (dst + of_nat (n * Suc t), src + of_nat (n * Suc t), m) =
      loop_down n t (dst + of_nat ?k, src + of_nat ?k, moved m (dst + of_nat ?k) (src + of_nat ?k) n)"
    by (simp add: moved_def algebra_simps)
  also have "\<dots> = (dst, src, moved (moved m (dst + of_nat ?k) (src + of_nat ?k) n) dst src ?k)"
    using Suc.prems by (intro Suc.IH) simp_all
  also have "moved (moved m (dst + of_nat ?k) (src + of_nat ?k) n) dst src ?k = moved m dst src (?k + n)"
    using Suc.prems by (intro moved_down) (simp_all add: add.commute)
  finally show ?case by (simp add: add.commute)
qed

lemma unat_and_3: "unat (x AND 3 :: u64) = unat x mod 4"
proof -
  have "x AND 3 = take_bit 2 x" by (simp add: take_bit_eq_mask mask_eq_exp_minus_1)
  then show ?thesis by (simp only: unsigned_take_bit_eq) (simp add: take_bit_eq_mod)
qed

lemma three_loops_up:
  assumes "unat dst \<le> unat src" "unat src + (a + 4 * b + c) < 18446744073709551616"
  shows "snd (snd (loop_up 1 c (loop_up 4 b (loop_up 1 a (dst, src, m))))) = moved m dst src (a + 4 * b + c)"
proof -
  have u: "unat (src + of_nat a) = unat src + a" "unat (dst + of_nat a) = unat dst + a"
    "unat (src + of_nat (a + 4 * b)) = unat src + (a + 4 * b)" "unat (dst + of_nat (a + 4 * b)) = unat dst + (a + 4 * b)"
    using assms by (simp_all add: unat_add_no_wrap del: of_nat_add of_nat_mult)
  have 1: "loop_up 1 a (dst, src, m) = (dst + of_nat a, src + of_nat a, moved m dst src a)"
    using assms loop_up_moved [of dst src 1 a m] by simp
  have "loop_up 4 b (dst + of_nat a, src + of_nat a, moved m dst src a) =
      (dst + of_nat (a + 4 * b), src + of_nat (a + 4 * b), moved (moved m dst src a) (dst + of_nat a) (src + of_nat a) (4 * b))"
    using assms u by (subst loop_up_moved) (simp_all add: add.assoc)
  also have "moved (moved m dst src a) (dst + of_nat a) (src + of_nat a) (4 * b) = moved m dst src (a + 4 * b)"
    using assms by (intro moved_up) simp_all
  finally have 2: "loop_up 4 b (loop_up 1 a (dst, src, m)) =
      (dst + of_nat (a + 4 * b), src + of_nat (a + 4 * b), moved m dst src (a + 4 * b))" by (simp only: 1)
  have "snd (snd (loop_up 1 c (dst + of_nat (a + 4 * b), src + of_nat (a + 4 * b), moved m dst src (a + 4 * b)))) =
      moved (moved m dst src (a + 4 * b)) (dst + of_nat (a + 4 * b)) (src + of_nat (a + 4 * b)) c"
    using assms u by (subst loop_up_moved) (simp_all del: of_nat_add of_nat_mult)
  also have "\<dots> = moved m dst src (a + 4 * b + c)" using assms by (intro moved_up) simp_all
  finally show ?thesis by (simp only: 2)
qed

lemma three_loops_down:
  assumes "unat src \<le> unat dst" "unat dst + (c + 4 * b + a) < 18446744073709551616"
  shows "snd (snd (loop_down 1 c (loop_down 4 b (loop_down 1 a
      (dst + of_nat (c + 4 * b + a), src + of_nat (c + 4 * b + a), m))))) = moved m dst src (c + 4 * b + a)"
proof -
  let ?k = "c + 4 * b"
  have u: "unat (src + of_nat c) = unat src + c" "unat (dst + of_nat c) = unat dst + c"
    "unat (src + of_nat ?k) = unat src + ?k" "unat (dst + of_nat ?k) = unat dst + ?k"
    using assms by (simp_all add: unat_add_no_wrap del: of_nat_add of_nat_mult)
  have 1: "loop_down 1 a (dst + of_nat (?k + a), src + of_nat (?k + a), m) =
      (dst + of_nat ?k, src + of_nat ?k, moved m (dst + of_nat ?k) (src + of_nat ?k) a)"
    using assms u loop_down_moved [of "src + of_nat ?k" "dst + of_nat ?k" 1 a m] by (simp add: add.assoc)
  have "loop_down 4 b (dst + of_nat ?k, src + of_nat ?k, moved m (dst + of_nat ?k) (src + of_nat ?k) a) =
      (dst + of_nat c, src + of_nat c,
       moved (moved m (dst + of_nat ?k) (src + of_nat ?k) a) (dst + of_nat c) (src + of_nat c) (4 * b))"
    using assms u loop_down_moved [of "src + of_nat c" "dst + of_nat c" 4 b] by (simp add: add.assoc)
  also have "moved (moved m (dst + of_nat ?k) (src + of_nat ?k) a) (dst + of_nat c) (src + of_nat c) (4 * b) =
      moved m (dst + of_nat c) (src + of_nat c) (4 * b + a)"
    using assms u moved_down [of "src + of_nat c" "dst + of_nat c" "4 * b" a m] by (simp add: add.assoc)
  finally have 2: "loop_down 4 b (loop_down 1 a (dst + of_nat (?k + a), src + of_nat (?k + a), m)) =
      (dst + of_nat c, src + of_nat c, moved m (dst + of_nat c) (src + of_nat c) (4 * b + a))" by (simp only: 1)
  have "snd (snd (loop_down 1 c (dst + of_nat c, src + of_nat c, moved m (dst + of_nat c) (src + of_nat c) (4 * b + a)))) =
      moved (moved m (dst + of_nat c) (src + of_nat c) (4 * b + a)) dst src c"
    using assms loop_down_moved [of src dst 1 c] by simp
  also have "\<dots> = moved m dst src (?k + a)"
    using assms moved_down [of src dst c "4 * b + a" m] by (simp add: add.assoc)
  finally show ?thesis by (simp only: 2)
qed

lemma words_and_rest: "4 * unat (len div 4 :: u64) + unat (len AND 3) = unat len"
  by (simp add: unat_and_3 unat_div)

lemma align_up_bounds:
  assumes "(src OR dst) AND 3 \<noteq> 0" "len \<noteq> 0"
  shows "turns1 (align_up dst src len) = unat (align_up dst src len)" "align_up dst src len \<le> len"
proof -
  have "align_up dst src len \<noteq> 0 \<and> align_up dst src len \<le> len"
  proof (cases "(src XOR dst) AND 3 \<noteq> 0 \<or> len < 4")
    case True
    with assms show ?thesis by (simp add: align_up_def wmask_def wsize_def)
  next
    case False
    have u: "unat (src AND 3) < 4" by (simp add: unat_and_3)
    then have "unat (4 - (src AND 3)) = 4 - unat (src AND 3)" by (simp add: unat_sub word_le_nat_alt)
    with u have "unat (4 - (src AND 3)) \<noteq> 0" "unat (4 - (src AND 3)) \<le> 4" by linarith+
    with False show ?thesis by (auto simp: align_up_def wmask_def wsize_def word_le_nat_alt word_less_nat_alt)
  qed
  then show "turns1 (align_up dst src len) = unat (align_up dst src len)" "align_up dst src len \<le> len"
    by (simp_all add: turns1_def)
qed

lemma align_down_bounds:
  assumes "(src OR dst) AND 3 \<noteq> 0" "len \<noteq> 0"
  shows "turns1 (align_down dst src len) = unat (align_down dst src len)" "align_down dst src len \<le> len"
proof -
  have "align_down dst src len \<noteq> 0 \<and> align_down dst src len \<le> len"
  proof (cases "(src XOR dst) AND 3 \<noteq> 0 \<or> len \<le> 4")
    case True
    with assms show ?thesis by (simp add: align_down_def wmask_def wsize_def)
  next
    case False
    have "src AND 3 \<noteq> 0"
    proof
      assume s: "src AND 3 = 0"
      with False have "dst AND 3 = 0" by (simp add: bit.conj_xor_distrib2)
      with s assms(1) show False by (simp add: bit.conj_disj_distrib2)
    qed
    moreover have "unat (src AND 3) < 4" by (simp add: unat_and_3)
    ultimately show ?thesis
      using False by (auto simp: align_down_def wmask_def wsize_def word_le_nat_alt)
  qed
  then show "turns1 (align_down dst src len) = unat (align_down dst src len)" "align_down dst src len \<le> len"
    by (simp_all add: turns1_def)
qed

lemma copy_forward_moved:
  assumes "dst < src" "unat src + unat len < 18446744073709551616" "len \<noteq> 0"
  shows "copy_forward dst src len m = moved m dst src (unat len)"
proof -
  have d: "unat dst \<le> unat src" using assms(1) by (simp add: word_less_nat_alt)
  define a where "a = (if (src OR dst) AND 3 \<noteq> 0 then align_up dst src len else 0)"
  have al: "a \<le> len" using align_up_bounds [of src dst len] assms(3) by (auto simp: a_def)
  let ?b = "unat ((len - a) div 4)" and ?c = "unat ((len - a) AND 3)"
  have "copy_forward dst src len m = snd (snd (loop_up 1 ?c (loop_up 4 ?b (loop_up 1 (unat a) (dst, src, m)))))"
    using align_up_bounds [of src dst len] assms(3)
    by (simp add: copy_forward_def a_def wmask_def wsize_def Let_def)
  moreover have "unat a + 4 * ?b + ?c = unat len"
    using words_and_rest [of "len - a"] al by (simp add: unat_sub word_le_nat_alt)
  ultimately show ?thesis using three_loops_up [OF d, of "unat a" ?b ?c m] assms(2) by simp
qed

lemma copy_backward_moved:
  assumes "src \<le> dst" "unat dst + unat len < 18446744073709551616" "len \<noteq> 0"
  shows "copy_backward dst src len m = moved m dst src (unat len)"
proof -
  have d: "unat src \<le> unat dst" using assms(1) by (simp add: word_le_nat_alt)
  let ?S = "src + len" and ?D = "dst + len"
  define a where "a = (if (?S OR ?D) AND 3 \<noteq> 0 then align_down ?D ?S len else 0)"
  have al: "a \<le> len" using align_down_bounds [of ?S ?D len] assms(3) by (auto simp: a_def)
  let ?b = "unat ((len - a) div 4)" and ?c = "unat ((len - a) AND 3)"
  have "copy_backward dst src len m = snd (snd (loop_down 1 ?c (loop_down 4 ?b (loop_down 1 (unat a) (?D, ?S, m)))))"
    using align_down_bounds [of ?S ?D len] assms(3)
    by (simp add: copy_backward_def a_def wmask_def wsize_def Let_def)
  moreover have e: "?c + 4 * ?b + unat a = unat len"
    using words_and_rest [of "len - a"] al by (simp add: unat_sub word_le_nat_alt)
  moreover have "?D = dst + of_nat (unat len)" "?S = src + of_nat (unat len)" by simp_all
  ultimately show ?thesis using three_loops_down [OF d, of ?c ?b "unat a" m] assms(2) by (simp only: e)
qed

lemma moved_same: "moved m a a n = m"
proof
  fix x
  show "moved m a a n x = m x"
    by (cases "unat (x - a) < n") (simp_all add: moved_def store_bytes_def load_bytes_def)
qed

section \<open>The words of the filling\<close>

lemma filled_apply: "filled m a n b x = (if unat (x - a) < n then b else m x)"
  by (simp add: filled_def store_bytes_def)

lemma or_disjoint: "(x::u32) AND y = 0 \<Longrightarrow> x OR y = x + y"
  using word_plus_and_or [of x y] by simp

lemma spread_word:
  assumes "wc = take_bit 8 (wc :: u32)"
  shows "wc OR (push_bit 8 wc OR push_bit 16 wc OR push_bit 24 wc) = wc * 16843009"
proof -
  have b: "bit wc n \<Longrightarrow> n < 8" for n using assms by (metis bit_take_bit_iff)
  have "push_bit 16 wc AND push_bit 24 wc = 0" "push_bit 8 wc AND (push_bit 16 wc OR push_bit 24 wc) = 0"
    "wc AND (push_bit 8 wc OR push_bit 16 wc OR push_bit 24 wc) = 0"
    by (intro bit_eqI; force simp: bit_simps dest: b)+
  then have "wc OR (push_bit 8 wc OR push_bit 16 wc OR push_bit 24 wc) = wc + (push_bit 8 wc + (push_bit 16 wc + push_bit 24 wc))"
    by (simp add: or_disjoint or.assoc)
  then show ?thesis by (simp add: push_bit_eq_mult)
qed

lemma and_255: "c AND 0xFF = take_bit 8 (c :: u32)"
  by (simp only: take_bit_eq_mask) (simp add: mask_eq_exp_minus_1)

lemma spread_byte_unat: "unat (spread_byte c) = unat (ucast c :: u8) * 16843009"
proof -
  have u: "unat (take_bit 8 c) = unat (ucast c :: u8)"
    by (simp add: unsigned_ucast_eq unsigned_take_bit_eq)
  have "spread_byte c = take_bit 8 c * 16843009"
    by (simp only: spread_byte_def and_255 Let_def) (rule spread_word; simp)
  moreover have "unat (take_bit 8 c) * unat (16843009 :: u32) < 2 ^ LENGTH(32)"
    unfolding u using unat_lt8 [of "ucast c"] by (simp del: unat_lt8)
  ultimately show ?thesis by (simp only: unat_mult_lem [THEN iffD1] u) simp
qed

lemma replicate_4: "replicate 4 b = [b, b, b, b]"
  by (simp add: numeral_eq_Suc)

lemma spread_byte_bytes: "le_bytes 4 (unat (spread_byte c)) = replicate 4 (ucast c)"
proof -
  have "le_nat (replicate 4 (ucast c :: u8)) = unat (ucast c :: u8) * 16843009"
    by (simp add: replicate_4)
  then show ?thesis using le_bytes_le_nat [of "replicate 4 (ucast c :: u8)"] by (simp add: spread_byte_unat)
qed

lemma fill_words_filled:
  "4 * k < 18446744073709551616 \<Longrightarrow>
   fill_words k ws (spread_byte c) m = filled m ws (4 * k) (ucast c)"
proof (induction k arbitrary: ws m)
  case (Suc k)
  have "fill_words (Suc k) ws (spread_byte c) m = filled (filled m ws 4 (ucast c)) (ws + of_nat 4) (4 * k) (ucast c)"
    using Suc by (simp add: store_le_def spread_byte_bytes filled_def [symmetric])
  also have "\<dots> = filled m ws (4 * Suc k) (ucast c)"
  proof
    fix x
    have "x \<in> span (ws + of_nat 4) (4 * k) \<longleftrightarrow> 4 \<le> unat (x - ws) \<and> unat (x - ws) < 4 + 4 * k"
      using Suc.prems by (intro in_span_offset) simp
    then show "filled (filled m ws 4 (ucast c)) (ws + of_nat 4) (4 * k) (ucast c) x = filled m ws (4 * Suc k) (ucast c) x"
      unfolding span_def mem_Collect_eq filled_apply by auto
  qed
  finally show ?case .
qed (simp add: filled_def)

lemma unat_and_minus_4: "unat (x AND - 4 :: u64) = unat x - unat x mod 4"
proof -
  have "(x AND - 4) AND (x AND 3) = x AND (- 4 AND 3)" by (simp only: ac_simps and.left_idem)
  moreover have "(x AND - 4) OR (x AND 3) = x AND (- 4 OR 3)" by (simp only: bit.conj_disj_distrib)
  ultimately have "x = (x AND - 4) + (x AND 3)"
    using word_plus_and_or [of "x AND - 4" "x AND 3"] by simp
  then have "x AND - 4 = x - (x AND 3)" by (simp add: algebra_simps)
  moreover have "unat (x - (x AND 3)) = unat x - unat (x AND 3)"
    by (intro unat_sub) (simp add: word_le_nat_alt unat_and_3)
  ultimately show ?thesis by (simp only: unat_and_3)
qed

lemma memset_words:
  fixes n k :: u64
  assumes "8 < n" "k = (- dest) AND 3"
  shows "unat k < 4" "4 * unat (((n - k) AND - 4) div 4) = unat n - unat k - (unat n - unat k) mod 4"
proof -
  show k: "unat k < 4" by (simp add: assms(2) unat_and_3)
  with assms(1) have "unat (n - k) = unat n - unat k"
    by (intro unat_sub) (simp add: word_le_nat_alt word_less_nat_alt)
  then show "4 * unat (((n - k) AND - 4) div 4) = unat n - unat k - (unat n - unat k) mod 4"
    by (simp add: unat_div unat_and_minus_4 minus_mod_eq_mult_div del: diff_diff_left)
qed

lemma memset_ends:
  assumes "i \<le> unat (n :: u64)"
  shows "x = dest + (n - of_nat i) \<longleftrightarrow> unat (x - dest) = unat n - i"
proof -
  have "i < 18446744073709551616" using assms unat_lt64 [of n] by linarith
  then have "unat (n - of_nat i) = unat n - i" using assms by (simp add: unat_sub word_le_nat_alt)
  then show ?thesis by (simp only: at_offset)
qed

lemma ends_cover_6: "2 < n \<Longrightarrow> n \<le> 6 \<Longrightarrow> (d = 2 \<or> d = n - 3 \<or> d = 1 \<or> d = n - 2 \<or> d = 0 \<or> d = n - 1) \<longleftrightarrow> d < (n :: nat)"
proof -
  assume "2 < n" "n \<le> 6"
  then consider "n = 3" | "n = 4" | "n = 5" | "n = 6" by linarith
  then show ?thesis by cases auto
qed

lemma ends_cover_8: "6 < n \<Longrightarrow> n \<le> 8 \<Longrightarrow> (d = 3 \<or> d = n - 4 \<or> d = 2 \<or> d = n - 3 \<or> d = 1 \<or> d = n - 2 \<or> d = 0 \<or> d = n - 1) \<longleftrightarrow> d < (n :: nat)"
proof -
  assume "6 < n" "n \<le> 8"
  then consider "n = 7" | "n = 8" by linarith
  then show ?thesis by cases auto
qed

lemma ends_cover_words:
  assumes "8 < n" "k < 4" "k + w \<le> n" "n < k + w + 4"
  shows "((k \<le> d \<and> d < k + w) \<or> d = 3 \<or> d = n - 4 \<or> d = 2 \<or> d = n - 3 \<or> d = 1 \<or> d = n - 2 \<or> d = 0 \<or> d = n - 1) \<longleftrightarrow> d < (n :: nat)"
proof
  assume "d < n"
  consider "d < k" | "k \<le> d" "d < k + w" | "k + w \<le> d" by linarith
  then show "(k \<le> d \<and> d < k + w) \<or> d = 3 \<or> d = n - 4 \<or> d = 2 \<or> d = n - 3 \<or> d = 1 \<or> d = n - 2 \<or> d = 0 \<or> d = n - 1"
  proof cases
    case 1
    with assms(2) have "d = 0 \<or> d = 1 \<or> d = 2" by linarith
    then show ?thesis by blast
  next
    case 3
    with assms \<open>d < n\<close> have "d = n - 1 \<or> d = n - 2 \<or> d = n - 3" by linarith
    then show ?thesis by blast
  qed blast
qed (use assms in linarith)

lemma if_same: "(if A then b else if B then b else c) = (if A \<or> B then b else c)"
  by simp

lemma memset_end:
  assumes "i \<le> unat (n :: u64)" "i = unat w"
  shows "x = dest + (n - w) \<longleftrightarrow> unat (x - dest) = unat n - i"
  using memset_ends [OF assms(1), of x dest] assms(2) by simp

lemma memset_filled: "snd (plugin_memset m dest c n) = filled m dest (unat n) (ucast c)"
proof
  fix x
  let ?b = "ucast c :: u8" and ?d = "unat (x - dest)" and ?n = "unat n"
  have at: "x = dest \<longleftrightarrow> ?d = 0" "x = dest + 1 \<longleftrightarrow> ?d = 1" "x = dest + 2 \<longleftrightarrow> ?d = 2" "x = dest + 3 \<longleftrightarrow> ?d = 3"
    using at_offset [of x dest 0] by (simp_all add: at_offset)
  have e1: "1 \<le> ?n \<Longrightarrow> x = dest + (n - 1) \<longleftrightarrow> ?d = ?n - 1" by (rule memset_end) simp_all
  have e2: "2 \<le> ?n \<Longrightarrow> x = dest + (n - 2) \<longleftrightarrow> ?d = ?n - 2" by (rule memset_end) simp_all
  have e3: "3 \<le> ?n \<Longrightarrow> x = dest + (n - 3) \<longleftrightarrow> ?d = ?n - 3" by (rule memset_end) simp_all
  have e4: "4 \<le> ?n \<Longrightarrow> x = dest + (n - 4) \<longleftrightarrow> ?d = ?n - 4" by (rule memset_end) simp_all
  have cmp: "n = 0 \<longleftrightarrow> ?n = 0" "n \<le> 2 \<longleftrightarrow> ?n \<le> 2" "n \<le> 6 \<longleftrightarrow> ?n \<le> 6" "n \<le> 8 \<longleftrightarrow> ?n \<le> 8"
    by (simp_all add: word_le_nat_alt unat_eq_0)
  note upd = fun_upd_apply if_same at filled_apply
  let ?m1 = "m(dest + (n - 1) := ?b, dest := ?b)"
  let ?m2 = "?m1(dest + (n - 2) := ?b, dest + 1 := ?b, dest + (n - 3) := ?b, dest + 2 := ?b)"
  let ?m3 = "?m2(dest + (n - 4) := ?b, dest + 3 := ?b)"
  consider "?n = 0" | "0 < ?n" "?n \<le> 2" | "2 < ?n" "?n \<le> 6" | "6 < ?n" "?n \<le> 8" | "8 < ?n" by linarith
  then show "snd (plugin_memset m dest c n) x = filled m dest ?n ?b x"
  proof cases
    case 1
    then show ?thesis by (simp add: plugin_memset_def cmp filled_apply)
  next
    case 2
    then have "snd (plugin_memset m dest c n) = ?m1" by (simp add: plugin_memset_def Let_def cmp)
    moreover have "1 \<le> ?n" using 2 by linarith
    ultimately show ?thesis by (simp only: upd e1) (rule if_cong; use 2 in arith)
  next
    case 3
    then have "snd (plugin_memset m dest c n) = ?m2" by (simp add: plugin_memset_def Let_def cmp)
    moreover have "1 \<le> ?n" "2 \<le> ?n" "3 \<le> ?n" using 3 by linarith+
    ultimately show ?thesis by (simp only: upd e1 e2 e3) (simp only: ends_cover_6 [OF 3])
  next
    case 4
    then have "snd (plugin_memset m dest c n) = ?m3" by (simp add: plugin_memset_def Let_def cmp)
    moreover have "1 \<le> ?n" "2 \<le> ?n" "3 \<le> ?n" "4 \<le> ?n" using 4 by linarith+
    ultimately show ?thesis by (simp only: upd e1 e2 e3 e4) (simp only: ends_cover_8 [OF 4])
  next
    case 5
    define k where "k = (- dest) AND 3"
    let ?w = "unat (((n - k) AND - 4) div 4)"
    have w: "unat k < 4" "4 * ?w = ?n - unat k - (?n - unat k) mod 4"
      using memset_words [of n k dest] 5 k_def by (simp_all add: word_less_nat_alt)
    then have b: "unat k + 4 * ?w \<le> ?n" "?n < unat k + 4 * ?w + 4" "4 * ?w < 18446744073709551616"
      "unat k + 4 * ?w \<le> 18446744073709551616"
      using 5 unat_lt64 [of n] mod_less_divisor [of 4 "?n - unat k"] by linarith+
    have in_words: "unat (x - (dest + k)) < 4 * ?w \<longleftrightarrow> unat k \<le> ?d \<and> ?d < unat k + 4 * ?w"
      using in_span_offset [OF b(4), of x dest] by (simp add: span_def)
    have "snd (plugin_memset m dest c n) = filled ?m3 (dest + k) (4 * ?w) ?b"
      using 5 by (simp add: plugin_memset_def Let_def cmp k_def [symmetric] fill_words_filled [OF b(3)])
    moreover have "1 \<le> ?n" "2 \<le> ?n" "3 \<le> ?n" "4 \<le> ?n" using 5 by linarith+
    ultimately show ?thesis by (simp only: upd e1 e2 e3 e4 in_words) (simp only: disj_assoc ends_cover_words [OF 5 w(1) b(1,2)])
  qed
qed

section \<open>Properties\<close>

text \<open>
  C20. \<^verbatim>\<open>plugin_memcpy\<close> returns its first argument and leaves the memory in which the bytes that were in
  the source before the call are in the destination, and no other byte has changed, whatever the
  alignment of the two regions and also when they overlap, provided neither region runs past the
  end of the address space.
\<close>

theorem plugin_memcpy_moves:
  assumes "unat src + unat len < 18446744073709551616" "unat dst + unat len < 18446744073709551616"
  shows "plugin_memcpy m dst src len = (dst, moved m dst src (unat len))"
  using assms copy_forward_moved [of dst src len m] copy_backward_moved [of src dst len m]
  by (auto simp: plugin_memcpy_def moved_same) (simp_all add: moved_def load_bytes_def)

theorem plugin_memcpy_moves_witness:
  "load_bytes (snd (plugin_memcpy (\<lambda>x. ucast x) 16 13 7)) 16 7 = [13, 14, 15, 16, 17, 18, 19] \<and>
   load_bytes (snd (plugin_memcpy (\<lambda>x. ucast x) 16 21 7)) 16 7 = [21, 22, 23, 24, 25, 26, 27]"
proof -
  have e: "load_bytes (\<lambda>x. ucast x) 13 7 = [13, 14, 15, 16, 17, 18, 19]"
    "load_bytes (\<lambda>x. ucast x) 21 7 = [21, 22, 23, 24, 25, 26, 27]" by code_simp+
  then show ?thesis
    using plugin_memcpy_moves [of 13 7 16 "\<lambda>x. ucast x"] plugin_memcpy_moves [of 21 7 16 "\<lambda>x. ucast x"]
    by (simp add: moved_def load_store_same)
qed

text \<open>
  C21. \<^verbatim>\<open>plugin_memset\<close> returns its first argument and stores the low byte of its second in each of the
  \<open>n\<close> bytes from there on, and in no other, for every \<open>n\<close> and every alignment: the head and the
  tail written byte by byte and the words in between cover the region exactly.
\<close>

theorem plugin_memset_fills: "plugin_memset m dest c n = (dest, filled m dest (unat n) (ucast c))"
proof -
  have "fst (plugin_memset m dest c n) = dest" by (simp add: plugin_memset_def Let_def)
  then show ?thesis using memset_filled by (simp add: prod_eq_iff)
qed

end
