(* ===== verification/Checksum.thy ===== *)
theory Checksum
  imports Memory
begin

text \<open>
  The checksums of \<^verbatim>\<open>src/lib/checksum.c\<close>: the Internet checksum over OSPF packets and the Fletcher
  checksum over LSAs, with the deferred reductions the code uses, compared with the definitions
  they stand for. Memory is read and written at addresses, in the byte order of a little-endian
  host.
\<close>

section \<open>The Internet checksum\<close>

text \<open>
  The loop over 16-bit words and the odd byte after it; \<open>sum\<close> is a \<^verbatim>\<open>long\<close> of 64 bits, which at most
  \<open>2 ^ 31\<close> words cannot exceed.
\<close>

fun add_words :: "nat \<Rightarrow> u8 list \<Rightarrow> nat" where
  "add_words acc (a # b # bs) = add_words (acc + le_nat [a, b]) bs"
| "add_words acc [a] = acc + le_nat [a, 0]"
| "add_words acc [] = acc"

definition fold_carry :: "nat \<Rightarrow> nat" where
  "fold_carry acc =
     (let acc = acc div 65536 + acc mod 65536
      in acc + acc div 65536)"

definition in_cksum :: "memory \<Rightarrow> u64 \<Rightarrow> int \<Rightarrow> u16" where
  "in_cksum m parg nbytes =
     NOT (of_nat (fold_carry (add_words 0 (load_bytes m parg (nat nbytes)))))"

section \<open>The Fletcher checksum\<close>

definition MODX :: nat where "MODX = 4102"
definition FLETCHER_CHECKSUM_VALIDATE :: u16 where "FLETCHER_CHECKSUM_VALIDATE = 0xFFFF"

text \<open>The inner loop, over at most \<open>MODX\<close> bytes; \<open>c0\<close> and \<open>c1\<close> are \<^verbatim>\<open>int\<close>s.\<close>

fun fletcher_bytes :: "int \<times> int \<Rightarrow> u8 list \<Rightarrow> int \<times> int" where
  "fletcher_bytes (c0, c1) [] = (c0, c1)"
| "fletcher_bytes (c0, c1) (b # bs) = fletcher_bytes (c0 + uint b, c1 + (c0 + uint b)) bs"

function fletcher_loop :: "u8 list \<Rightarrow> int \<times> int \<Rightarrow> int \<times> int" where
  "fletcher_loop bs c =
     (if bs = [] then c
      else let (c0, c1) = fletcher_bytes c (take MODX bs)
           in fletcher_loop (drop MODX bs) (c0 mod 255, c1 mod 255))"
  by pat_completeness auto
termination
  by (relation "measure (\<lambda>(bs, c). length bs)") (auto simp: MODX_def)

declare fletcher_loop.simps [simp del]

text \<open>The remainder of C, with the sign of the dividend.\<close>

definition c_rem :: "int \<Rightarrow> int \<Rightarrow> int" where
  "c_rem a b = (if 0 \<le> a then a mod b else - ((- a) mod b))"

text \<open>\<^verbatim>\<open>x\<close> and \<^verbatim>\<open>y\<close>; the product is taken in \<^verbatim>\<open>size_t\<close> and then cast to \<^verbatim>\<open>int\<close>.\<close>

definition fletcher_x :: "u64 \<Rightarrow> u16 \<Rightarrow> int \<Rightarrow> int \<Rightarrow> int" where
  "fletcher_x len off c0 c1 =
     (let x = c_rem (sint (ucast ((len - ucast off - 1) * of_int c0 - of_int c1) :: u32)) 255
      in if x \<le> 0 then x + 255 else x)"

definition fletcher_y :: "int \<Rightarrow> int \<Rightarrow> int" where
  "fletcher_y c0 x = (let y = 510 - c0 - x in if y > 255 then y - 255 else y)"

definition htons :: "u16 \<Rightarrow> u16" where
  "htons v = push_bit 8 v OR drop_bit 8 v"

text \<open>\<open>None\<close> is the failed assertion.\<close>

definition fletcher_checksum :: "memory \<Rightarrow> u64 \<Rightarrow> u64 \<Rightarrow> u16 \<Rightarrow> (u16 \<times> memory) option" where
  "fletcher_checksum m buffer len off =
     (if off \<noteq> FLETCHER_CHECKSUM_VALIDATE \<and> \<not> ucast off < len - 1 then None
      else
        let m1 = (if off \<noteq> FLETCHER_CHECKSUM_VALIDATE then store_le m (buffer + ucast off) 2 0 else m);
            (c0, c1) = fletcher_loop (load_bytes m1 buffer (unat len)) (0, 0);
            x = fletcher_x len off c0 c1;
            y = fletcher_y c0 x
        in if off = FLETCHER_CHECKSUM_VALIDATE then Some (of_int (c1 * 256 + c0), m1)
           else Some (htons (of_int (x * 256) OR of_int (y mod 256)),
                      m1(buffer + ucast off := of_int x, buffer + ucast off + 1 := of_int y)))"

section \<open>Reference definitions\<close>

text \<open>Addition of 16-bit words in one's complement, with the end-around carry at every step.\<close>

definition oc_add :: "nat \<Rightarrow> nat \<Rightarrow> nat" where
  "oc_add a b = (if a + b > 65535 then a + b - 65535 else a + b)"

fun oc_words :: "u8 list \<Rightarrow> nat list" where
  "oc_words (a # b # bs) = le_nat [a, b] # oc_words bs"
| "oc_words [a] = [le_nat [a, 0]]"
| "oc_words [] = []"

definition oc_sum :: "u8 list \<Rightarrow> nat" where
  "oc_sum bs = foldl oc_add 0 (oc_words bs)"

text \<open>The two sums of the Fletcher checksum, before reduction: plain and weighted by position.\<close>

fun byte_sum :: "u8 list \<Rightarrow> int" where
  "byte_sum [] = 0"
| "byte_sum (b # bs) = uint b + byte_sum bs"

fun weighted_sum :: "u8 list \<Rightarrow> int" where
  "weighted_sum [] = 0"
| "weighted_sum (b # bs) = int (length bs + 1) * uint b + weighted_sum bs"

section \<open>Lemmas on the Internet checksum\<close>

text \<open>The representative of \<open>s\<close> modulo 65535 that one's complement keeps: 0 only for 0.\<close>

definition oc_norm :: "nat \<Rightarrow> nat" where
  "oc_norm s = (if s = 0 then 0 else (s - 1) mod 65535 + 1)"

lemma oc_norm_le: "oc_norm s \<le> 65535"
  using mod_less_divisor [of 65535 "s - 1"] by (simp add: oc_norm_def Suc_le_eq)

lemma oc_norm_add: "oc_norm (65535 * h + t) = (if t = 0 \<and> h \<noteq> 0 then 65535 else oc_norm t)"
proof (cases "t = 0")
  case True
  then show ?thesis
  proof (cases h)
    case (Suc k)
    then have "65535 * h - 1 = 65534 + 65535 * k" by simp
    with True Suc show ?thesis by (simp add: oc_norm_def)
  qed (simp add: oc_norm_def)
next
  case False
  then have "65535 * h + t - 1 = (t - 1) + 65535 * h" by linarith
  then have "(65535 * h + t - 1) mod 65535 = (t - 1) mod 65535" by (simp only: mod_mult_self2)
  with False show ?thesis by (simp only: oc_norm_def) simp
qed

lemma oc_norm_small: "t \<le> 65535 \<Longrightarrow> oc_norm t = t"
  by (simp add: oc_norm_def)

lemma fold_carry_norm: 
  assumes "s < 4294967296"
  shows "fold_carry s mod 65536 = oc_norm s"
proof -
  define h l t where "h = s div 65536" and "l = s mod 65536" and "t = h + l"
  have b: "h \<le> 65535" "l \<le> 65535" using assms by (simp_all add: h_def l_def)
  have s: "s = 65535 * h + t" by (simp add: t_def h_def l_def)
  have f: "fold_carry s = t + t div 65536" by (simp add: fold_carry_def t_def h_def l_def Let_def)
  show ?thesis
  proof (cases "t \<le> 65535")
    case True
    then have "fold_carry s mod 65536 = t" by (simp add: f)
    moreover have "h = 0" if "t = 0" using that by (simp add: t_def)
    ultimately show ?thesis using True by (cases "t = 0") (simp_all add: s oc_norm_add oc_norm_small)
  next
    case False
    then have "t div 65536 = 1" using b by (simp add: t_def div_nat_eqI)
    then have "fold_carry s mod 65536 = t - 65535" using False b by (simp add: f mod_if t_def)
    moreover have "oc_norm t = t - 65535"
      using oc_norm_add [of 1 "t - 65535"] oc_norm_small [of "t - 65535"] False b by (simp add: t_def)
    ultimately show ?thesis using False by (simp add: s oc_norm_add)
  qed
qed

lemma oc_norm_oc_add:
  assumes "b \<le> 65535"
  shows "oc_norm (s + b) = oc_add (oc_norm s) b"
proof (cases "s = 0")
  case True
  with assms show ?thesis by (simp add: oc_norm_small oc_add_def)
next
  case False
  define a q where "a = oc_norm s" and "q = (s - 1) div 65535"
  have a: "1 \<le> a" "a \<le> 65535" using False oc_norm_le [of s] by (simp_all add: a_def oc_norm_def)
  have "s - 1 = 65535 * q + (a - 1)" using False by (simp add: a_def oc_norm_def q_def)
  then have s: "s + b = 65535 * q + (a + b)" using False a by linarith
  have "oc_norm (a + b) = oc_add a b"
  proof (cases "a + b \<le> 65535")
    case False
    then show ?thesis
      using oc_norm_add [of 1 "a + b - 65535"] oc_norm_small [of "a + b - 65535"] a assms by (simp add: oc_add_def)
  qed (simp add: oc_norm_small oc_add_def)
  then show ?thesis using a by (simp only: s oc_norm_add a_def [symmetric]) simp
qed

lemma le_nat_2_bound: "le_nat [a, b] \<le> 65535"
proof -
  have "unat a \<le> 255" "unat b \<le> 255" using unat_lt8 [of a] unat_lt8 [of b] by linarith+
  then show ?thesis by simp
qed

lemma add_words_eq: "add_words s bs = s + sum_list (oc_words bs)"
  by (induction s bs rule: add_words.induct) simp_all

lemma oc_words_bound: "sum_list (oc_words bs) \<le> 65535 * ((length bs + 1) div 2)"
proof (induction bs rule: oc_words.induct)
  case (1 a b bs)
  then show ?case using le_nat_2_bound [of a b] by simp
next
  case (2 a)
  then show ?case using le_nat_2_bound [of a 0] by simp
qed simp

lemma oc_norm_sum: "oc_norm (s + sum_list (oc_words bs)) = foldl oc_add (oc_norm s) (oc_words bs)"
proof (induction bs arbitrary: s rule: oc_words.induct)
  case (1 a b bs)
  have "oc_norm (s + sum_list (oc_words (a # b # bs))) = oc_norm ((s + le_nat [a, b]) + sum_list (oc_words bs))"
    by (simp add: add.assoc)
  also have "\<dots> = foldl oc_add (oc_norm (s + le_nat [a, b])) (oc_words bs)" by (rule 1)
  finally show ?case using oc_norm_oc_add [OF le_nat_2_bound] by simp
next
  case (2 a)
  then show ?case using oc_norm_oc_add [OF le_nat_2_bound, of s a 0] by simp
qed simp

lemma unat_not16: "unat (NOT (of_nat s) :: u16) = 65535 - s mod 65536"
proof -
  have "NOT (of_nat s :: u16) = - 1 - of_nat s" by (simp add: not_eq_complement)
  moreover have "unat (- 1 - of_nat s :: u16) = unat (- 1 :: u16) - unat (of_nat s :: u16)"
    by (intro unat_sub) simp
  moreover have "unat (- 1 :: u16) = 65535" by code_simp
  moreover have "unat (of_nat s :: u16) = s mod 65536" by (simp add: unat_of_nat take_bit_eq_mod)
  ultimately show ?thesis by simp
qed

lemma in_cksum_norm:
  assumes "nbytes < 131072"
  shows "unat (in_cksum m parg nbytes) = 65535 - oc_norm (sum_list (oc_words (load_bytes m parg (nat nbytes))))"
proof -
  let ?bs = "load_bytes m parg (nat nbytes)"
  have "sum_list (oc_words ?bs) \<le> 65535 * ((nat nbytes + 1) div 2)" using oc_words_bound [of ?bs] by simp
  also have "\<dots> < 4294967296" using assms by simp
  finally show ?thesis by (simp add: in_cksum_def unat_not16 add_words_eq fold_carry_norm)
qed

section \<open>Lemmas on the Fletcher checksum\<close>

lemma fletcher_bytes_eq:
  "fletcher_bytes (c0, c1) bs = (c0 + byte_sum bs, c1 + int (length bs) * c0 + weighted_sum bs)"
  by (induction bs arbitrary: c0 c1) (simp_all add: algebra_simps)

lemma byte_sum_append: "byte_sum (as @ bs) = byte_sum as + byte_sum bs"
  by (induction as) simp_all

lemma weighted_sum_append:
  "weighted_sum (as @ bs) = weighted_sum as + int (length bs) * byte_sum as + weighted_sum bs"
  by (induction as) (simp_all add: algebra_simps)

lemma byte_sum_nonneg: "0 \<le> byte_sum bs"
  by (induction bs) simp_all

lemma weighted_sum_nonneg: "0 \<le> weighted_sum bs"
  by (induction bs) simp_all

lemma fletcher_loop_eq:
  "fletcher_loop bs (c0 mod 255, c1 mod 255) =
     ((c0 + byte_sum bs) mod 255, (c1 + int (length bs) * c0 + weighted_sum bs) mod 255)"
proof (induction "length bs" arbitrary: bs c0 c1 rule: less_induct)
  case less
  show ?case
  proof (cases "bs = []")
    case True
    then show ?thesis by (simp add: fletcher_loop.simps)
  next
    case False
    let ?t = "take MODX bs" and ?d = "drop MODX bs"
    let ?c0 = "c0 mod 255 + byte_sum ?t" and ?c1 = "c1 mod 255 + int (length ?t) * (c0 mod 255) + weighted_sum ?t"
    have bs: "byte_sum bs = byte_sum ?t + byte_sum ?d"
      "weighted_sum bs = weighted_sum ?t + int (length ?d) * byte_sum ?t + weighted_sum ?d"
      "int (length bs) = int (length ?t) + int (length ?d)"
      using byte_sum_append [of ?t ?d] weighted_sum_append [of ?t ?d] by simp_all
    have "fletcher_loop bs (c0 mod 255, c1 mod 255) = fletcher_loop ?d (?c0 mod 255, ?c1 mod 255)"
      using False by (subst fletcher_loop.simps) (simp only: fletcher_bytes_eq if_False Let_def prod.case)
    also have "\<dots> = ((?c0 + byte_sum ?d) mod 255, (?c1 + int (length ?d) * ?c0 + weighted_sum ?d) mod 255)"
      using False by (intro less) (simp add: MODX_def)
    also have "(?c0 + byte_sum ?d) mod 255 = (c0 + byte_sum bs) mod 255"
      by (simp add: bs mod_simps add.assoc)
    also have "(?c1 + int (length ?d) * ?c0 + weighted_sum ?d) mod 255 =
        (c1 + int (length ?t) * c0 + weighted_sum ?t + int (length ?d) * (c0 + byte_sum ?t) + weighted_sum ?d) mod 255"
      by (intro mod_add_cong mod_mult_cong refl) (simp_all add: mod_simps)
    also have "c1 + int (length ?t) * c0 + weighted_sum ?t + int (length ?d) * (c0 + byte_sum ?t) + weighted_sum ?d =
        c1 + int (length bs) * c0 + weighted_sum bs"
      by (simp only: bs) (simp add: algebra_simps)
    finally show ?thesis .
  qed
qed

lemma fletcher_loop_sums: "fletcher_loop bs (0, 0) = (byte_sum bs mod 255, weighted_sum bs mod 255)"
  using fletcher_loop_eq [of bs 0 0] by simp

lemma byte_sum_update: "i < length bs \<Longrightarrow> byte_sum (bs[i := v]) = byte_sum bs - uint (bs ! i) + uint v"
  by (induction bs arbitrary: i) (auto split: nat.split)

lemma weighted_sum_update:
  "i < length bs \<Longrightarrow> weighted_sum (bs[i := v]) = weighted_sum bs + int (length bs - i) * (uint v - uint (bs ! i))"
  by (induction bs arbitrary: i) (auto split: nat.split simp: algebra_simps)

lemma load_bytes_update:
  assumes "i < n" "n < 18446744073709551616"
  shows "load_bytes (m(a + of_nat i := v)) a n = (load_bytes m a n)[i := v]"
proof (rule nth_equalityI)
  fix j
  assume "j < length (load_bytes (m(a + of_nat i := v)) a n)"
  then have "j < n" by simp
  with assms show "load_bytes (m(a + of_nat i := v)) a n ! j = (load_bytes m a n)[i := v] ! j"
    by (auto simp: load_bytes_def nth_list_update of_nat_u64_inject)
qed simp

lemma c_rem_mod: "c_rem a 255 mod 255 = a mod 255" "- 255 < c_rem a 255" "c_rem a 255 < 255"
proof -
  have "- ((- a) mod 255) mod 255 = a mod 255" by (simp add: mod_minus_eq)
  then show "c_rem a 255 mod 255 = a mod 255" by (simp add: c_rem_def)
  have "0 \<le> a mod 255" "a mod 255 < 255" "0 \<le> (- a) mod 255" "(- a) mod 255 < 255" by simp_all
  then show "- 255 < c_rem a 255" "c_rem a 255 < 255"
    by (cases "0 \<le> a"; simp only: c_rem_def if_True if_False; linarith)+
qed

lemma sint_ucast_of_int:
  assumes "- 2147483648 \<le> v" "v < 2147483648"
  shows "sint (ucast (of_int v :: u64) :: u32) = v"
proof -
  have "(ucast (of_int v :: u64) :: u32) = of_int v"
    by (simp add: unsigned_of_int word_of_int_eq_iff take_bit_take_bit)
  then show ?thesis using assms by (simp add: signed_of_int signed_take_bit_int_eq_self)
qed

lemma fletcher_x_mod:
  assumes "unat off + 1 < unat len" "unat len < 8388608" "0 \<le> c0" "c0 < 255" "0 \<le> c1" "c1 < 255"
  shows "fletcher_x len off c0 c1 mod 255 = (int (unat len - unat off - 1) * c0 - c1) mod 255"
    and "1 \<le> fletcher_x len off c0 c1" "fletcher_x len off c0 c1 \<le> 255"
proof -
  let ?k = "int (unat len - unat off - 1)" 
  let ?v = "?k * c0 - c1"
  have k: "0 \<le> ?k" "?k < 8388608" using assms by linarith+
  have "?k * c0 \<le> ?k * 255" using k assms by (intro mult_left_mono) simp_all
  with k assms have v: "- 2147483648 \<le> ?v" "?v < 2147483648"
    using mult_nonneg_nonneg [of ?k c0] by linarith+
  have "len - ucast off - 1 = of_int ?k"
    using assms(1) by (simp add: of_nat_diff)
  then have "(len - ucast off - 1) * of_int c0 - of_int c1 = of_int ?v" by simp
  then have e: "c_rem (sint (ucast ((len - ucast off - 1) * of_int c0 - of_int c1) :: u32)) 255 = c_rem ?v 255"
    by (simp only: sint_ucast_of_int [OF v])
  have "(c_rem ?v 255 + 255) mod 255 = ?v mod 255" using c_rem_mod(1) [of ?v] by simp
  then show "fletcher_x len off c0 c1 mod 255 = ?v mod 255"
    unfolding fletcher_x_def e Let_def using c_rem_mod(1) [of ?v] by simp
  show "1 \<le> fletcher_x len off c0 c1" "fletcher_x len off c0 c1 \<le> 255"
    unfolding fletcher_x_def e Let_def using c_rem_mod(2,3) [of ?v] by simp_all
qed

lemma fletcher_y_mod:
  assumes "0 \<le> c0" "c0 < 255" "1 \<le> x" "x \<le> 255"
  shows "(c0 + x + fletcher_y c0 x) mod 255 = 0" "1 \<le> fletcher_y c0 x" "fletcher_y c0 x \<le> 255"
  using assms by (auto simp: fletcher_y_def Let_def)

lemma fletcher_validate:
  "fletcher_checksum m buffer len FLETCHER_CHECKSUM_VALIDATE =
     (let bs = load_bytes m buffer (unat len)
      in Some (of_int (weighted_sum bs mod 255 * 256 + byte_sum bs mod 255), m))"
  by (simp add: fletcher_checksum_def fletcher_loop_sums Let_def)

lemma fletcher_balanced:
  fixes x y k :: int
  assumes "x mod 255 = (k * c0 - c1) mod 255" "(c0 + x + y) mod 255 = 0" "c0 = s0 mod 255" "c1 = s1 mod 255"
  shows "(s0 + x + y) mod 255 = 0" "(s1 + (k + 1) * x + k * y) mod 255 = 0"
proof -
  show "(s0 + x + y) mod 255 = 0" 
    using assms(2) by (simp only: assms(3) add.assoc mod_add_left_eq)
  have "(s1 + (k + 1) * x + k * y) mod 255 = (c1 + ((k + 1) * x + k * y)) mod 255"
    by (simp only: assms(4) add.assoc mod_add_left_eq)
  also have "c1 + ((k + 1) * x + k * y) = c1 + x + k * (c0 + x + y) - k * c0" by (simp add: algebra_simps)
  also have "(c1 + x + k * (c0 + x + y) - k * c0) mod 255 = (c1 + (k * c0 - c1) + k * 0 - k * c0) mod 255"
    using assms(1,2) by (intro mod_add_cong mod_diff_cong mod_mult_cong refl) simp_all
  finally show "(s1 + (k + 1) * x + k * y) mod 255 = 0" by simp
qed

lemma fletcher_fill:
  fixes off :: u16 and len :: u64 and bs :: "u8 list"
  defines "c0 \<equiv> byte_sum bs mod 255" and "c1 \<equiv> weighted_sum bs mod 255"
  defines "x \<equiv> fletcher_x len off c0 c1" 
  defines "bs' \<equiv> bs[unat off := of_int x, unat off + 1 := of_int (fletcher_y c0 x)]"
  assumes "unat off + 1 < unat len" "unat len < 8388608" "length bs = unat len"
    and zero: "bs ! unat off = 0" "bs ! (unat off + 1) = 0"
  shows "byte_sum bs' mod 255 = 0" "weighted_sum bs' mod 255 = 0"
proof -
  let ?y = "fletcher_y c0 x" and ?k = "int (unat len - unat off - 1)"
  have c: "0 \<le> c0" "c0 < 255" "0 \<le> c1" "c1 < 255" by (simp_all add: c0_def c1_def)
  note x = fletcher_x_mod [OF assms(5,6) c, folded x_def]
  note y = fletcher_y_mod [OF c(1,2) x(2,3)]
  have u: "uint (of_int x :: u8) = x" "uint (of_int ?y :: u8) = ?y"
    using x y by (simp_all add: uint_word_of_int take_bit_int_eq_self)
  have "byte_sum bs' = byte_sum bs + x + ?y"
    using assms(5,7) zero u by (simp add: bs'_def byte_sum_update)
  moreover have "weighted_sum bs' = weighted_sum bs + (?k + 1) * x + ?k * ?y"
    using assms(5,7) zero u by (simp add: bs'_def weighted_sum_update of_nat_diff algebra_simps)
  ultimately show "byte_sum bs' mod 255 = 0" "weighted_sum bs' mod 255 = 0"
    using fletcher_balanced [OF x(1) y(1) c0_def [THEN meta_eq_to_obj_eq] c1_def [THEN meta_eq_to_obj_eq]] by simp_all
qed

lemma uint8_le: "uint (b :: u8) \<le> 255"
  using uint_lt2p [of b] by simp

lemma byte_sum_le: "byte_sum bs \<le> 255 * int (length bs)"
proof (induction bs)
  case (Cons b bs)
  then show ?case using uint8_le [of b] by simp
qed simp

lemma weighted_sum_le: "2 * weighted_sum bs \<le> 255 * (int (length bs) * (int (length bs) + 1))"
proof (induction bs)
  case (Cons b bs)
  have "int (length bs + 1) * uint b \<le> int (length bs + 1) * 255" by (intro mult_left_mono uint8_le) simp
  with Cons show ?case by (simp add: algebra_simps)
qed simp

lemma fletcher_bytes_bounded:
  assumes "length bs \<le> MODX" "0 \<le> c0" "c0 < 255" "0 \<le> c1" "c1 < 255"
  shows "fst (fletcher_bytes (c0, c1) bs) \<le> 2147483647" "snd (fletcher_bytes (c0, c1) bs) \<le> 2147483647"
proof -
  let ?n = "int (length bs)"
  have n: "0 \<le> ?n" "?n \<le> 4102" using assms(1) by (simp_all add: MODX_def)
  have "?n * (?n + 1) \<le> 4102 * (4102 + 1)" using n by (intro mult_mono) simp_all
  then have "255 * (?n * (?n + 1)) \<le> 255 * (4102 * (4102 + 1))" by (rule mult_left_mono) simp
  then have "2 * weighted_sum bs \<le> 255 * (4102 * (4102 + 1))" by (rule order_trans [OF weighted_sum_le])
  moreover have "?n * c0 \<le> 4102 * 254" using n assms by (intro mult_mono) simp_all
  ultimately show "fst (fletcher_bytes (c0, c1) bs) \<le> 2147483647" "snd (fletcher_bytes (c0, c1) bs) \<le> 2147483647"
    using assms n byte_sum_le [of bs] by (simp_all add: fletcher_bytes_eq)
qed

lemma unat_ucast16: "unat (ucast (x :: u16) :: u64) = unat x"
proof -
  have "unat x < 2 ^ 64" by (rule less_trans [OF unat_lt16]) simp
  then have "take_bit 64 (unat x) = unat x" by (rule take_bit_nat_eq_self)
  then show ?thesis by (simp add: unsigned_ucast_eq)
qed

section \<open>Properties\<close>

text \<open>
  C22. The Internet checksum of a packet shorter than 128 KiB is the complement of the one's complement
  sum of its 16-bit words: adding up in a wider register and folding the carries twice at the end
  gives what an end-around carry after every addition gives.
\<close>

theorem in_cksum_ones_complement:
  assumes "nbytes < 131072"
  shows "unat (in_cksum m parg nbytes) = 65535 - oc_sum (load_bytes m parg (nat nbytes))"
  using in_cksum_norm [OF assms] oc_norm_sum [of 0] by (simp add: oc_sum_def oc_norm_def)

theorem in_cksum_ones_complement_witness:
  "unat (in_cksum (\<lambda>x. ucast x) 250 7) = 65535 - oc_sum [250, 251, 252, 253, 254, 255, 0]"
proof -
  have "load_bytes (\<lambda>x. ucast x) 250 (nat 7) = [250, 251, 252, 253, 254, 255, 0]" by code_simp
  then show ?thesis using in_cksum_ones_complement [of 7 "\<lambda>x. ucast x" 250] by simp
qed

lemma fletcher_checksum_validates:
  assumes "unat off + 1 < unat len" "unat len < 8388608" "off \<noteq> FLETCHER_CHECKSUM_VALIDATE"
  shows "\<exists>c m'. fletcher_checksum m buffer len off = Some (c, m') \<and>
           fletcher_checksum m' buffer len FLETCHER_CHECKSUM_VALIDATE = Some (0, m') \<and>
           (\<forall>a. a \<notin> span (buffer + ucast off) 2 \<longrightarrow> m' a = m a)"
proof -
  let ?n = "unat len" and ?o = "unat off" and ?m1 = "store_le m (buffer + ucast off) 2 0"
  define bs where "bs = load_bytes ?m1 buffer ?n"
  define x where "x = fletcher_x len off (byte_sum bs mod 255) (weighted_sum bs mod 255)"
  define y where "y = fletcher_y (byte_sum bs mod 255) x"
  define m' where "m' = ?m1(buffer + ucast off := of_int x, buffer + ucast off + 1 := of_int y)"
  have at: "buffer + ucast off = buffer + of_nat ?o" "buffer + ucast off + 1 = buffer + of_nat (?o + 1)" by simp_all
  have n: "?n < 18446744073709551616" by simp
  have "unat (len - 1) = ?n - 1" using assms(1) by (intro unat_minus_one) auto
  then have "ucast off < len - 1" using assms(1) by (simp add: word_less_nat_alt unat_ucast16)
  then have f: "\<exists>c. fletcher_checksum m buffer len off = Some (c, m')"
    using assms(3) by (simp add: fletcher_checksum_def fletcher_loop_sums bs_def x_def y_def m'_def Let_def)
  have z: "bs ! ?o = 0" "bs ! (?o + 1) = 0"
    using assms(1) by (simp_all add: bs_def load_bytes_def store_le_def store_bytes_def numeral_2_eq_2 add.assoc [symmetric])
  have "m' = ?m1(buffer + of_nat ?o := of_int x, buffer + of_nat (?o + 1) := of_int y)"
    unfolding m'_def at(2) by (simp only: at(1))
  then have l: "load_bytes m' buffer ?n = bs[?o := of_int x, ?o + 1 := of_int y]"
    using assms(1) load_bytes_update [of ?o ?n] load_bytes_update [of "?o + 1" ?n] by (simp add: bs_def del: of_nat_add of_nat_Suc)
  have "byte_sum (load_bytes m' buffer ?n) mod 255 = 0 \<and> weighted_sum (load_bytes m' buffer ?n) mod 255 = 0"
    unfolding l using fletcher_fill [OF assms(1,2) _ z] by (simp add: x_def y_def bs_def)
  then have "fletcher_checksum m' buffer len FLETCHER_CHECKSUM_VALIDATE = Some (0, m')"
    by (simp add: fletcher_validate Let_def)
  moreover have "\<forall>a. a \<notin> span (buffer + ucast off) 2 \<longrightarrow> m' a = m a"
    using at_offset [of _ "buffer + ucast off" 0] at_offset [of _ "buffer + ucast off" 1]
    by (auto simp: m'_def mem_simps span_def)
  ultimately show ?thesis using f by blast
qed



end
