(* ===== verification/Pqueue.thy ===== *)
theory Pqueue
  imports Prelude "HOL-Library.Multiset" "HOL-Library.Monad_Syntax"
begin

text \<open>
  The priority queue of \<^verbatim>\<open>src/lib/pqueue.c\<close>, a binary heap in a growing array. \<open>'a\<close> are the pointers
  it stores, \<open>'w\<close> is what they point to, which the comparison reads and the notification of a new
  position changes.
\<close>

section \<open>The queue\<close>

record ('a, 'w) pqueue =
  array :: "'a list"
  array_size :: int
  size_q :: int
  cmp :: "'w \<Rightarrow> 'a \<Rightarrow> 'a \<Rightarrow> int"
  update :: "('a \<Rightarrow> int \<Rightarrow> 'w \<Rightarrow> 'w) option"

definition PQUEUE_INIT_ARRAYSIZE :: int where "PQUEUE_INIT_ARRAYSIZE = 32"

definition PARENT_OF :: "int \<Rightarrow> int" where "PARENT_OF x = (x - 1) div 2"
definition LEFT_OF :: "int \<Rightarrow> int" where "LEFT_OF x = 2 * x + 1"
definition RIGHT_OF :: "int \<Rightarrow> int" where "RIGHT_OF x = 2 * x + 2"

text \<open>\<^verbatim>\<open>x < size / 2\<close>, with the division of C, which rounds to 0.\<close>

definition HAVE_CHILD :: "int \<Rightarrow> ('a, 'w) pqueue \<Rightarrow> bool" where
  "HAVE_CHILD x q \<longleftrightarrow> x < (if size_q q < 0 then - (- size_q q div 2) else size_q q div 2)"

text \<open>Reading and writing the array; \<open>None\<close> is an access outside of it.\<close>

definition get_at :: "('a, 'w) pqueue \<Rightarrow> int \<Rightarrow> 'a option" where
  "get_at q i = (if 0 \<le> i \<and> i < int (length (array q)) then Some (array q ! nat i) else None)"

definition set_at :: "('a, 'w) pqueue \<Rightarrow> int \<Rightarrow> 'a \<Rightarrow> ('a, 'w) pqueue option" where
  "set_at q i v =
     (if 0 \<le> i \<and> i < int (length (array q)) then Some (q\<lparr>array := (array q)[nat i := v]\<rparr>) else None)"

text \<open>The call of \<^verbatim>\<open>update\<close>, unless it is NULL.\<close>

definition notify :: "('a, 'w) pqueue \<Rightarrow> 'a \<Rightarrow> int \<Rightarrow> 'w \<Rightarrow> 'w" where
  "notify q v i w = (case update q of None \<Rightarrow> w | Some f \<Rightarrow> f v i w)"

text \<open>The last lines of both trickles.\<close>

definition restore :: "'a \<Rightarrow> int \<Rightarrow> ('a, 'w) pqueue \<Rightarrow> 'w \<Rightarrow> (('a, 'w) pqueue \<times> 'w) option" where
  "restore tmp index q w = do { q \<leftarrow> set_at q index tmp; Some (q, notify q tmp index w) }"

function trickle_up_loop :: "'a \<Rightarrow> int \<Rightarrow> ('a, 'w) pqueue \<Rightarrow> 'w \<Rightarrow> (('a, 'w) pqueue \<times> 'w) option" where
  "trickle_up_loop tmp index q w =
     (if index > 0 then
        do {
          p \<leftarrow> get_at q (PARENT_OF index);
          if cmp q w tmp p < 0 then
            do {
              q \<leftarrow> set_at q index p;
              trickle_up_loop tmp (PARENT_OF index) q (notify q p index w)
            }
          else restore tmp index q w
        }
      else restore tmp index q w)"
  by pat_completeness auto
termination
  by (relation "measure (\<lambda>(tmp, index, q, w). nat index)") (auto simp: PARENT_OF_def)

declare trickle_up_loop.simps [simp del]

definition trickle_up :: "int \<Rightarrow> ('a, 'w) pqueue \<Rightarrow> 'w \<Rightarrow> (('a, 'w) pqueue \<times> 'w) option" where
  "trickle_up index q w = do { tmp \<leftarrow> get_at q index; trickle_up_loop tmp index q w }"

text \<open>The child that is to move up.\<close>

definition which_child :: "int \<Rightarrow> ('a, 'w) pqueue \<Rightarrow> 'w \<Rightarrow> int option" where
  "which_child index q w =
     (if RIGHT_OF index < size_q q then
        do {
          l \<leftarrow> get_at q (LEFT_OF index);
          r \<leftarrow> get_at q (RIGHT_OF index);
          Some (if cmp q w l r > 0 then RIGHT_OF index else LEFT_OF index)
        }
      else Some (LEFT_OF index))"

lemma which_child_later:
  "which_child index q w = Some c \<Longrightarrow> get_at q c = Some v \<Longrightarrow> index < c \<and> 0 \<le> index"
  by (auto simp: which_child_def get_at_def LEFT_OF_def RIGHT_OF_def split: if_splits bind_splits)

lemma set_at_size: "set_at q i v = Some q' \<Longrightarrow> size_q q' = size_q q"
  by (auto simp: set_at_def split: if_splits)

lemma trickle_down_later:
  assumes "HAVE_CHILD index q" "which_child index q w = Some c" "get_at q c = Some v" "set_at q index v = Some q'"
  shows "index < size_q q \<and> size_q q' - c < size_q q - index"
proof -
  have "index < c" "0 \<le> index" using which_child_later [OF assms(2,3)] by simp_all
  moreover from \<open>0 \<le> index\<close> have "index < size_q q"
    using assms(1) by (simp add: HAVE_CHILD_def split: if_splits)
  ultimately show ?thesis using set_at_size [OF assms(4)] by simp
qed

function trickle_down_loop :: "'a \<Rightarrow> int \<Rightarrow> ('a, 'w) pqueue \<Rightarrow> 'w \<Rightarrow> (('a, 'w) pqueue \<times> 'w) option" where
  "trickle_down_loop tmp index q w =
     (if HAVE_CHILD index q then
        do {
          which \<leftarrow> which_child index q w;
          c \<leftarrow> get_at q which;
          if cmp q w c tmp > 0 then restore tmp index q w
          else
            do {
              q \<leftarrow> set_at q index c;
              trickle_down_loop tmp which q (notify q c index w)
            }
        }
      else restore tmp index q w)"
  by pat_completeness auto
termination
  by (relation "measure (\<lambda>(tmp, index, q, w). nat (size_q q - index))")
    (simp, simp add: trickle_down_later)

declare trickle_down_loop.simps [simp del]

definition trickle_down :: "int \<Rightarrow> ('a, 'w) pqueue \<Rightarrow> 'w \<Rightarrow> (('a, 'w) pqueue \<times> 'w) option" where
  "trickle_down index q w = do { tmp \<leftarrow> get_at q index; trickle_down_loop tmp index q w }"

text \<open>
  A new queue, its array cleared; the caller sets \<^verbatim>\<open>cmp\<close>, and \<^verbatim>\<open>update\<close> when it wants to be notified.
\<close>

definition pqueue_create :: "'a \<Rightarrow> ('w \<Rightarrow> 'a \<Rightarrow> 'a \<Rightarrow> int) \<Rightarrow> ('a, 'w) pqueue" where
  "pqueue_create null c =
     \<lparr>array = replicate (nat PQUEUE_INIT_ARRAYSIZE) null, array_size = PQUEUE_INIT_ARRAYSIZE,
      size_q = 0, cmp = c, update = None\<rparr>"

text \<open>\<open>alloc\<close> says whether the allocation succeeds.\<close>

definition pqueue_expand :: "bool \<Rightarrow> 'a \<Rightarrow> ('a, 'w) pqueue \<Rightarrow> bool \<times> ('a, 'w) pqueue" where
  "pqueue_expand alloc null q =
     (if \<not> alloc then (False, q)
      else (True, q\<lparr>array := take (nat (array_size q)) (array q) @ replicate (nat (array_size q)) null,
                    array_size := array_size q * 2\<rparr>))"

definition pqueue_enqueue :: "bool \<Rightarrow> 'a \<Rightarrow> 'a \<Rightarrow> ('a, 'w) pqueue \<Rightarrow> 'w \<Rightarrow> (('a, 'w) pqueue \<times> 'w) option" where
  "pqueue_enqueue alloc null data q w =
     (let (ok, q) = (if size_q q + 2 \<ge> array_size q then pqueue_expand alloc null q else (True, q))
      in if \<not> ok then Some (q, w)
         else do {
           q \<leftarrow> set_at q (size_q q) data;
           (q, w) \<leftarrow> trickle_up (size_q q) q (notify q data (size_q q) w);
           Some (q\<lparr>size_q := size_q q + 1\<rparr>, w)
         })"

definition pqueue_dequeue :: "('a, 'w) pqueue \<Rightarrow> 'w \<Rightarrow> ('a \<times> ('a, 'w) pqueue \<times> 'w) option" where
  "pqueue_dequeue q w =
     do {
       data \<leftarrow> get_at q 0;
       let q = q\<lparr>size_q := size_q q - 1\<rparr>;
       l \<leftarrow> get_at q (size_q q);
       q \<leftarrow> set_at q 0 l;
       (q, w) \<leftarrow> trickle_down 0 q w;
       Some (data, q, w)
     }"

definition pqueue_remove_at :: "int \<Rightarrow> ('a, 'w) pqueue \<Rightarrow> 'w \<Rightarrow> (('a, 'w) pqueue \<times> 'w) option" where
  "pqueue_remove_at index q w =
     do {
       let q = q\<lparr>size_q := size_q q - 1\<rparr>;
       l \<leftarrow> get_at q (size_q q);
       q \<leftarrow> set_at q index l;
       if index > 0 then
         do {
           p \<leftarrow> get_at q (PARENT_OF index);
           if cmp q w l p < 0 then trickle_up index q w else trickle_down index q w
         }
       else trickle_down index q w
     }"

text \<open>The trickles move elements and change nothing else of the queue.\<close>

definition rearranged :: "('a, 'w) pqueue \<Rightarrow> ('a, 'w) pqueue \<Rightarrow> bool" where
  "rearranged q q' \<longleftrightarrow> (\<exists>xs. q' = q\<lparr>array := xs\<rparr> \<and> length xs = length (array q))"

lemma rearranged_set_at: "set_at q i v = Some q' \<Longrightarrow> rearranged q q'"
  by (auto simp: set_at_def rearranged_def split: if_splits)

lemma rearranged_trans: "rearranged q q' \<Longrightarrow> rearranged q' q'' \<Longrightarrow> rearranged q q''"
  by (auto simp: rearranged_def)

lemma rearranged_size: "rearranged q q' \<Longrightarrow> size_q q' = size_q q"
  by (auto simp: rearranged_def)

lemma rearranged_restore: "restore tmp i q w = Some (q', w') \<Longrightarrow> rearranged q q'"
  by (auto simp: restore_def dest: rearranged_set_at split: bind_splits)

lemma rearranged_up_loop: "trickle_up_loop tmp i q w = Some (q', w') \<Longrightarrow> rearranged q q'"
proof (induction tmp i q w rule: trickle_up_loop.induct)
  case (1 tmp index q w)
  show ?case using 1(2)
    by (subst (asm) trickle_up_loop.simps)
      (auto split: if_splits bind_splits dest: rearranged_restore, meson 1(1) rearranged_set_at rearranged_trans)
qed

lemma rearranged_down_loop: "trickle_down_loop tmp i q w = Some (q', w') \<Longrightarrow> rearranged q q'"
proof (induction tmp i q w rule: trickle_down_loop.induct)
  case (1 tmp index q w)
  show ?case using 1(2)
    by (subst (asm) trickle_down_loop.simps)
      (auto split: if_splits bind_splits dest: rearranged_restore, meson 1(1) rearranged_set_at rearranged_trans)
qed

lemma pqueue_remove_at_size: "pqueue_remove_at i q w = Some (q', w') \<Longrightarrow> size_q q' = size_q q - 1"
  by (auto simp: pqueue_remove_at_def trickle_up_def trickle_down_def Let_def split: bind_splits if_splits
      dest!: rearranged_up_loop rearranged_down_loop rearranged_set_at rearranged_size)

text \<open>The loop of \<^verbatim>\<open>pqueue_remove\<close> from \<open>i\<close> on; the bound is read again in every turn.\<close>

function pqueue_remove_from ::
  "int \<Rightarrow> 'a \<Rightarrow> ('a, 'w) pqueue \<Rightarrow> 'w \<Rightarrow> (('a, 'w) pqueue \<times> 'w) option" where
  "pqueue_remove_from i data q w =
     (if i < size_q q then
        do {
          v \<leftarrow> get_at q i;
          if v = data then
            do {
              (q, w) \<leftarrow> pqueue_remove_at i q w;
              pqueue_remove_from (i + 1) data q w
            }
          else pqueue_remove_from (i + 1) data q w
        }
      else Some (q, w))"
  by pat_completeness auto
termination
  by (relation "measure (\<lambda>(i, data, q, w). nat (size_q q - i))") (auto dest: pqueue_remove_at_size)

declare pqueue_remove_from.simps [simp del]

definition pqueue_remove :: "'a \<Rightarrow> ('a, 'w) pqueue \<Rightarrow> 'w \<Rightarrow> (('a, 'w) pqueue \<times> 'w) option" where
  "pqueue_remove data q w = pqueue_remove_from 0 data q w"

section \<open>What a queue is\<close>

text \<open>The array is as long as recorded, and there is room beyond the elements.\<close>

definition wf_pqueue :: "('a, 'w) pqueue \<Rightarrow> bool" where
  "wf_pqueue q \<longleftrightarrow> 0 \<le> size_q q \<and> size_q q + 2 \<le> array_size q \<and> int (length (array q)) = array_size q"

text \<open>The elements, in the order of the array.\<close>

definition elements :: "('a, 'w) pqueue \<Rightarrow> 'a list" where
  "elements q = take (nat (size_q q)) (array q)"

text \<open>What the comparison function has to be: the sign of a total preorder.\<close>

definition orders :: "('a \<Rightarrow> 'a \<Rightarrow> int) \<Rightarrow> bool" where
  "orders c \<longleftrightarrow> (\<forall>a b. c a b < 0 \<longleftrightarrow> 0 < c b a) \<and> (\<forall>a b d. c a b \<le> 0 \<longrightarrow> c b d \<le> 0 \<longrightarrow> c a d \<le> 0)"

text \<open>No element is before its parent.\<close>

definition is_heap :: "('a \<Rightarrow> 'a \<Rightarrow> int) \<Rightarrow> 'a list \<Rightarrow> bool" where
  "is_heap c xs \<longleftrightarrow> (\<forall>i < length xs. 0 < i \<longrightarrow> c (xs ! ((i - 1) div 2)) (xs ! i) \<le> 0)"

text \<open>Notifications do not influence the comparison.\<close>

definition stable :: "('a, 'w) pqueue \<Rightarrow> bool" where
  "stable q \<longleftrightarrow> (\<forall>v i w. cmp q (notify q v i w) = cmp q w)"

definition pqueue_inv :: "('a, 'w) pqueue \<Rightarrow> 'w \<Rightarrow> bool" where
  "pqueue_inv q w \<longleftrightarrow> wf_pqueue q \<and> stable q \<and> orders (cmp q w) \<and> is_heap (cmp q w) (elements q)"

text \<open>\<open>pos\<close> tells for every element where it is in the array.\<close>

definition tracked :: "('w \<Rightarrow> 'a \<Rightarrow> int) \<Rightarrow> ('a, 'w) pqueue \<Rightarrow> 'w \<Rightarrow> bool" where
  "tracked pos q w \<longleftrightarrow> (\<forall>i < length (elements q). pos w (elements q ! i) = int i)"

text \<open>What is required of \<^verbatim>\<open>update\<close> for that: it records the position of the element it is called for.\<close>

definition records :: "('w \<Rightarrow> 'a \<Rightarrow> int) \<Rightarrow> ('a, 'w) pqueue \<Rightarrow> bool" where
  "records pos q \<longleftrightarrow> (\<forall>v i w. pos (notify q v i w) = (pos w)(v := i))"

section \<open>Heaps with one element out of order\<close>

text \<open>\<open>xs\<close> is a heap but for the element at \<open>i\<close>, which may be before its parent.\<close>

definition up_inv :: "('a \<Rightarrow> 'a \<Rightarrow> int) \<Rightarrow> 'a list \<Rightarrow> nat \<Rightarrow> bool" where
  "up_inv c xs i \<longleftrightarrow>
     (\<forall>j < length xs. 0 < j \<longrightarrow> j \<noteq> i \<longrightarrow> c (xs ! ((j - 1) div 2)) (xs ! j) \<le> 0) \<and>
     (\<forall>j < length xs. 0 < j \<longrightarrow> (j - 1) div 2 = i \<longrightarrow> 0 < i \<longrightarrow> c (xs ! ((i - 1) div 2)) (xs ! j) \<le> 0)"

text \<open>\<open>xs\<close> is a heap but for the element at \<open>i\<close>, which may be after its children.\<close>

definition down_inv :: "('a \<Rightarrow> 'a \<Rightarrow> int) \<Rightarrow> 'a list \<Rightarrow> nat \<Rightarrow> bool" where
  "down_inv c xs i \<longleftrightarrow>
     (\<forall>j < length xs. 0 < j \<longrightarrow> (j - 1) div 2 \<noteq> i \<longrightarrow> c (xs ! ((j - 1) div 2)) (xs ! j) \<le> 0) \<and>
     (\<forall>j < length xs. 0 < j \<longrightarrow> (j - 1) div 2 = i \<longrightarrow> 0 < i \<longrightarrow> c (xs ! ((i - 1) div 2)) (xs ! j) \<le> 0)"

lemma orders_total: "orders c \<Longrightarrow> \<not> c a b < 0 \<Longrightarrow> c b a \<le> 0"
  unfolding orders_def by (meson not_le)

lemma orders_less: "orders c \<Longrightarrow> c a b < 0 \<Longrightarrow> c a b \<le> 0" "orders c \<Longrightarrow> 0 < c a b \<Longrightarrow> c b a \<le> 0"
  unfolding orders_def by (meson less_imp_le)+

lemma orders_trans: "orders c \<Longrightarrow> c a b \<le> 0 \<Longrightarrow> c b d \<le> 0 \<Longrightarrow> c a d \<le> 0"
  unfolding orders_def by blast

lemma orders_refl: "orders c \<Longrightarrow> c a a \<le> 0"
  using orders_total [of c a a] by fastforce

lemma up_inv_done:
  assumes "orders c" "up_inv c xs i" "i = 0 \<or> \<not> c (xs ! i) (xs ! ((i - 1) div 2)) < 0"
  shows "is_heap c xs"
  using assms orders_total [OF assms(1)] unfolding is_heap_def up_inv_def by blast

lemma up_inv_step:
  assumes c: "orders c" and inv: "up_inv c xs i" and i: "0 < i" "i < length xs"
    and less: "c (xs ! i) (xs ! ((i - 1) div 2)) < 0"
  shows "up_inv c (xs[i := xs ! ((i - 1) div 2), (i - 1) div 2 := xs ! i]) ((i - 1) div 2)"
proof -
  define p where "p = (i - 1) div 2"
  define ys where "ys = xs[i := xs ! p, p := xs ! i]"
  have p: "p < i" using i by (simp add: p_def)
  have pi: "(i - Suc 0) div 2 = p" by (simp add: p_def)
  have ys: "ys ! j = (if j = p then xs ! i else if j = i then xs ! p else xs ! j)" if "j < length xs" for j
    using that p i by (auto simp: ys_def nth_list_update)
  have A: "c (xs ! ((j - 1) div 2)) (xs ! j) \<le> 0" if "j < length xs" "0 < j" "j \<noteq> i" for j
    using inv that by (simp add: up_inv_def)
  have B: "c (xs ! p) (xs ! j) \<le> 0" if "j < length xs" "0 < j" "(j - 1) div 2 = i" for j
    using inv that i by (simp add: up_inv_def p_def)
  have ip: "c (xs ! i) (xs ! p) \<le> 0" using less by (simp add: p_def)
  have "c (ys ! ((j - 1) div 2)) (ys ! j) \<le> 0" if j: "j < length xs" "0 < j" "j \<noteq> p" for j
  proof -
    have j': "(j - 1) div 2 < length xs" "(j - 1) div 2 < j" using j by simp_all
    consider "j = i" | "j \<noteq> i" "(j - 1) div 2 = p" | "j \<noteq> i" "(j - 1) div 2 = i" | "j \<noteq> i" "(j - 1) div 2 \<noteq> p" "(j - 1) div 2 \<noteq> i"
      by blast
    then show ?thesis
    proof cases
      case 1
      then show ?thesis using j j' p ip by (simp add: ys pi)
    next
      case 2
      then have "c (xs ! p) (xs ! j) \<le> 0" using A [of j] j by simp
      then show ?thesis using 2 j j' orders_trans [OF c ip] by (simp add: ys)
    next
      case 3
      then show ?thesis using j j' B [of j] p by (simp add: ys)
    next
      case 4
      then show ?thesis using j j' A [of j] by (simp add: ys)
    qed
  qed
  moreover have "c (ys ! ((p - 1) div 2)) (ys ! j) \<le> 0" if j: "j < length xs" "0 < j" "(j - 1) div 2 = p" "0 < p" for j
  proof -
    have g: "(p - 1) div 2 < p" "(p - 1) div 2 \<noteq> i" "(p - 1) div 2 < length xs" using j p i by simp_all
    have gp: "c (xs ! ((p - 1) div 2)) (xs ! p) \<le> 0" using A [of p] j p i by simp
    have "j \<noteq> p" using j by auto
    have "c (xs ! ((p - 1) div 2)) (xs ! j) \<le> 0" if "j \<noteq> i"
      using A [of j] j that orders_trans [OF c gp] by simp
    then show ?thesis using g gp j \<open>j \<noteq> p\<close> by (simp add: ys)
  qed
  ultimately have "up_inv c ys p" by (simp add: up_inv_def ys_def)
  then show ?thesis by (simp add: ys_def p_def)
qed

lemma down_inv_done:
  assumes c: "orders c" and inv: "down_inv c xs i"
    and child: "\<And>j. j < length xs \<Longrightarrow> 0 < j \<Longrightarrow> (j - 1) div 2 = i \<Longrightarrow> c (xs ! i) (xs ! j) \<le> 0"
  shows "is_heap c xs"
  using assms unfolding is_heap_def down_inv_def by metis

lemma down_inv_step:
  assumes c: "orders c" and inv: "down_inv c xs i" and k: "k < length xs" "0 < k" "(k - 1) div 2 = i"
    and least: "\<And>j. j < length xs \<Longrightarrow> 0 < j \<Longrightarrow> (j - 1) div 2 = i \<Longrightarrow> c (xs ! k) (xs ! j) \<le> 0"
    and le: "c (xs ! k) (xs ! i) \<le> 0"
  shows "down_inv c (xs[i := xs ! k, k := xs ! i]) k"
proof -
  define ys where "ys = xs[i := xs ! k, k := xs ! i]"
  have i: "i < k" using k by linarith
  have ys: "ys ! j = (if j = k then xs ! i else if j = i then xs ! k else xs ! j)" if "j < length xs" for j
    using that k i by (auto simp: ys_def nth_list_update)
  have A: "c (xs ! ((j - 1) div 2)) (xs ! j) \<le> 0" if "j < length xs" "0 < j" "(j - 1) div 2 \<noteq> i" for j
    using inv that by (simp add: down_inv_def)
  have B: "c (xs ! ((i - 1) div 2)) (xs ! j) \<le> 0" if "j < length xs" "0 < j" "(j - 1) div 2 = i" "0 < i" for j
    using inv that by (simp add: down_inv_def)
  have "c (ys ! ((j - 1) div 2)) (ys ! j) \<le> 0" if j: "j < length xs" "0 < j" "(j - 1) div 2 \<noteq> k" for j
  proof -
    have j': "(j - 1) div 2 < length xs" "(j - 1) div 2 < j" using j by simp_all
    consider "(j - 1) div 2 = i" "j = k" | "(j - 1) div 2 = i" "j \<noteq> k" | "(j - 1) div 2 \<noteq> i" "j = i" | "(j - 1) div 2 \<noteq> i" "j \<noteq> i"
      by blast
    then show ?thesis
    proof cases
      case 1
      then show ?thesis using j j' le i by (simp add: ys)
    next
      case 2
      then show ?thesis using j j' least [of j] i by (simp add: ys)
    next
      case 3
      then show ?thesis using j j' B [OF k] i by (simp add: ys)
    next
      case 4
      moreover have "j \<noteq> k" using 4 k by auto
      ultimately show ?thesis using j j' A [of j] by (simp add: ys)
    qed
  qed
  moreover have "c (ys ! ((k - 1) div 2)) (ys ! j) \<le> 0" if j: "j < length xs" "0 < j" "(j - 1) div 2 = k" for j
  proof -
    have "k < j" using j by linarith
    moreover have "c (xs ! k) (xs ! j) \<le> 0" using A [of j] j i by simp
    ultimately show ?thesis using k i j by (simp add: ys)
  qed
  moreover have "length ys = length xs" by (simp add: ys_def)
  ultimately have "down_inv c ys k" unfolding down_inv_def by simp
  then show ?thesis by (simp add: ys_def)
qed

section \<open>What the trickles do\<close>

text \<open>
  During a trickle the array has a hole at \<open>i\<close>, into which \<open>tmp\<close> belongs: \<open>filled_in\<close> is the list of
  the first \<open>n\<close> elements with the hole filled.
\<close>

definition filled_in :: "('a, 'w) pqueue \<Rightarrow> nat \<Rightarrow> nat \<Rightarrow> 'a \<Rightarrow> 'a list" where
  "filled_in q n i tmp = (take n (array q))[i := tmp]"

text \<open>The positions of all elements but the one in hand are recorded.\<close>

definition tracked_but :: "('w \<Rightarrow> 'a \<Rightarrow> int) \<Rightarrow> 'a list \<Rightarrow> nat \<Rightarrow> 'w \<Rightarrow> bool" where
  "tracked_but pos xs i w \<longleftrightarrow> (\<forall>j < length xs. j \<noteq> i \<longrightarrow> pos w (xs ! j) = int j)"

lemma swap_hole:
  assumes "i < n" "k < n" "i \<noteq> k" "n \<le> length (array q)"
  shows "filled_in (q\<lparr>array := (array q)[i := array q ! k]\<rparr>) n k tmp =
         (filled_in q n i tmp)[i := filled_in q n i tmp ! k, k := filled_in q n i tmp ! i]"
  using assms by (auto simp: filled_in_def take_update_swap nth_list_update list_eq_iff_nth_eq)

lemma mset_filled_in_swap:
  assumes "i < n" "k < n" "i \<noteq> k" "n \<le> length (array q)"
  shows "mset (filled_in (q\<lparr>array := (array q)[i := array q ! k]\<rparr>) n k tmp) = mset (filled_in q n i tmp)"
  unfolding swap_hole [OF assms] using assms by (intro mset_swap) (simp_all add: filled_in_def)

text \<open>
  The outcome of a trickle that starts with the hole at \<open>i\<close>: it does not leave the array, only
  rearranges the first \<open>n\<close> elements, into a heap, and if the positions are recorded they are right.
\<close>

definition settles ::
  "('w \<Rightarrow> 'a \<Rightarrow> int) \<Rightarrow> nat \<Rightarrow> nat \<Rightarrow> 'a \<Rightarrow> ('a, 'w) pqueue \<Rightarrow> 'w \<Rightarrow> (('a, 'w) pqueue \<times> 'w) option \<Rightarrow> bool" where
  "settles pos n i tmp q w r \<longleftrightarrow>
     (\<exists>xs w'. r = Some (q\<lparr>array := xs\<rparr>, w') \<and> length xs = length (array q)
        \<and> mset (take n xs) = mset (filled_in q n i tmp)
        \<and> cmp q w' = cmp q w \<and> is_heap (cmp q w) (take n xs)
        \<and> (records pos q \<longrightarrow> distinct (filled_in q n i tmp) \<longrightarrow> tracked_but pos (filled_in q n i tmp) i w
            \<longrightarrow> (\<forall>j < n. pos w' (take n xs ! j) = int j)))"

lemma notify_array [simp]: "notify (q\<lparr>array := xs\<rparr>) = notify q"
  by (simp add: notify_def fun_eq_iff)

lemma stable_array [simp]: "stable (q\<lparr>array := xs\<rparr>) = stable q"
  by (simp add: stable_def)

lemma records_array [simp]: "records pos (q\<lparr>array := xs\<rparr>) = records pos q"
  by (simp add: records_def)

lemma length_filled_in: "n \<le> length (array q) \<Longrightarrow> length (filled_in q n i tmp) = n"
  by (simp add: filled_in_def)

lemma nth_filled_in:
  "i < n \<Longrightarrow> j < n \<Longrightarrow> n \<le> length (array q) \<Longrightarrow>
   filled_in q n i tmp ! j = (if j = i then tmp else array q ! j)"
  by (simp add: filled_in_def nth_list_update)

lemma settles_restore:
  assumes "i < n" "n \<le> length (array q)" "stable q" "is_heap (cmp q w) (filled_in q n i tmp)"
  shows "settles pos n i tmp q w (restore tmp (int i) q w)"
proof -
  let ?xs = "(array q)[i := tmp]" and ?w = "notify q tmp (int i) w"
  have r: "restore tmp (int i) q w = Some (q\<lparr>array := ?xs\<rparr>, ?w)"
    using assms by (simp add: restore_def set_at_def)
  have t: "take n ?xs = filled_in q n i tmp" by (simp add: filled_in_def take_update_swap)
  have "pos ?w (filled_in q n i tmp ! j) = int j"
    if "records pos q" "distinct (filled_in q n i tmp)" "tracked_but pos (filled_in q n i tmp) i w" "j < n" for j
  proof (cases "j = i")
    case True
    with that assms show ?thesis by (simp add: records_def nth_filled_in)
  next
    case False
    have "filled_in q n i tmp ! j \<noteq> filled_in q n i tmp ! i"
      using that False assms by (simp add: nth_eq_iff_index_eq length_filled_in)
    then show ?thesis using that False assms by (simp add: records_def tracked_but_def length_filled_in nth_filled_in)
  qed
  moreover have "cmp q ?w = cmp q w" using assms(3) by (simp add: stable_def)
  ultimately show ?thesis
    unfolding settles_def using r t assms(4) by (intro exI [of _ ?xs] exI [of _ ?w]) simp
qed

lemma tracked_move:
  assumes "i < n" "k < n" "i \<noteq> k" "n \<le> length (array q)"
    and "records pos q" "distinct (filled_in q n i tmp)" "tracked_but pos (filled_in q n i tmp) i w"
  shows "tracked_but pos (filled_in (q\<lparr>array := (array q)[i := array q ! k]\<rparr>) n k tmp) k
           (notify q (array q ! k) (int i) w)"
  unfolding tracked_but_def
proof (intro allI impI)
  fix j
  let ?ys = "filled_in q n i tmp" and ?q = "q\<lparr>array := (array q)[i := array q ! k]\<rparr>"
  assume "j < length (filled_in ?q n k tmp)" "j \<noteq> k"
  then have j: "j < n" "j \<noteq> k" using assms by (simp_all add: length_filled_in)
  have e: "filled_in ?q n k tmp ! j = (if j = i then array q ! k else ?ys ! j)"
    using assms j by (simp add: nth_filled_in)
  have "j \<noteq> i \<Longrightarrow> ?ys ! j \<noteq> ?ys ! k"
    using assms j by (simp add: nth_eq_iff_index_eq length_filled_in)
  moreover have "?ys ! k = array q ! k" using assms by (simp add: nth_filled_in)
  moreover have "j \<noteq> i \<Longrightarrow> pos w (?ys ! j) = int j" using assms j by (simp add: tracked_but_def length_filled_in)
  ultimately show "pos (notify q (array q ! k) (int i) w) (filled_in ?q n k tmp ! j) = int j"
    using assms(5) unfolding e by (simp add: records_def)
qed

lemma settles_move:
  assumes "i < n" "k < n" "i \<noteq> k" "n \<le> length (array q)" "stable q"
    and "settles pos n k tmp (q\<lparr>array := (array q)[i := array q ! k]\<rparr>) (notify q (array q ! k) (int i) w) r"
  shows "settles pos n i tmp q w r"
proof -
  let ?q = "q\<lparr>array := (array q)[i := array q ! k]\<rparr>" and ?w = "notify q (array q ! k) (int i) w"
  have c: "cmp q ?w = cmp q w" using assms(5) by (simp add: stable_def)
  have m: "mset (filled_in ?q n k tmp) = mset (filled_in q n i tmp)" using assms(1-4) by (rule mset_filled_in_swap)
  from assms(6) obtain xs w' where r: "r = Some (?q\<lparr>array := xs\<rparr>, w')" "length xs = length (array q)"
      "mset (take n xs) = mset (filled_in ?q n k tmp)" "cmp q w' = cmp q w" "is_heap (cmp q w) (take n xs)"
      "records pos q \<longrightarrow> distinct (filled_in ?q n k tmp) \<longrightarrow> tracked_but pos (filled_in ?q n k tmp) k ?w
        \<longrightarrow> (\<forall>j < n. pos w' (take n xs ! j) = int j)"
    unfolding settles_def by (auto simp: c)
  have "\<forall>j < n. pos w' (take n xs ! j) = int j"
    if "records pos q" "distinct (filled_in q n i tmp)" "tracked_but pos (filled_in q n i tmp) i w"
    using r(6) that tracked_move [OF assms(1-4) that] mset_eq_imp_distinct_iff [OF m] by blast
  then show ?thesis
    unfolding settles_def using r m by (intro exI [of _ xs] exI [of _ w']) simp
qed

lemma get_at_int: "j < length (array q) \<Longrightarrow> get_at q (int j) = Some (array q ! j)"
  by (simp add: get_at_def)

lemma set_at_int: "j < length (array q) \<Longrightarrow> set_at q (int j) v = Some (q\<lparr>array := (array q)[j := v]\<rparr>)"
  by (simp add: set_at_def)

lemma PARENT_OF_int: "0 < i \<Longrightarrow> PARENT_OF (int i) = int ((i - 1) div 2)"
  by (simp add: PARENT_OF_def of_nat_diff zdiv_int)

lemma trickle_up_settles:
  assumes "i < n" "n \<le> length (array q)" "stable q" "orders (cmp q w)" "up_inv (cmp q w) (filled_in q n i tmp) i"
  shows "settles pos n i tmp q w (trickle_up_loop tmp (int i) q w)"
  using assms
proof (induction i arbitrary: q w rule: less_induct)
  case (less i)
  note settle = settles_restore [OF less.prems(1-3)]
  show ?case
  proof (cases "i = 0")
    case True
    then have "is_heap (cmp q w) (filled_in q n i tmp)" using less.prems by (intro up_inv_done) auto
    with True show ?thesis using settle by (subst trickle_up_loop.simps) simp
  next
    case False
    define k where "k = (i - 1) div 2"
    let ?q = "q\<lparr>array := (array q)[i := array q ! k]\<rparr>" and ?w = "notify q (array q ! k) (int i) w"
    have k: "k < i" "k < n" "i \<noteq> k" using False less.prems(1) by (auto simp: k_def)
    have par: "PARENT_OF (int i) = int k" using False by (simp only: PARENT_OF_int k_def)
    have e: "trickle_up_loop tmp (int i) q w =
        (if cmp q w tmp (array q ! k) < 0 then trickle_up_loop tmp (int k) ?q ?w else restore tmp (int i) q w)"
      using False k less.prems par
      by (subst trickle_up_loop.simps) (simp add: get_at_int set_at_int)
    have f: "filled_in q n i tmp ! i = tmp" "filled_in q n i tmp ! k = array q ! k"
      using k less.prems by (simp_all add: nth_filled_in)
    show ?thesis
    proof (cases "cmp q w tmp (array q ! k) < 0")
      case True
      have c: "cmp ?q ?w = cmp q w" using less.prems(3) by (simp add: stable_def)
      have "up_inv (cmp q w) (filled_in ?q n k tmp) k"
        unfolding swap_hole [OF less.prems(1) k(2,3) less.prems(2)]
        using up_inv_step [OF less.prems(4,5)] False True f less.prems by (simp add: k_def length_filled_in)
      then have "settles pos n k tmp ?q ?w (trickle_up_loop tmp (int k) ?q ?w)"
        using less.prems by (intro less.IH k) (simp_all only: c, simp_all)
      then show ?thesis using True settles_move [OF less.prems(1) k(2,3) less.prems(2,3)] by (simp add: e)
    next
      case nless: False
      then have "is_heap (cmp q w) (filled_in q n i tmp)"
        using less.prems f by (intro up_inv_done) (auto simp: k_def)
      with nless show ?thesis using settle by (simp add: e)
    qed
  qed
qed

lemma HAVE_CHILD_int: "n = nat (size_q q) \<Longrightarrow> HAVE_CHILD (int i) q \<longleftrightarrow> 2 * i + 1 < n"
  by (auto simp: HAVE_CHILD_def)

lemma which_child_int:
  assumes "n = nat (size_q q)" "n \<le> length (array q)" "2 * i + 1 < n"
  shows "which_child (int i) q w =
    Some (int (if 2 * i + 2 < n \<and> cmp q w (array q ! (2 * i + 1)) (array q ! (2 * i + 2)) > 0 then 2 * i + 2 else 2 * i + 1))"
proof -
  have l: "LEFT_OF (int i) = int (2 * i + 1)" "RIGHT_OF (int i) = int (2 * i + 2)" by (simp_all add: LEFT_OF_def RIGHT_OF_def)
  have "RIGHT_OF (int i) < size_q q \<longleftrightarrow> 2 * i + 2 < n" using assms(1) by (auto simp: RIGHT_OF_def)
  then show ?thesis using assms by (simp only: which_child_def l) (simp add: get_at_int del: of_nat_add of_nat_Suc of_nat_mult)
qed

lemma trickle_down_settles:
  assumes "n = nat (size_q q)" "i < n" "n \<le> length (array q)" "stable q" "orders (cmp q w)"
    "down_inv (cmp q w) (filled_in q n i tmp) i"
  shows "settles pos n i tmp q w (trickle_down_loop tmp (int i) q w)"
  using assms
proof (induction "n - i" arbitrary: i q w rule: less_induct)
  case less
  note settle = settles_restore [OF less.prems(2-4)]
  let ?c = "cmp q w" and ?ys = "filled_in q n i tmp"
  have children: "j = 2 * i + 1 \<or> j = 2 * i + 2" if "0 < j" "(j - 1) div 2 = i" for j :: nat
    using that by linarith
  show ?case
  proof (cases "2 * i + 1 < n")
    case False
    then have "is_heap ?c ?ys"
      using less.prems children by (intro down_inv_done [OF less.prems(5,6)]) (force simp: length_filled_in)
    then show ?thesis using settle False less.prems(1) by (subst trickle_down_loop.simps) (simp add: HAVE_CHILD_int)
  next
    case True
    define k where "k = (if 2 * i + 2 < n \<and> ?c (array q ! (2 * i + 1)) (array q ! (2 * i + 2)) > 0 then 2 * i + 2 else 2 * i + 1)"
    let ?q = "q\<lparr>array := (array q)[i := array q ! k]\<rparr>" and ?w = "notify q (array q ! k) (int i) w"
    have k: "i < k" "k < n" "i \<noteq> k" "0 < k" "(k - 1) div 2 = i" using True by (auto simp: k_def)
    have wc: "which_child (int i) q w = Some (int k)" "HAVE_CHILD (int i) q"
      using which_child_int [OF less.prems(1,3) True] True less.prems(1) by (simp_all only: k_def HAVE_CHILD_int)
    have e: "trickle_down_loop tmp (int i) q w =
        (if ?c (array q ! k) tmp > 0 then restore tmp (int i) q w else trickle_down_loop tmp (int k) ?q ?w)"
      using k less.prems wc by (subst trickle_down_loop.simps) (simp add: get_at_int set_at_int)
    have f: "?ys ! i = tmp" "j < n \<Longrightarrow> j \<noteq> i \<Longrightarrow> ?ys ! j = array q ! j" for j
      using less.prems by (simp_all add: nth_filled_in)
    have least: "?c (array q ! k) (array q ! j) \<le> 0" if "j < n" "0 < j" "(j - 1) div 2 = i" for j
      using children [OF that(2,3)] that(1) orders_refl [OF less.prems(5)] orders_total [OF less.prems(5)] orders_less [OF less.prems(5)]
      by (auto simp: k_def)
    show ?thesis
    proof (cases "?c (array q ! k) tmp > 0")
      case greater: True
      then have "?c tmp (array q ! k) \<le> 0" using orders_less [OF less.prems(5)] by blast
      then have "?c (?ys ! i) (?ys ! j) \<le> 0" if "j < n" "0 < j" "(j - 1) div 2 = i" for j
        using orders_trans [OF less.prems(5) _ least [OF that]] f that by auto
      then have "is_heap ?c ?ys" using less.prems by (intro down_inv_done [OF less.prems(5,6)]) (simp add: length_filled_in)
      with greater show ?thesis using settle by (simp add: e)
    next
      case nless: False
      have c: "cmp ?q ?w = ?c" using less.prems(4) by (simp add: stable_def)
      have "down_inv ?c (filled_in ?q n k tmp) k"
        unfolding swap_hole [OF less.prems(2) k(2,3) less.prems(3)]
        using f k nless least less.prems
        by (intro down_inv_step [OF less.prems(5,6)]) (auto simp: length_filled_in)
      then have "settles pos n k tmp ?q ?w (trickle_down_loop tmp (int k) ?q ?w)"
        using less.prems k by (intro less.hyps) (simp_all only: c, simp_all)
      then show ?thesis using nless settles_move [OF less.prems(2) k(2,3) less.prems(3,4)] by (simp add: e)
    qed
  qed
qed

section \<open>The operations\<close>

lemma settlesE:
  assumes "settles pos n i tmp q w r" "filled_in q n i tmp = ys"
  obtains xs w' where "r = Some (q\<lparr>array := xs\<rparr>, w')" "length xs = length (array q)"
    "mset (take n xs) = mset ys" "cmp q w' = cmp q w" "is_heap (cmp q w) (take n xs)"
    "records pos q \<longrightarrow> distinct ys \<longrightarrow> tracked_but pos ys i w \<longrightarrow> (\<forall>j < n. pos w' (take n xs ! j) = int j)"
  using assms unfolding settles_def by blast

lemma is_heap_least:
  assumes "orders c" "is_heap c xs" "i < length xs"
  shows "c (xs ! 0) (xs ! i) \<le> 0"
  using assms(3)
proof (induction i rule: less_induct)
  case (less i)
  show ?case
  proof (cases "i = 0")
    case True
    then show ?thesis using orders_refl [OF assms(1)] by simp
  next
    case False
    then have "c (xs ! 0) (xs ! ((i - 1) div 2)) \<le> 0" using less by (intro less.IH) simp_all
    moreover have "c (xs ! ((i - 1) div 2)) (xs ! i) \<le> 0" using assms(2) False less.prems by (simp add: is_heap_def)
    ultimately show ?thesis by (rule orders_trans [OF assms(1)])
  qed
qed

text \<open>A queue after \<^verbatim>\<open>pqueue_enqueue\<close> has made room.\<close>

lemma room:
  assumes "wf_pqueue q"
  obtains q' where "(if size_q q + 2 \<ge> array_size q then pqueue_expand True null q else (True, q)) = (True, q')"
    "wf_pqueue q'" "size_q q' + 2 < array_size q'" "size_q q' = size_q q" "cmp q' = cmp q" "update q' = update q"
    "elements q' = elements q"
proof (cases "size_q q + 2 \<ge> array_size q")
  case True
  let ?q = "q\<lparr>array := take (nat (array_size q)) (array q) @ replicate (nat (array_size q)) null, array_size := array_size q * 2\<rparr>"
  show ?thesis
    using True assms by (intro that [of ?q]) (auto simp: pqueue_expand_def wf_pqueue_def elements_def)
next
  case False
  then show ?thesis using assms by (intro that [of q]) auto
qed

text \<open>What every operation leaves alone, and that recorded positions stay right.\<close>

definition same_kind :: "('a, 'w) pqueue \<Rightarrow> 'w \<Rightarrow> ('a, 'w) pqueue \<Rightarrow> 'w \<Rightarrow> bool" where
  "same_kind q w q' w' \<longleftrightarrow> cmp q' = cmp q \<and> update q' = update q \<and> cmp q w' = cmp q w"

lemma wf_elements: "wf_pqueue q \<Longrightarrow> length (elements q) = nat (size_q q)"
  by (auto simp: wf_pqueue_def elements_def)

lemma stable_cong: "update q' = update q \<Longrightarrow> cmp q' = cmp q \<Longrightarrow> stable q' = stable q"
  by (simp add: stable_def notify_def)

lemma records_cong: "update q' = update q \<Longrightarrow> records pos q' = records pos q"
  by (simp add: records_def notify_def)

lemma enqueue_ok:
  assumes inv: "pqueue_inv q w"
  obtains q' w' where "pqueue_enqueue True null d q w = Some (q', w')" "pqueue_inv q' w'"
    "mset (elements q') = add_mset d (mset (elements q))" "same_kind q w q' w'"
    "records pos q \<longrightarrow> distinct (d # elements q) \<longrightarrow> tracked pos q w \<longrightarrow> tracked pos q' w'"
proof -
  from inv have wf: "wf_pqueue q" by (simp add: pqueue_inv_def)
  obtain q1 where q1: "(if size_q q + 2 \<ge> array_size q then pqueue_expand True null q else (True, q)) = (True, q1)"
    "wf_pqueue q1" "size_q q1 + 2 < array_size q1" "size_q q1 = size_q q" "cmp q1 = cmp q" "update q1 = update q"
    "elements q1 = elements q" by (rule room [OF wf])
  define n where "n = nat (size_q q)"
  have n: "int n = size_q q" "Suc n < length (array q1)" "n < length (array q1)" "length (elements q) = n"
    using wf q1 by (auto simp: wf_pqueue_def n_def elements_def)
  define q2 w1 where "q2 = q1\<lparr>array := (array q1)[n := d]\<rparr>" and "w1 = notify q d (int n) w"
  have st: "stable q2" "cmp q2 = cmp q" "update q2 = update q"
    using inv q1 by (simp_all add: q2_def pqueue_inv_def stable_cong [of q1 q])
  have c: "cmp q2 w1 = cmp q w" using inv q1 by (simp add: q2_def w1_def pqueue_inv_def stable_def)
  have f: "filled_in q2 (Suc n) n d = elements q @ [d]"
    using n q1(4,7) by (simp add: filled_in_def q2_def elements_def take_Suc_conv_app_nth n_def list_update_append)
  have g: "array q2 ! n = d" using n by (simp add: q2_def)
  have len: "Suc n \<le> length (array q2)" using n by (simp add: q2_def)
  have "up_inv (cmp q w) (elements q @ [d]) n"
    using inv n unfolding up_inv_def pqueue_inv_def is_heap_def by (auto simp: nth_append)
  then have "settles pos (Suc n) n d q2 w1 (trickle_up_loop d (int n) q2 w1)"
    using len n(4) st(1) inv by (intro trickle_up_settles) (simp_all add: f c pqueue_inv_def)
  then obtain xs w' where r: "trickle_up_loop d (int n) q2 w1 = Some (q2\<lparr>array := xs\<rparr>, w')"
    "length xs = length (array q2)" "mset (take (Suc n) xs) = mset (elements q @ [d])" "cmp q2 w' = cmp q2 w1"
    "is_heap (cmp q2 w1) (take (Suc n) xs)"
    "records pos q2 \<longrightarrow> distinct (elements q @ [d]) \<longrightarrow> tracked_but pos (elements q @ [d]) n w1
      \<longrightarrow> (\<forall>j < Suc n. pos w' (take (Suc n) xs ! j) = int j)"
    by (rule settlesE [OF _ f])
  define q' where "q' = q2\<lparr>array := xs, size_q := size_q q2 + 1\<rparr>"
  have "nat (size_q q + 1) = Suc n" using n(1) by linarith
  then have el: "elements q' = take (Suc n) xs" using q1(4) by (simp add: q'_def q2_def elements_def)
  have "notify q1 = notify q" using q1 by (simp add: notify_def fun_eq_iff)
  then have enq: "pqueue_enqueue True null d q w = Some (q', w')"
    unfolding pqueue_enqueue_def q1(1) Let_def prod.case q1(4)
    using n(2-4) r(1) g by (simp add: q1(4) n(1) [symmetric] set_at_int trickle_up_def get_at_int q2_def w1_def q'_def)
  have "wf_pqueue q'" using q1 n r(2) by (simp add: wf_pqueue_def q'_def q2_def)
  moreover have "stable q'" using st(1) stable_cong [of q' q2] by (simp add: q'_def)
  ultimately have "pqueue_inv q' w'" "wf_pqueue q'"
    using st c r(4,5) inv by (simp_all add: pqueue_inv_def el) (simp_all add: q'_def)
  moreover have "tracked pos q' w'" if t: "records pos q" "distinct (d # elements q)" "tracked pos q w"
  proof -
    have "tracked_but pos (elements q @ [d]) n w1"
      unfolding tracked_but_def
    proof (intro allI impI)
      fix j
      assume "j < length (elements q @ [d])" "j \<noteq> n"
      then have j: "j < length (elements q)" using n(4) by simp
      then have "elements q ! j \<noteq> d" using t(2) nth_mem by force
      then show "pos w1 ((elements q @ [d]) ! j) = int j"
        using j t by (simp add: nth_append tracked_def records_def w1_def)
    qed
    then have "\<forall>j < Suc n. pos w' (take (Suc n) xs ! j) = int j"
      using r(6) t st(3) using records_cong [of q2 q pos] by auto
    then show ?thesis using n r(2) q1 by (simp add: tracked_def el q2_def)
  qed
  moreover have "same_kind q w q' w'" using st c r(4) by (simp add: same_kind_def q'_def)
  ultimately show ?thesis using enq r(3) by (intro that [of q' w']) (simp_all add: el)
qed

lemma take_last_mset:
  assumes "0 < k" "k \<le> length xs" "i < k"
  shows "mset (take k xs) = add_mset (xs ! i) (mset (take (k - 1) (xs[i := xs ! (k - 1)])))"
proof (cases "i = k - 1")
  case True
  then have "take k xs = take (k - 1) xs @ [xs ! i]" using assms take_Suc_conv_app_nth [of "k - 1" xs] by simp
  then show ?thesis using True assms by simp
next
  case False
  then have "i < k - 1" using assms by linarith
  have k: "take k xs = take (k - 1) xs @ [xs ! (k - 1)]" using assms take_Suc_conv_app_nth [of "k - 1" xs] by simp
  have "mset (take (k - 1) (xs[i := xs ! (k - 1)])) = add_mset (xs ! (k - 1)) (mset (take (k - 1) xs) - {#xs ! i#})"
    using \<open>i < k - 1\<close> assms by (simp add: take_update_swap mset_update)
  moreover have "xs ! i \<in># mset (take (k - 1) xs)"
    using \<open>i < k - 1\<close> assms by (auto simp: in_set_conv_nth intro!: exI [of _ i])
  ultimately show ?thesis by (simp add: k)
qed

lemma heap_replace:
  assumes c: "orders c" and h: "is_heap c xs" and i: "i < length xs"
  shows "i = 0 \<or> \<not> c l (xs ! ((i - 1) div 2)) < 0 \<Longrightarrow> down_inv c (xs[i := l]) i"
    and "0 < i \<Longrightarrow> c l (xs ! ((i - 1) div 2)) < 0 \<Longrightarrow> up_inv c (xs[i := l]) i"
proof -
  have A: "c (xs ! ((j - 1) div 2)) (xs ! j) \<le> 0" if "j < length xs" "0 < j" for j
    using h that by (simp add: is_heap_def)
  have gp: "c (xs ! ((i - 1) div 2)) (xs ! j) \<le> 0" if "j < length xs" "0 < j" "(j - 1) div 2 = i" "0 < i" for j
    using A [of i] A [of j] that i by (auto intro: orders_trans [OF c])
  have p: "(j - 1) div 2 \<noteq> j" if "0 < j" for j :: nat using that by linarith
  show "down_inv c (xs[i := l]) i" if "i = 0 \<or> \<not> c l (xs ! ((i - 1) div 2)) < 0"
  proof -
    have "c (xs ! ((i - 1) div 2)) l \<le> 0" if "0 < i" using that orders_total [OF c] \<open>i = 0 \<or> _\<close> by auto
    then have "c (xs[i := l] ! ((j - 1) div 2)) (xs[i := l] ! j) \<le> 0" if "j < length xs" "0 < j" "(j - 1) div 2 \<noteq> i" for j
      using that A [of j] by (cases "j = i") simp_all
    moreover have "c (xs[i := l] ! ((i - 1) div 2)) (xs[i := l] ! j) \<le> 0" if "j < length xs" "0 < j" "(j - 1) div 2 = i" "0 < i" for j
      using that gp p [of i] p [of j] by auto
    ultimately show ?thesis unfolding down_inv_def by simp
  qed
  show "up_inv c (xs[i := l]) i" if "0 < i" "c l (xs ! ((i - 1) div 2)) < 0"
  proof -
    have "c l (xs ! j) \<le> 0" if "j < length xs" "0 < j" "(j - 1) div 2 = i" for j
      using orders_trans [OF c _ gp [OF that \<open>0 < i\<close>]] \<open>c l (xs ! ((i - 1) div 2)) < 0\<close> by simp
    then have "c (xs[i := l] ! ((j - 1) div 2)) (xs[i := l] ! j) \<le> 0" if "j < length xs" "0 < j" "j \<noteq> i" for j
      using that A [of j] by (cases "(j - 1) div 2 = i") auto
    moreover have "c (xs[i := l] ! ((i - 1) div 2)) (xs[i := l] ! j) \<le> 0" if "j < length xs" "0 < j" "(j - 1) div 2 = i" for j
      using that gp p [of i] p [of j] \<open>0 < i\<close> by auto
    ultimately show ?thesis unfolding up_inv_def length_list_update by blast
  qed
qed

lemma is_heap_take: "is_heap c xs \<Longrightarrow> is_heap c (take n xs)"
  by (auto simp: is_heap_def)

text \<open>
  Both \<^verbatim>\<open>pqueue_dequeue\<close> and \<^verbatim>\<open>pqueue_remove_at\<close> put the last element in the place of the removed one and
  let it trickle.
\<close>

definition refill :: "nat \<Rightarrow> ('a, 'w) pqueue \<Rightarrow> 'w \<Rightarrow> (('a, 'w) pqueue \<times> 'w) option" where
  "refill i q w =
     (let l = array q ! (nat (size_q q) - 1);
          q1 = q\<lparr>size_q := size_q q - 1, array := (array q)[i := l]\<rparr>
      in if 0 < i \<and> cmp q w l (array q ! ((i - 1) div 2)) < 0 then trickle_up (int i) q1 w
         else trickle_down (int i) q1 w)"

lemma refill_settles:
  assumes inv: "pqueue_inv q w" and i: "i < nat (size_q q) - 1"
  defines "n \<equiv> nat (size_q q) - 1" and "l \<equiv> array q ! (nat (size_q q) - 1)"
  defines "q1 \<equiv> q\<lparr>size_q := size_q q - 1, array := (array q)[i := l]\<rparr>"
  shows "settles pos n i l q1 w (refill i q w)"
proof -
  let ?xs = "take n (elements q)"
  have wf: "wf_pqueue q" and o: "orders (cmp q w)" and st: "stable q1" and h: "is_heap (cmp q w) ?xs"
    using inv is_heap_take stable_cong [of q1 q] by (auto simp: pqueue_inv_def q1_def)
  have n: "i < n" "n < length (array q)" "length ?xs = n" "n = nat (size_q q1)" "n \<le> length (array q1)"
    using wf i by (auto simp: n_def wf_pqueue_def elements_def q1_def)
  have xs: "?xs = take n (array q)" by (simp add: elements_def n_def min_def)
  have f: "filled_in q1 n i l = ?xs[i := l]" by (simp add: filled_in_def q1_def xs take_update_swap)
  have p: "?xs ! ((i - 1) div 2) = array q ! ((i - 1) div 2)"
    using n(1) unfolding xs by (intro nth_take) linarith
  have g: "get_at q1 (int i) = Some l" using n by (simp add: get_at_int q1_def)
  have c: "cmp q1 = cmp q" by (simp add: q1_def)
  have il: "i < length ?xs" using n by simp
  have u: "settles pos n i l q1 w (trickle_up_loop l (int i) q1 w)"
    if "0 < i" "cmp q w l (?xs ! ((i - 1) div 2)) < 0"
    using n(1,5) st o heap_replace(2) [OF o h il that] unfolding f [symmetric] c [symmetric]
    by (intro trickle_up_settles)
  have d: "settles pos n i l q1 w (trickle_down_loop l (int i) q1 w)"
    if "i = 0 \<or> \<not> cmp q w l (?xs ! ((i - 1) div 2)) < 0"
    using n(1,4,5) st o heap_replace(1) [OF o h il that] unfolding f [symmetric] c [symmetric]
    by (intro trickle_down_settles)
  have e: "refill i q w = (if 0 < i \<and> cmp q w l (array q ! ((i - 1) div 2)) < 0
      then trickle_up (int i) q1 w else trickle_down (int i) q1 w)"
    by (simp add: refill_def Let_def l_def q1_def)
  show ?thesis using u d unfolding p e by (auto simp: trickle_up_def trickle_down_def g)
qed

lemma refill_last:
  assumes inv: "pqueue_inv q w" and i: "i = nat (size_q q) - 1" "0 < size_q q"
  shows "refill i q w = Some (q\<lparr>size_q := size_q q - 1\<rparr>, notify q (array q ! i) (int i) w)"
proof -
  let ?q1 = "q\<lparr>size_q := size_q q - 1, array := (array q)[i := array q ! i]\<rparr>"
  have len: "i < length (array q)" "length (elements q) = nat (size_q q)"
    using inv i wf_elements [of q] by (auto simp: pqueue_inv_def wf_pqueue_def)
  have il: "i < length (elements q)" using i len by linarith
  have par: "(i - Suc 0) div 2 < nat (size_q q)" using il len by linarith
  have o: "orders (cmp q w)" using inv by (simp add: pqueue_inv_def)
  have nl: "\<not> (0 < i \<and> cmp q w (array q ! i) (array q ! ((i - 1) div 2)) < 0)"
  proof
    assume a: "0 < i \<and> cmp q w (array q ! i) (array q ! ((i - 1) div 2)) < 0"
    then have "cmp q w (elements q ! ((i - 1) div 2)) (elements q ! i) \<le> 0"
      using inv il by (simp add: pqueue_inv_def is_heap_def)
    moreover have "elements q ! i = array q ! i" "elements q ! ((i - 1) div 2) = array q ! ((i - 1) div 2)"
      using il par by (simp_all add: elements_def)
    moreover have "0 < cmp q w (array q ! ((i - 1) div 2)) (array q ! i)"
      using o a unfolding orders_def by blast
    ultimately show False by simp
  qed
  have "\<not> HAVE_CHILD (int i) ?q1" using i by (auto simp: HAVE_CHILD_def)
  then have "trickle_down (int i) ?q1 w = Some (?q1, notify q (array q ! i) (int i) w)"
    using len by (simp add: trickle_down_def get_at_int, subst trickle_down_loop.simps)
      (simp add: restore_def set_at_int notify_def)
  then show ?thesis using nl by (simp only: refill_def Let_def i(1) [symmetric]) simp
qed



lemma refill_ok:
  assumes inv: "pqueue_inv q w" and i: "i < nat (size_q q)"
  obtains q' w' where "refill i q w = Some (q', w')" "pqueue_inv q' w'"
    "mset (elements q) = add_mset (elements q ! i) (mset (elements q'))" "same_kind q w q' w'"
    "records pos q \<longrightarrow> distinct (elements q) \<longrightarrow> tracked pos q w \<longrightarrow> tracked pos q' w'"
proof (cases "i = nat (size_q q) - 1")
  case True
  let ?q = "q\<lparr>size_q := size_q q - 1\<rparr>" and ?w = "notify q (array q ! i) (int i) w"
  have wf: "wf_pqueue q" "0 < size_q q" using inv i by (auto simp: pqueue_inv_def)
  have r: "refill i q w = Some (?q, ?w)" using refill_last [OF inv True] wf by simp
  have len: "i < length (array q)" "nat (size_q q - 1) = i" using wf True by (auto simp: wf_pqueue_def)
  have si: "nat (size_q q) = Suc i" using True i by linarith
  have el: "elements ?q = take i (elements q)" "elements q = take i (elements q) @ [array q ! i]"
    using len by (simp_all add: elements_def si take_Suc_conv_app_nth)
  have ei: "elements q ! i = array q ! i" using i by (simp add: elements_def)
  have c: "cmp q ?w = cmp q w" "stable ?q" using inv stable_cong [of ?q q] by (simp_all add: pqueue_inv_def stable_def)
  have "tracked pos ?q ?w" if t: "records pos q" "distinct (elements q)" "tracked pos q w"
    unfolding tracked_def
  proof (intro allI impI)
    fix j
    assume "j < length (elements ?q)"
    then have j: "j < i" "j < length (elements q)" "i < length (elements q)"
      using el(1) i wf wf_elements [of q] by simp_all
    then have "elements q ! j \<noteq> elements q ! i" using t(2) by (simp add: nth_eq_iff_index_eq)
    then show "pos ?w (elements ?q ! j) = int j"
      using t j by (simp add: el(1) ei records_def tracked_def)
  qed
  moreover have "pqueue_inv ?q ?w"
    using inv c wf is_heap_take [of _ "elements q" i] by (auto simp: pqueue_inv_def wf_pqueue_def el(1))
  moreover have "mset (elements q) = add_mset (elements q ! i) (mset (elements ?q))"
    by (subst el(2)) (simp add: el(1) ei)
  ultimately show ?thesis using r c by (intro that [of ?q ?w]) (simp_all add: same_kind_def)
next
  case False
  define n l where "n = nat (size_q q) - 1" and "l = array q ! n"
  define q1 where "q1 = q\<lparr>size_q := size_q q - 1, array := (array q)[i := l]\<rparr>"
  have wf: "wf_pqueue q" using inv by (simp add: pqueue_inv_def)
  have n: "i < n" "Suc n = nat (size_q q)" "Suc n < length (array q)" "nat (size_q q1) = n"
    using False i wf by (auto simp: n_def wf_pqueue_def q1_def)
  have s: "settles pos n i l q1 w (refill i q w)"
    using refill_settles [OF inv, of i pos] n(1) by (simp add: n_def l_def q1_def)
  have f: "filled_in q1 n i l = (take n (array q))[i := l]" by (simp add: filled_in_def q1_def take_update_swap)
  obtain xs w' where r: "refill i q w = Some (q1\<lparr>array := xs\<rparr>, w')"
    "length xs = length (array q1)" "mset (take n xs) = mset ((take n (array q))[i := l])" "cmp q1 w' = cmp q1 w"
    "is_heap (cmp q1 w) (take n xs)"
    "records pos q1 \<longrightarrow> distinct ((take n (array q))[i := l]) \<longrightarrow> tracked_but pos ((take n (array q))[i := l]) i w
      \<longrightarrow> (\<forall>j < n. pos w' (take n xs ! j) = int j)"
    by (rule settlesE [OF s f])
  let ?q = "q1\<lparr>array := xs\<rparr>"
  have el: "elements ?q = take n xs" using n by (simp add: elements_def)
  have eq: "elements q = take (Suc n) (array q)" by (simp add: elements_def n(2))
  have m: "mset (elements q) = add_mset (elements q ! i) (mset ((take n (array q))[i := l]))"
    using take_last_mset [of "Suc n" "array q" i] n(1,3) eq by (simp add: l_def take_update_swap)
  have "tracked pos ?q w'" if t: "records pos q" "distinct (elements q)" "tracked pos q w"
  proof -
    have "distinct ((take n (array q))[i := l])"
      using t(2) m mset_eq_imp_distinct_iff [of "elements q" "elements q ! i # (take n (array q))[i := l]"] by simp
    moreover have "tracked_but pos ((take n (array q))[i := l]) i w"
      using t(3) n by (auto simp: tracked_but_def tracked_def elements_def)
    moreover have "records pos q1" using t(1) records_cong [of q1 q pos] by (simp add: q1_def)
    ultimately have "\<forall>j < n. pos w' (take n xs ! j) = int j" using r(6) by blast
    then show ?thesis by (simp add: tracked_def el)
  qed
  moreover have "stable ?q" using inv stable_cong [of ?q q] by (simp add: pqueue_inv_def q1_def)
  then have "pqueue_inv ?q w'"
    using inv r n wf by (auto simp: pqueue_inv_def wf_pqueue_def el) (auto simp: q1_def)
  moreover have "same_kind q w ?q w'" using r(4) by (simp add: same_kind_def q1_def)
  ultimately show ?thesis using r(1,3) m by (intro that [of ?q w']) (simp_all add: el)
qed


lemma pqueue_remove_at_refill:
  assumes "pqueue_inv q w" "i < nat (size_q q)"
  shows "pqueue_remove_at (int i) q w = refill i q w"
proof -
  define n where "n = nat (size_q q) - 1"
  have wf: "wf_pqueue q" using assms by (simp add: pqueue_inv_def)
  then have n: "size_q q - 1 = int n" "n < length (array q)" "i < length (array q)" "i \<le> n"
    using assms(2) by (auto simp: n_def wf_pqueue_def)
  let ?l = "array q ! n" and ?q = "q\<lparr>size_q := int n, array := (array q)[i := array q ! n]\<rparr>"
  have g: "get_at (q\<lparr>size_q := int n\<rparr>) (int n) = Some ?l" "set_at (q\<lparr>size_q := int n\<rparr>) (int i) ?l = Some ?q"
    using n by (simp_all add: get_at_int set_at_int)
  have r: "refill i q w = (if 0 < i \<and> cmp q w ?l (array q ! ((i - 1) div 2)) < 0 then trickle_up (int i) ?q w
      else trickle_down (int i) ?q w)"
    by (simp only: refill_def Let_def n(1) n_def [symmetric])
  have p: "get_at ?q (PARENT_OF (int i)) = Some (array q ! ((i - 1) div 2))" if "0 < i"
  proof -
    have "(i - 1) div 2 < i" using that by linarith
    then show ?thesis using n by (simp add: PARENT_OF_int [OF that] get_at_int)
  qed
  show ?thesis
    using g r by (cases "0 < i") (simp_all add: pqueue_remove_at_def Let_def n(1) p)
qed

lemma pqueue_dequeue_refill:
  assumes "pqueue_inv q w" "0 < size_q q"
  shows "pqueue_dequeue q w = map_option (\<lambda>(q', w'). (elements q ! 0, q', w')) (refill 0 q w)"
proof -
  define n where "n = nat (size_q q) - 1"
  have wf: "wf_pqueue q" using assms by (simp add: pqueue_inv_def)
  then have n: "size_q q - 1 = int n" "n < length (array q)" "0 < length (array q)"
    using assms(2) by (auto simp: n_def wf_pqueue_def)
  let ?l = "array q ! n" and ?q = "q\<lparr>size_q := int n, array := (array q)[0 := array q ! n]\<rparr>"
  have g: "get_at q 0 = Some (elements q ! 0)" "get_at (q\<lparr>size_q := int n\<rparr>) (int n) = Some ?l"
    "set_at (q\<lparr>size_q := int n\<rparr>) 0 ?l = Some ?q"
    using n assms(2) get_at_int [of 0 q] set_at_int [of 0 "q\<lparr>size_q := int n\<rparr>"]
    by (simp_all add: get_at_int elements_def)
  have r: "refill 0 q w = trickle_down 0 ?q w"
    by (simp only: refill_def Let_def n(1) n_def [symmetric]) simp
  show ?thesis
    by (cases "trickle_down 0 ?q w") (simp_all add: pqueue_dequeue_def Let_def n(1) g r split_beta)
qed

lemma dequeue_ok:
  assumes inv: "pqueue_inv q w" and ne: "elements q \<noteq> []"
  obtains q' w' where "pqueue_dequeue q w = Some (elements q ! 0, q', w')" "pqueue_inv q' w'"
    "mset (elements q) = add_mset (elements q ! 0) (mset (elements q'))" "same_kind q w q' w'"
    "records pos q \<longrightarrow> distinct (elements q) \<longrightarrow> tracked pos q w \<longrightarrow> tracked pos q' w'"
proof -
  have s: "0 < size_q q" "0 < nat (size_q q)" using ne by (auto simp: elements_def)
  show ?thesis
    by (rule refill_ok [OF inv s(2), of pos]) (rule that, simp_all add: pqueue_dequeue_refill [OF inv s(1)])
qed

lemma remove_at_ok:
  assumes inv: "pqueue_inv q w" and i: "i < length (elements q)"
  obtains q' w' where "pqueue_remove_at (int i) q w = Some (q', w')" "pqueue_inv q' w'"
    "mset (elements q) = add_mset (elements q ! i) (mset (elements q'))" "same_kind q w q' w'"
    "records pos q \<longrightarrow> distinct (elements q) \<longrightarrow> tracked pos q w \<longrightarrow> tracked pos q' w'"
proof -
  have s: "i < nat (size_q q)" using i by (simp add: elements_def)
  show ?thesis
    by (rule refill_ok [OF inv s, of pos]) (rule that, simp_all add: pqueue_remove_at_refill [OF inv s])
qed


section \<open>The interface of a priority queue\<close>

text \<open>
  What a user of a priority queue relies on. Operations may fail, but not on a queue that satisfies
  the invariant.
\<close>

locale priority_queue =
  fixes inv :: "'q \<Rightarrow> bool" and contents :: "'q \<Rightarrow> 'a multiset" and before :: "'q \<Rightarrow> 'a \<Rightarrow> 'a \<Rightarrow> bool"
    and enq :: "'a \<Rightarrow> 'q \<Rightarrow> 'q option" and deq :: "'q \<Rightarrow> ('a \<times> 'q) option"
  assumes enq_law: "inv q \<Longrightarrow> \<exists>q'. enq x q = Some q' \<and> inv q' \<and> contents q' = add_mset x (contents q) \<and> before q' = before q"
    and deq_law: "inv q \<Longrightarrow> contents q \<noteq> {#} \<Longrightarrow>
      \<exists>x q'. deq q = Some (x, q') \<and> inv q' \<and> contents q = add_mset x (contents q') \<and> before q' = before q
        \<and> (\<forall>y \<in># contents q. before q x y)"

text \<open>Adding a list of elements, and taking elements out \<open>n\<close> times.\<close>

fun fill_queue :: "('a \<Rightarrow> 'q \<Rightarrow> 'q option) \<Rightarrow> 'a list \<Rightarrow> 'q \<Rightarrow> 'q option" where
  "fill_queue enq [] q = Some q"
| "fill_queue enq (x # xs) q = do { q \<leftarrow> enq x q; fill_queue enq xs q }"

fun drain_queue :: "('q \<Rightarrow> ('a \<times> 'q) option) \<Rightarrow> nat \<Rightarrow> 'q \<Rightarrow> 'a list option" where
  "drain_queue deq 0 q = Some []"
| "drain_queue deq (Suc n) q = do { (x, q) \<leftarrow> deq q; xs \<leftarrow> drain_queue deq n q; Some (x # xs) }"

context priority_queue
begin

lemma fill_ok:
  "inv q \<Longrightarrow> \<exists>q'. fill_queue enq xs q = Some q' \<and> inv q' \<and> contents q' = mset xs + contents q \<and> before q' = before q"
proof (induction xs arbitrary: q)
  case (Cons x xs)
  from enq_law [OF Cons.prems] obtain q' where q': "enq x q = Some q'" "inv q'"
    "contents q' = add_mset x (contents q)" "before q' = before q" by blast
  from Cons.IH [OF q'(2)] q' show ?case by auto
qed simp

lemma drain_ok:
  "inv q \<Longrightarrow> size (contents q) = n \<Longrightarrow>
   \<exists>xs. drain_queue deq n q = Some xs \<and> mset xs = contents q \<and> sorted_wrt (before q) xs"
proof (induction n arbitrary: q)
  case (Suc n)
  from Suc.prems have "contents q \<noteq> {#}" by auto
  from deq_law [OF Suc.prems(1) this] obtain x q' where q': "deq q = Some (x, q')" "inv q'"
    "contents q = add_mset x (contents q')" "before q' = before q" "\<forall>y \<in># contents q. before q x y" by blast
  with Suc.prems have "size (contents q') = n" by simp
  from Suc.IH [OF q'(2) this] obtain xs where xs: "drain_queue deq n q' = Some xs" "mset xs = contents q'"
    "sorted_wrt (before q') xs" by blast
  have "set xs \<subseteq> set_mset (contents q)" using xs(2) q'(3) by (metis set_mset_mset set_mset_add_mset_insert subset_insertI)
  then have "sorted_wrt (before q) (x # xs)" using xs(3) q'(4,5) by auto
  then show ?case using xs q' by (intro exI [of _ "x # xs"]) simp
qed simp

lemma sorts:
  assumes "inv q" "contents q = {#}"
  shows "\<exists>q' ys. fill_queue enq xs q = Some q' \<and> drain_queue deq (length xs) q' = Some ys \<and> mset ys = mset xs
    \<and> sorted_wrt (before q) ys"
proof -
  from fill_ok [OF assms(1), of xs] obtain q' where "fill_queue enq xs q = Some q'" "inv q'"
    "contents q' = mset xs" "before q' = before q" by (auto simp: assms(2))
  then show ?thesis using drain_ok [of q' "length xs"] by auto
qed

end

text \<open>The binary heap of \<^verbatim>\<open>pqueue.c\<close> is such a queue; its state is the heap and what its elements point to.\<close>

interpretation binary_heap: priority_queue "\<lambda>(q, w). pqueue_inv q w" "\<lambda>(q, w). mset (elements q)"
  "\<lambda>(q, w) x y. cmp q w x y \<le> 0" "\<lambda>x (q, w). pqueue_enqueue True null x q w" "\<lambda>(q, w). pqueue_dequeue q w"
  for null
proof (unfold_locales, goal_cases)
  case (1 s x)
  obtain q w where s: "s = (q, w)" by fastforce
  with 1 have inv: "pqueue_inv q w" by simp
  obtain q' w' where "pqueue_enqueue True null x q w = Some (q', w')" "pqueue_inv q' w'"
    "mset (elements q') = add_mset x (mset (elements q))" "same_kind q w q' w'"
    by (rule enqueue_ok [OF inv, of null x "\<lambda>_ _. 0"])
  then show ?case unfolding s by (simp add: same_kind_def)
next
  case (2 s)
  obtain q w where s: "s = (q, w)" by fastforce
  with 2 have inv: "pqueue_inv q w" and ne: "elements q \<noteq> []" by auto
  have "orders (cmp q w)" "is_heap (cmp q w) (elements q)" using inv by (simp_all add: pqueue_inv_def)
  then have "\<forall>y \<in># mset (elements q). cmp q w (elements q ! 0) y \<le> 0"
    using is_heap_least by (auto simp: in_set_conv_nth)
  moreover obtain q' w' where "pqueue_dequeue q w = Some (elements q ! 0, q', w')" "pqueue_inv q' w'"
    "mset (elements q) = add_mset (elements q ! 0) (mset (elements q'))" "same_kind q w q' w'"
    by (rule dequeue_ok [OF inv ne, of "\<lambda>_ _. 0"])
  ultimately show ?case unfolding s by (simp add: same_kind_def)
qed


section \<open>Histories\<close>

text \<open>The states a queue goes through when elements are added once each, taken out and removed.\<close>

inductive queue_history :: "'a \<Rightarrow> ('a, 'w) pqueue \<Rightarrow> 'w \<Rightarrow> ('a, 'w) pqueue \<Rightarrow> 'w \<Rightarrow> bool" for null q0 w0 where
  start: "queue_history null q0 w0 q0 w0"
| enqueue: "queue_history null q0 w0 q w \<Longrightarrow> x \<notin> set (elements q) \<Longrightarrow>
    pqueue_enqueue True null x q w = Some (q', w') \<Longrightarrow> queue_history null q0 w0 q' w'"
| dequeue: "queue_history null q0 w0 q w \<Longrightarrow> elements q \<noteq> [] \<Longrightarrow>
    pqueue_dequeue q w = Some (x, q', w') \<Longrightarrow> queue_history null q0 w0 q' w'"
| remove: "queue_history null q0 w0 q w \<Longrightarrow> i < length (elements q) \<Longrightarrow>
    pqueue_remove_at (int i) q w = Some (q', w') \<Longrightarrow> queue_history null q0 w0 q' w'"

definition good_queue :: "('w \<Rightarrow> 'a \<Rightarrow> int) \<Rightarrow> ('a, 'w) pqueue \<Rightarrow> 'w \<Rightarrow> bool" where
  "good_queue pos q w \<longleftrightarrow> pqueue_inv q w \<and> records pos q \<and> distinct (elements q) \<and> tracked pos q w"

lemma distinct_by_mset: "distinct xs \<Longrightarrow> mset xs = add_mset x (mset ys) \<Longrightarrow> distinct ys"
  using mset_eq_imp_distinct_iff [of xs "x # ys"] by simp

lemma same_kind_records: "same_kind q w q' w' \<Longrightarrow> records pos q' = records pos q"
  unfolding same_kind_def by (elim conjE) (rule records_cong)

lemma good_history:
  assumes "queue_history null q0 w0 q w" "good_queue pos q0 w0"
  shows "good_queue pos q w"
  using assms
proof (induction rule: queue_history.induct)
  case (enqueue q w x q' w')
  then have inv: "pqueue_inv q w" and g: "records pos q" "distinct (x # elements q)" "tracked pos q w"
    by (simp_all add: good_queue_def)
  obtain q1 w1 where r: "pqueue_enqueue True null x q w = Some (q1, w1)" "pqueue_inv q1 w1"
    "mset (elements q1) = add_mset x (mset (elements q))" "same_kind q w q1 w1"
    "records pos q \<longrightarrow> distinct (x # elements q) \<longrightarrow> tracked pos q w \<longrightarrow> tracked pos q1 w1"
    by (rule enqueue_ok [OF inv])
  have "distinct (elements q1)" using g(2) r(3) mset_eq_imp_distinct_iff [of "elements q1" "x # elements q"] by simp
  then show ?case using r g enqueue.hyps(3) same_kind_records [OF r(4)] by (simp add: good_queue_def)
next
  case (dequeue q w x q' w')
  then have inv: "pqueue_inv q w" and g: "records pos q" "distinct (elements q)" "tracked pos q w"
    by (simp_all add: good_queue_def)
  obtain q1 w1 where r: "pqueue_dequeue q w = Some (elements q ! 0, q1, w1)" "pqueue_inv q1 w1"
    "mset (elements q) = add_mset (elements q ! 0) (mset (elements q1))" "same_kind q w q1 w1"
    "records pos q \<longrightarrow> distinct (elements q) \<longrightarrow> tracked pos q w \<longrightarrow> tracked pos q1 w1"
    by (rule dequeue_ok [OF inv dequeue.hyps(2)])
  then show ?case
    using g dequeue.hyps(3) same_kind_records [OF r(4)] distinct_by_mset [OF g(2) r(3)] by (simp add: good_queue_def)
next
  case (remove q w i q' w')
  then have inv: "pqueue_inv q w" and g: "records pos q" "distinct (elements q)" "tracked pos q w"
    by (simp_all add: good_queue_def)
  obtain q1 w1 where r: "pqueue_remove_at (int i) q w = Some (q1, w1)" "pqueue_inv q1 w1"
    "mset (elements q) = add_mset (elements q ! i) (mset (elements q1))" "same_kind q w q1 w1"
    "records pos q \<longrightarrow> distinct (elements q) \<longrightarrow> tracked pos q w \<longrightarrow> tracked pos q1 w1"
    by (rule remove_at_ok [OF inv remove.hyps(2)])
  then show ?case
    using g remove.hyps(3) same_kind_records [OF r(4)] distinct_by_mset [OF g(2) r(3)] by (simp add: good_queue_def)
qed

lemma pqueue_create_inv: "orders (c w) \<Longrightarrow> pqueue_inv (pqueue_create null c) w"
  by (simp add: pqueue_inv_def pqueue_create_def wf_pqueue_def PQUEUE_INIT_ARRAYSIZE_def elements_def
      is_heap_def stable_def notify_def)

lemma int_orders: "orders (\<lambda>a b. a - b :: int)"
  by (simp add: orders_def)

text \<open>A queue of integers that notes their positions.\<close>

definition demo_queue :: "(int, int \<Rightarrow> int) pqueue" where
  "demo_queue = (pqueue_create 0 (\<lambda>w a b. a - b))\<lparr>update := Some (\<lambda>v i w. w(v := i))\<rparr>"

lemma demo_queue_ok: "pqueue_inv demo_queue w" "records (\<lambda>w. w) demo_queue" "elements demo_queue = []"
  using int_orders
  by (simp_all add: demo_queue_def pqueue_inv_def pqueue_create_def wf_pqueue_def PQUEUE_INIT_ARRAYSIZE_def
      elements_def is_heap_def stable_def records_def notify_def)

section \<open>Properties\<close>

text \<open>
  C24. Taking an element out of a queue that is not empty succeeds, returns an element that no other is
  before, and leaves exactly the others, again as a heap.
\<close>

theorem pqueue_dequeue_least:
  assumes "pqueue_inv q w" "elements q \<noteq> []"
  shows "\<exists>x q' w'. pqueue_dequeue q w = Some (x, q', w') \<and> pqueue_inv q' w'
           \<and> mset (elements q) = add_mset x (mset (elements q')) \<and> (\<forall>y \<in> set (elements q). cmp q w x y \<le> 0)"
  using binary_heap.deq_law [of "(q, w)"] assms by auto

theorem pqueue_dequeue_least_witness:
  "\<exists>q w. elements q \<noteq> [] \<and> (\<exists>x q' w'. pqueue_dequeue q (w :: int \<Rightarrow> int) = Some (x :: int, q', w') \<and> pqueue_inv q' w')"
proof -
  obtain q w where "pqueue_enqueue True 0 7 demo_queue (\<lambda>_. 0) = Some (q, w)" "pqueue_inv q w"
    "mset (elements q) = add_mset 7 (mset (elements demo_queue))"
    by (rule enqueue_ok [OF demo_queue_ok(1), where null = 0 and d = 7 and w = "\<lambda>_. 0" and pos = "\<lambda>w. w"])
  then have "pqueue_inv q w" "elements q \<noteq> []" by auto
  with pqueue_dequeue_least [OF this] show ?thesis by blast
qed





end
