(* ===== verification/Plugins_Manager.thy ===== *)
theory Plugins_Manager
  imports Ubpf_Loader Ubpf_Exec Checksum "HOL-Library.Monad_Syntax"
begin

text \<open>
  The manager of the plugins: \<^verbatim>\<open>src/ubpf/tools/ubpf_manager.c\<close>, which loads pluglets into virtual machines and
  executes them, and \<^verbatim>\<open>src/ospfd/plugins_manager/plugins_manager.c\<close>, which keeps the table of the plugins and
  handles the messages of the user interface \<^verbatim>\<open>plugins_ui.c\<close>.

  An operation has the value \<open>None\<close> when it does not return: it follows a pointer that is NULL, freed or not
  initialised, or it waits for a mutex that its own thread holds.
\<close>

section \<open>Objects\<close>

definition MAX_NBR_PLUGLETS :: nat where "MAX_NBR_PLUGLETS = 10"
definition MAX_NBR_PLUGINS :: nat where "MAX_NBR_PLUGINS = 30"
definition PRE :: int where "PRE = 0"
definition REP :: int where "REP = 1"
definition POST :: int where "POST = 2"

text \<open>The parent plugin is given by its place in the table, where it stays until it is released.\<close>

record pluglet_context =
  original_arg :: u64
  type_arg :: int
  context_heap :: u64
  parent_plugin :: nat

text \<open>
  What the registered functions see beside the memory: the global variable \<^verbatim>\<open>current_context\<close> and the rest of the daemon.
\<close>

type_synonym 'w penv = "pluglet_context option \<times> 'w"

record 'w pluglet =
  pluglet_vm :: "'w penv ubpf_vm"
  pluglet_ctx :: "pluglet_context option"

record plugin =
  pluglets_PRE :: "nat option list"
  pluglet_REP :: "nat option"
  pluglets_POST :: "nat option list"
  plugin_heap :: u64
  arguments :: u64
  plugin_type_arg :: int

text \<open>
  The table, the pluglet objects (\<open>Some None\<close> is one that was allocated and not yet filled in), the mutex
  \<^verbatim>\<open>lock_current_context\<close>, the pluglet whose context is the current one, and what destroyed machines gave back.
\<close>

record 'w manager =
  plugins :: "plugin option list"
  pluglets :: "nat \<Rightarrow> 'w pluglet option option"
  next_pluglet :: nat
  context_locked :: bool
  current_context :: "nat option"
  given_back :: "release list"

text \<open>
  The operating system: the bytes of a readable file with whether reading ends in an error, and the
  allocations that succeed.
\<close>

datatype alloc_site = Plugin_Object | Pluglet_Object | Context_Object | File_Buffer | Vm_Object nat | Text_Copy | Insts

record os =
  files :: "string \<Rightarrow> (u8 list \<times> bool) option"
  granted :: "alloc_site \<Rightarrow> bool"

section \<open>Loading a pluglet\<close>

text \<open>The functions of the API with their numbers, in the order of their registration.\<close>

definition api_functions :: "(nat \<times> string) list" where
  "api_functions =
     [(0x01, ''strcpy''), (0x02, ''gettimeofday''), (0x0a, ''plugin_ntohl''), (0x0b, ''plugin_ntohs''),
      (0x0c, ''print_helper''), (0x0d, ''lsa_head_dump''), (0x03, ''send_data''),
      (0x10, ''get_ospf_interface''), (0x11, ''get_interface''), (0x12, ''get_ospf_lsa''), (0x13, ''get_lsa_header''),
      (0x14, ''get_ospf_area''), (0x15, ''get_ospf''), (0x16, ''get_vertex''), (0x17, ''get_lsa_with_length''),
      (0x18, ''get_ospf_interface_list''), (0x9, ''get_candidate''),
      (0x30, ''set_ospf_area''), (0x31, ''set_ospf_interface''),
      (0x24, ''plugin_malloc''), (0x25, ''plugin_free''), (0x26, ''plugin_realloc''), (0x27, ''plugin_memcpy''),
      (0x28, ''plugin_malloc_with_id''), (0x29, ''plugin_get_memory_with_id''),
      (0x5, ''plugin_ospf_flood_through_area''), (0x6, ''ospf_if_name_string''), (0x7, ''plugin_ospf_lsa_install''),
      (0x8, ''my_get_lsah''), (0x19, ''plugin_trickle_up''), (0x1a, ''plugin_ospf_lsa_has_link''),
      (0x1b, ''plugin_ospf_lsa_lookup_by_id''), (0x1c, ''plugin_ospf_lsa_lookup''),
      (0x1d, ''plugin_ospf_nexthop_calculation''), (0x1e, ''plugin_pqueue_enqueue''), (0x1f, ''plugin_ospf_vertex_new''),
      (0x2a, ''plugin_lsa_link_broadcast_set''), (0x2b, ''plugin_ospf_lsa_new_and_data'')]"

fun register_all :: "(string \<Rightarrow> 'w ext_func) \<Rightarrow> (nat \<times> string) list \<Rightarrow> 'w ubpf_vm \<Rightarrow> int \<times> 'w ubpf_vm" where
  "register_all api [] vm = (1, vm)"
| "register_all api ((idx, name) # fs) vm =
     (case ubpf_register vm idx name (api name) of
        (r, vm) \<Rightarrow> if r = - 1 then (0, vm) else register_all api fs vm)"

definition register_functions :: "(string \<Rightarrow> 'w ext_func) \<Rightarrow> 'w ubpf_vm \<Rightarrow> int \<times> 'w ubpf_vm" where
  "register_functions api vm = register_all api api_functions vm"

text \<open>
  The loop reads up to \<open>maxlen\<close> bytes. The end of the file is only noticed by a read that gets fewer bytes
  than it asked for, so that a file of exactly \<open>maxlen\<close> bytes is too large.  The buffer is not tested for NULL.
\<close>

definition readfile :: "os \<Rightarrow> string \<Rightarrow> nat \<Rightarrow> u8 list option option" where
  "readfile os path maxlen =
     (case files os path of
        None \<Rightarrow> Some None
      | Some (bytes, failed) \<Rightarrow>
          if \<not> granted os File_Buffer \<and> bytes \<noteq> [] then None
          else if failed then Some None
          else if length bytes \<ge> maxlen then Some None
          else if \<not> granted os File_Buffer then Some None
          else Some (Some bytes))"

definition is_elf :: "u8 list \<Rightarrow> bool" where
  "is_elf code \<longleftrightarrow> 4 \<le> length code \<and> take 4 code = [127, 69, 76, 70]"

definition load_code :: "os \<Rightarrow> 'w ubpf_vm \<Rightarrow> u8 list \<Rightarrow> 'w ubpf_vm option" where
  "load_code os vm code =
     (if is_elf code then
        (case ubpf_load_elf (granted os Text_Copy, granted os Insts) vm code of Inl e \<Rightarrow> None | Inr vm \<Rightarrow> Some vm)
      else
        (case ubpf_load (granted os Insts) vm code (of_nat (length code)) of Inl e \<Rightarrow> None | Inr vm \<Rightarrow> Some vm))"

definition free_pluglet :: "nat \<Rightarrow> 'w manager \<Rightarrow> 'w manager" where
  "free_pluglet p m = m\<lparr>pluglets := (pluglets m)(p := None)\<rparr>"

definition load_elf ::
    "(string \<Rightarrow> 'w penv ext_func) \<Rightarrow> os \<Rightarrow> nat option \<Rightarrow> u8 list \<Rightarrow> 'w manager \<Rightarrow> (nat option \<times> 'w manager) option" where
  "load_elf api os pluglet code m =
     (case pluglet of
        None \<Rightarrow> Some (None, m)
      | Some p \<Rightarrow> do {
          _ \<leftarrow> pluglets m p;
          case ubpf_create (\<lambda>k. granted os (Vm_Object k)) of
            None \<Rightarrow> Some (None, free_pluglet p m)
          | Some vm \<Rightarrow>
              let vm = snd (register_functions api vm)
              in (case load_code os vm code of
                    None \<Rightarrow> Some (None, free_pluglet p (m\<lparr>given_back := given_back m @ ubpf_destroy vm\<rparr>))
                  | Some vm \<Rightarrow>
                      Some (Some p, m\<lparr>pluglets := (pluglets m)(p \<mapsto> Some \<lparr>pluglet_vm = vm, pluglet_ctx = None\<rparr>)\<rparr>)) })"

definition load_elf_file ::
    "(string \<Rightarrow> 'w penv ext_func) \<Rightarrow> os \<Rightarrow> nat option \<Rightarrow> string \<Rightarrow> 'w manager \<Rightarrow> (nat option \<times> 'w manager) option" where
  "load_elf_file api os pluglet code_filename m = do {
     code \<leftarrow> readfile os code_filename (1024 * 1024);
     case code of
       None \<Rightarrow> Some (None, m)
     | Some code \<Rightarrow> load_elf api os pluglet code m }"

definition release_elf :: "nat option \<Rightarrow> 'w manager \<Rightarrow> 'w manager option" where
  "release_elf pluglet m =
     (case pluglet of
        None \<Rightarrow> Some m
      | Some p \<Rightarrow> do {
          cell \<leftarrow> pluglets m p;
          pl \<leftarrow> cell;
          Some (free_pluglet p (m\<lparr>given_back := given_back m @ ubpf_destroy (pluglet_vm pl)\<rparr>)) })"

section \<open>Executing a pluglet\<close>

definition plugin_at :: "'w manager \<Rightarrow> nat \<Rightarrow> plugin option" where
  "plugin_at m i = (if i < length (plugins m) then plugins m ! i else None)"

definition set_context :: "nat \<Rightarrow> pluglet_context \<Rightarrow> 'w manager \<Rightarrow> 'w manager option" where
  "set_context p ctx m = do {
     cell \<leftarrow> pluglets m p;
     pl \<leftarrow> cell;
     Some (m\<lparr>pluglets := (pluglets m)(p \<mapsto> Some (pl\<lparr>pluglet_ctx := Some ctx\<rparr>))\<rparr>) }"

text \<open>
  \<open>run\<close> executes the machine of the pluglet: the interpreter in \<^verbatim>\<open>exec_loaded_code\<close>, the compiled program in
  \<^verbatim>\<open>compile_and_exec_jit\<close>.  Its value is the result with the memory and the world afterwards.
\<close>

definition in_context ::
    "nat \<Rightarrow> u64 \<Rightarrow> ('w pluglet \<Rightarrow> 'w penv \<Rightarrow> (u64 \<times> memory \<times> 'w penv) option) \<Rightarrow> 'w \<Rightarrow> 'w manager \<Rightarrow>
     (u64 \<times> memory \<times> 'w \<times> 'w manager) option" where
  "in_context p mem run w m = do {
     cell \<leftarrow> pluglets m p;
     pl \<leftarrow> cell;
     ctx \<leftarrow> pluglet_ctx pl;
     parent \<leftarrow> plugin_at m (parent_plugin ctx);
     let ctx = ctx\<lparr>original_arg := mem, context_heap := plugin_heap parent, type_arg := plugin_type_arg parent\<rparr>;
     m \<leftarrow> set_context p ctx (m\<lparr>current_context := Some p\<rparr>);
     (ret, bytes, (_, w)) \<leftarrow> run pl (Some ctx, w);
     m \<leftarrow> set_context p (ctx\<lparr>original_arg := 0, type_arg := - 1, context_heap := 0\<rparr>) m;
     Some (ret, bytes, w, m\<lparr>current_context := None, context_locked := False\<rparr>) }"

definition interpret_pluglet ::
    "nat \<Rightarrow> u64 \<Rightarrow> (4 word \<Rightarrow> u64) \<Rightarrow> u64 \<Rightarrow> u64 \<Rightarrow> memory \<Rightarrow> 'w pluglet \<Rightarrow> 'w penv \<Rightarrow> (u64 \<times> memory \<times> 'w penv) option" where
  "interpret_pluglet fuel stack reg0 mem mem_len bytes pl e =
     (case ubpf_exec fuel (pluglet_vm pl) mem mem_len stack reg0 bytes e of
        Some (Returned ret bytes e) \<Rightarrow> Some (ret, bytes, e)
      | _ \<Rightarrow> None)"

definition exec_loaded_code ::
    "nat \<Rightarrow> u64 \<Rightarrow> (4 word \<Rightarrow> u64) \<Rightarrow> nat option \<Rightarrow> u64 \<Rightarrow> u64 \<Rightarrow> memory \<Rightarrow> 'w \<Rightarrow> 'w manager \<Rightarrow>
     (u64 \<times> memory \<times> 'w \<times> 'w manager) option" where
  "exec_loaded_code fuel stack reg0 pluglet mem mem_len bytes w m =
     (if context_locked m then None
      else
        (let m = m\<lparr>context_locked := True\<rparr>
         in case pluglet of
              None \<Rightarrow> Some (0, bytes, w, m)
            | Some p \<Rightarrow> in_context p mem (interpret_pluglet fuel stack reg0 mem mem_len bytes) w m))"

text \<open>\<open>compile\<close> is \<^verbatim>\<open>ubpf_compile\<close>: the machine afterwards and the function, unless the compilation fails.\<close>

definition compile_and_exec_jit ::
    "('w penv ubpf_vm \<Rightarrow> 'w penv ubpf_vm \<times> (u64 \<Rightarrow> u64 \<Rightarrow> memory \<Rightarrow> 'w penv \<Rightarrow> (u64 \<times> memory \<times> 'w penv) option) option) \<Rightarrow>
     nat option \<Rightarrow> u64 \<Rightarrow> u64 \<Rightarrow> memory \<Rightarrow> 'w \<Rightarrow> 'w manager \<Rightarrow> (u64 \<times> memory \<times> 'w \<times> 'w manager) option" where
  "compile_and_exec_jit compile pluglet mem mem_len bytes w m =
     (if context_locked m then None
      else
        (let m = m\<lparr>context_locked := True\<rparr>
         in case pluglet of
              None \<Rightarrow> Some (0, bytes, w, m)
            | Some p \<Rightarrow> do {
                cell \<leftarrow> pluglets m p;
                pl \<leftarrow> cell;
                let (vm, fn) = compile (pluglet_vm pl);
                let m = m\<lparr>pluglets := (pluglets m)(p \<mapsto> Some (pl\<lparr>pluglet_vm := vm\<rparr>))\<rparr>;
                case fn of
                  None \<Rightarrow> Some (1, bytes, w, m)
                | Some fn \<Rightarrow> in_context p mem (\<lambda>pl. fn mem mem_len bytes) w m }))"

section \<open>The table of the plugins\<close>

text \<open>
  The table is the argument of \<^verbatim>\<open>plugins_tab_init\<close>, but the function assigns to its parameter: it fills in a
  table of its own, which nothing refers to afterwards.
\<close>

definition plugins_tab_init :: "bool \<Rightarrow> 'w manager \<Rightarrow> int \<times> 'w manager" where
  "plugins_tab_init alloc m = (if alloc then 1 else 0, m)"

definition new_plugin :: plugin where
  "new_plugin = \<lparr>pluglets_PRE = replicate MAX_NBR_PLUGLETS None, pluglet_REP = None,
     pluglets_POST = replicate MAX_NBR_PLUGLETS None, plugin_heap = 0, arguments = 0, plugin_type_arg = - 1\<rparr>"

definition malloc_pluglet :: "os \<Rightarrow> 'w manager \<Rightarrow> nat option \<times> 'w manager" where
  "malloc_pluglet os m =
     (if \<not> granted os Pluglet_Object then (None, m)
      else (Some (next_pluglet m),
            m\<lparr>pluglets := (pluglets m)(next_pluglet m \<mapsto> None), next_pluglet := Suc (next_pluglet m)\<rparr>))"

fun first_free :: "nat option list \<Rightarrow> nat" where
  "first_free [] = 0"
| "first_free (None # xs) = 0"
| "first_free (Some _ # xs) = Suc (first_free xs)"

definition set_plugin :: "nat \<Rightarrow> plugin \<Rightarrow> 'w manager \<Rightarrow> 'w manager" where
  "set_plugin i pl m = m\<lparr>plugins := (plugins m)[i := Some pl]\<rparr>"

text \<open>The first part of \<^verbatim>\<open>inject_pluglet\<close>: the plugin is created if need be.\<close>

definition ensure_plugin :: "os \<Rightarrow> nat \<Rightarrow> 'w manager \<Rightarrow> (plugin \<times> 'w manager) option" where
  "ensure_plugin os i m =
     (case plugin_at m i of
        Some pl \<Rightarrow> Some (pl, m)
      | None \<Rightarrow> if \<not> granted os Plugin_Object then None else Some (new_plugin, set_plugin i new_plugin m))"

text \<open>
  The second part: a pluglet object is allocated and put into the table at the anchor.  The value is
  \<open>None\<close> when the function returns 0 at this point.
\<close>

definition place_pluglet :: "os \<Rightarrow> nat \<Rightarrow> int \<Rightarrow> plugin \<Rightarrow> 'w manager \<Rightarrow> nat option \<times> 'w manager" where
  "place_pluglet os i anchor pl m =
     (if anchor = PRE then
        (let j = first_free (pluglets_PRE pl)
         in if j = 10 then (None, m)
            else (case malloc_pluglet os m of
                    (p, m) \<Rightarrow> (p, set_plugin i (pl\<lparr>pluglets_PRE := (pluglets_PRE pl)[j := p]\<rparr>) m)))
      else if anchor = REP then
        (if pluglet_REP pl \<noteq> None then (None, m)
         else (case malloc_pluglet os m of (p, m) \<Rightarrow> (p, set_plugin i (pl\<lparr>pluglet_REP := p\<rparr>) m)))
      else if anchor = POST then
        (let j = first_free (pluglets_POST pl)
         in if j = 10 then (None, m)
            else (case malloc_pluglet os m of
                    (p, m) \<Rightarrow> (p, set_plugin i (pl\<lparr>pluglets_POST := (pluglets_POST pl)[j := p]\<rparr>) m)))
      else (None, m))"

text \<open>The third part: the code is loaded and the context is made, whose allocation is not tested.\<close>

definition fill_pluglet ::
    "(string \<Rightarrow> 'w penv ext_func) \<Rightarrow> os \<Rightarrow> nat \<Rightarrow> nat \<Rightarrow> string \<Rightarrow> 'w manager \<Rightarrow> (int \<times> 'w manager) option" where
  "fill_pluglet api os i p elfname m = do {
     (r, m) \<leftarrow> load_elf_file api os (Some p) elfname m;
     if r = None then Some (0, m)
     else do {
       cell \<leftarrow> pluglets m p;
       pl \<leftarrow> cell;
       if pluglet_ctx pl = None then
         if \<not> granted os Context_Object then None
         else do {
           m \<leftarrow> set_context p \<lparr>original_arg = 0, type_arg = - 1, context_heap = 0, parent_plugin = i\<rparr> m;
           Some (1, m) }
       else Some (1, m) } }"

definition inject_pluglet ::
    "(string \<Rightarrow> 'w penv ext_func) \<Rightarrow> os \<Rightarrow> int \<Rightarrow> string \<Rightarrow> int \<Rightarrow> 'w manager \<Rightarrow> (int \<times> 'w manager) option" where
  "inject_pluglet api os i elfname anchor m =
     (if i < 0 \<or> i > int MAX_NBR_PLUGINS - 1 then Some (0, m)
      else
        (case ensure_plugin os (nat i) m of
           None \<Rightarrow> Some (0, m)
         | Some (pl, m) \<Rightarrow>
             (case place_pluglet os (nat i) anchor pl m of
                (None, m) \<Rightarrow> Some (0, m)
              | (Some p, m) \<Rightarrow> fill_pluglet api os (nat i) p elfname m)))"

text \<open>The pluglets of a plugin in the order in which they are released.\<close>

definition slots :: "plugin \<Rightarrow> nat option list" where
  "slots pl = pluglet_REP pl # concat (map2 (\<lambda>a b. [a, b]) (pluglets_PRE pl) (pluglets_POST pl))"

fun release_slots :: "nat option list \<Rightarrow> 'w manager \<Rightarrow> 'w manager option" where
  "release_slots [] m = Some m"
| "release_slots (p # ps) m = do { m \<leftarrow> release_elf p m; release_slots ps m }"

definition release_plugin :: "nat \<Rightarrow> 'w manager \<Rightarrow> 'w manager option" where
  "release_plugin i m =
     (case plugin_at m i of
        None \<Rightarrow> Some m
      | Some pl \<Rightarrow> do {
          m \<leftarrow> release_slots (slots pl) m;
          Some (m\<lparr>plugins := (plugins m)[i := None]\<rparr>) })"

fun release_plugins :: "nat list \<Rightarrow> 'w manager \<Rightarrow> 'w manager option" where
  "release_plugins [] m = Some m"
| "release_plugins (i # js) m = do { m \<leftarrow> release_plugin i m; release_plugins js m }"

definition release_all_plugins :: "'w manager \<Rightarrow> 'w manager option" where
  "release_all_plugins m = release_plugins [0..<MAX_NBR_PLUGINS] m"

section \<open>Messages of the user interface\<close>

text \<open>The type of a message is a 64-bit \<^verbatim>\<open>long\<close>, which is cut to an \<^verbatim>\<open>int\<close>; division and remainder round to zero.\<close>

definition to_int :: "int \<Rightarrow> int" where
  "to_int x = (x + 2147483648) mod 4294967296 - 2147483648"

definition c_div :: "int \<Rightarrow> int \<Rightarrow> int" where "c_div a b = sgn a * sgn b * (\<bar>a\<bar> div \<bar>b\<bar>)"

definition message_anchor :: "int \<Rightarrow> int" where
  "message_anchor mesg_type = c_rem (to_int mesg_type) 100"

definition message_insertion_point :: "int \<Rightarrow> int" where
  "message_insertion_point mesg_type = c_div (to_int mesg_type - message_anchor mesg_type) 100"

text \<open>What \<^verbatim>\<open>plugins_ui.c\<close> sends for an insertion point and an anchor.\<close>

definition ui_mesg_type :: "int \<Rightarrow> int \<Rightarrow> int" where
  "ui_mesg_type insertion_point anchor = insertion_point * 100 + anchor"

text \<open>
  The results of \<^verbatim>\<open>msgrcv\<close>. The loop ends with an error that is not an interruption; the end of the list
  is waiting for the next message.
\<close>

datatype received = Message int string | Interrupted | Receive_Error

fun plugins_manager :: "(string \<Rightarrow> 'w penv ext_func) \<Rightarrow> os \<Rightarrow> received list \<Rightarrow> 'w manager \<Rightarrow> 'w manager option" where
  "plugins_manager api os [] m = Some m"
| "plugins_manager api os (Message ty text # rs) m = do {
     (_, m) \<leftarrow> inject_pluglet api os (message_insertion_point ty) text (message_anchor ty) m;
     plugins_manager api os rs m }"
| "plugins_manager api os (Interrupted # rs) m = plugins_manager api os rs m"
| "plugins_manager api os (Receive_Error # rs) m = Some m"

end
