(* ===== verification/Plugins_Correct.thy ===== *)
theory Plugins_Correct
  imports Plugins_Manager "HOL-Library.Multiset"
begin

text \<open>
  The table of the plugins owns its pluglets: no pluglet is shared or lost, every one is ready to run, and the
  pluglets of an anchor are kept in the order of their injection.
\<close>

section \<open>The invariant of the table\<close>

definition somes :: "'a option list \<Rightarrow> 'a list" where "somes xs = map the (filter (\<lambda>x. x \<noteq> None) xs)"

definition plugin_refs :: "plugin option \<Rightarrow> nat list" where
  "plugin_refs x = (case x of None \<Rightarrow> [] | Some pl \<Rightarrow> somes (slots pl))"

definition owned :: "'w manager \<Rightarrow> nat multiset" where
  "owned m = mset (concat (map plugin_refs (plugins m)))"

text \<open>The slots of an anchor are used from the first one on.\<close>

definition packed :: "nat option list \<Rightarrow> bool" where
  "packed xs \<longleftrightarrow> (\<exists>ps. xs = map Some ps @ replicate (MAX_NBR_PLUGLETS - length ps) None \<and> length ps \<le> MAX_NBR_PLUGLETS)"

definition plugin_ok :: "plugin \<Rightarrow> bool" where
  "plugin_ok pl \<longleftrightarrow> packed (pluglets_PRE pl) \<and> packed (pluglets_POST pl)"

definition idle :: "nat \<Rightarrow> pluglet_context" where
  "idle i = \<lparr>original_arg = 0, type_arg = - 1, context_heap = 0, parent_plugin = i\<rparr>"

definition pluglet_ok :: "nat \<Rightarrow> 'w pluglet \<Rightarrow> bool" where
  "pluglet_ok i pl \<longleftrightarrow> pluglet_ctx pl = Some (idle i) \<and>
     (case insts (pluglet_vm pl) of None \<Rightarrow> False | Some prog \<Rightarrow> well_formed (pluglet_vm pl) prog)"

definition ready :: "'w manager \<Rightarrow> nat \<Rightarrow> nat \<Rightarrow> bool" where
  "ready m i p \<longleftrightarrow> (case pluglets m p of Some (Some pl) \<Rightarrow> pluglet_ok i pl | _ \<Rightarrow> False)"

text \<open>Every pluglet but those of \<open>X\<close>, which are in the table and not ready, is as it should be.\<close>

definition inv_but :: "nat set \<Rightarrow> 'w manager \<Rightarrow> bool" where
  "inv_but X m \<longleftrightarrow> length (plugins m) = MAX_NBR_PLUGINS \<and>
     (\<forall>i pl. plugin_at m i = Some pl \<longrightarrow> plugin_ok pl \<and> (\<forall>p \<in> set (somes (slots pl)) - X. ready m i p)) \<and>
     (\<forall>p. count (owned m) p = (if p \<in> X \<or> pluglets m p \<noteq> None then 1 else 0)) \<and>
     (\<forall>p \<ge> next_pluglet m. p \<notin> X \<and> pluglets m p = None) \<and>
     \<not> context_locked m \<and> current_context m = None"

definition manager_inv :: "'w manager \<Rightarrow> bool" where "manager_inv m \<longleftrightarrow> inv_but {} m"

text \<open>The pluglets of an anchor, in the order in which they run, and how many it can hold.\<close>

definition plugin_chain :: "plugin \<Rightarrow> int \<Rightarrow> nat list" where
  "plugin_chain pl anchor =
     (if anchor = PRE then somes (pluglets_PRE pl)
      else if anchor = REP then somes [pluglet_REP pl]
      else if anchor = POST then somes (pluglets_POST pl)
      else [])"

definition chain :: "'w manager \<Rightarrow> nat \<Rightarrow> int \<Rightarrow> nat list" where
  "chain m i anchor = (case plugin_at m i of None \<Rightarrow> [] | Some pl \<Rightarrow> plugin_chain pl anchor)"

definition capacity :: "int \<Rightarrow> nat" where
  "capacity anchor = (if anchor = REP then 1 else MAX_NBR_PLUGLETS)"

lemma somes_simps [simp]:
  "somes [] = []" "somes (None # xs) = somes xs" "somes (Some x # xs) = x # somes xs"
  "somes (xs @ ys) = somes xs @ somes ys" "somes (map Some zs) = zs" "somes (replicate n None) = []"
  by (simp_all add: somes_def filter_map comp_def)

lemma set_somes: "p \<in> set (somes xs) \<longleftrightarrow> Some p \<in> set xs"
  by (induction xs) (auto simp: somes_def image_iff)

lemma first_free_packed [simp]: "first_free (map Some ps @ replicate n None) = length ps"
  by (induction ps) (cases n; simp)+

lemma packed_place:
  assumes "packed xs" "first_free xs \<noteq> MAX_NBR_PLUGLETS"
  shows "packed (xs[first_free xs := Some p])" "somes (xs[first_free xs := Some p]) = somes xs @ [p]"
proof -
  obtain ps where ps: "xs = map Some ps @ replicate (MAX_NBR_PLUGLETS - length ps) None" "length ps \<le> MAX_NBR_PLUGLETS"
    using assms(1) by (auto simp: packed_def)
  then have n: "length ps < MAX_NBR_PLUGLETS" and f: "first_free xs = length ps" using assms(2) by auto
  then obtain k where k: "MAX_NBR_PLUGLETS - length ps = Suc k" by (metis Suc_diff_Suc)
  then have "MAX_NBR_PLUGLETS - Suc (length ps) = k" by simp
  then have xs: "xs[first_free xs := Some p] = map Some (ps @ [p]) @ replicate (MAX_NBR_PLUGLETS - length (ps @ [p])) None"
    unfolding f unfolding ps(1) k by (simp add: list_update_append)
  then show "packed (xs[first_free xs := Some p])" using n unfolding packed_def by (intro exI [of _ "ps @ [p]"]) simp
  show "somes (xs[first_free xs := Some p]) = somes xs @ [p]"
    unfolding xs by (simp only: somes_simps map_append) (simp add: ps(1))
qed

lemma packed_length: "packed xs \<Longrightarrow> length xs = MAX_NBR_PLUGLETS"
  by (auto simp: packed_def)

lemma packed_first_free: "packed xs \<Longrightarrow> first_free xs = length (somes xs)"
  by (auto simp: packed_def)

lemma packed_new [simp]: "packed (replicate MAX_NBR_PLUGLETS None)"
  unfolding packed_def by (intro exI [of _ "[]"]) simp

lemma mset_somes: "mset (somes xs) = image_mset the (filter_mset (\<lambda>x. x \<noteq> None) (mset xs))"
  by (simp add: somes_def)

lemma mset_pairs: "length xs = length ys \<Longrightarrow> mset (concat (map2 (\<lambda>a b. [a, b]) xs ys)) = mset xs + mset ys"
  by (induction xs ys rule: list_induct2) simp_all

lemma mset_slots:
  assumes "plugin_ok pl"
  shows "mset (somes (slots pl)) = mset (somes [pluglet_REP pl]) + mset (somes (pluglets_PRE pl)) + mset (somes (pluglets_POST pl))"
  using assms packed_length unfolding slots_def plugin_ok_def
  by (simp add: mset_somes mset_pairs del: somes_simps)

section \<open>Changing the table\<close>

lemma mset_concat_update:
  assumes "i < length xs"
  shows "mset (concat (map f (xs[i := x]))) + mset (f (xs ! i)) = mset (concat (map f xs)) + mset (f x)"
  using assms by (induction xs arbitrary: i) (auto split: nat.splits)

lemma owned_set_plugin:
  assumes "i < length (plugins m)"
  shows "owned (set_plugin i pl m) + mset (plugin_refs (plugins m ! i)) = owned m + mset (somes (slots pl))"
  using mset_concat_update [OF assms, of plugin_refs "Some pl"]
  by (simp add: owned_def set_plugin_def plugin_refs_def)

lemma plugin_at_set_plugin [simp]:
  "i < length (plugins m) \<Longrightarrow> plugin_at (set_plugin i pl m) j = (if j = i then Some pl else plugin_at m j)"
  by (simp add: plugin_at_def set_plugin_def)

text \<open>The pluglet \<open>p\<close> at the next place of an anchor.\<close>

definition add_pluglet :: "int \<Rightarrow> nat \<Rightarrow> plugin \<Rightarrow> plugin" where
  "add_pluglet anchor p pl =
     (if anchor = PRE then pl\<lparr>pluglets_PRE := (pluglets_PRE pl)[first_free (pluglets_PRE pl) := Some p]\<rparr>
      else if anchor = REP then pl\<lparr>pluglet_REP := Some p\<rparr>
      else pl\<lparr>pluglets_POST := (pluglets_POST pl)[first_free (pluglets_POST pl) := Some p]\<rparr>)"

lemmas anchors = PRE_def REP_def POST_def

lemma anchor_has_room:
  assumes "plugin_ok pl" "length (plugin_chain pl anchor) < capacity anchor"
  shows "anchor = PRE \<Longrightarrow> first_free (pluglets_PRE pl) \<noteq> MAX_NBR_PLUGLETS"
    and "anchor = POST \<Longrightarrow> first_free (pluglets_POST pl) \<noteq> MAX_NBR_PLUGLETS"
    and "anchor = REP \<Longrightarrow> pluglet_REP pl = None"
  using assms packed_first_free by (cases "pluglet_REP pl"; force simp: plugin_ok_def plugin_chain_def capacity_def anchors)+

lemma add_pluglet_ok:
  assumes "plugin_ok pl" "anchor \<in> {PRE, REP, POST}" "length (plugin_chain pl anchor) < capacity anchor"
  shows "plugin_ok (add_pluglet anchor p pl)"
    and "plugin_chain (add_pluglet anchor p pl) a = plugin_chain pl a @ (if a = anchor then [p] else [])"
    and "mset (somes (slots (add_pluglet anchor p pl))) = add_mset p (mset (somes (slots pl)))"
proof -
  note room = anchor_has_room [OF assms(1,3)] packed_place
  show ok: "plugin_ok (add_pluglet anchor p pl)"
    using assms room by (auto simp: plugin_ok_def add_pluglet_def)
  show "plugin_chain (add_pluglet anchor p pl) a = plugin_chain pl a @ (if a = anchor then [p] else [])"
    using assms room by (auto simp: plugin_ok_def add_pluglet_def plugin_chain_def anchors)
  show "mset (somes (slots (add_pluglet anchor p pl))) = add_mset p (mset (somes (slots pl)))"
    unfolding mset_slots [OF ok] mset_slots [OF assms(1)]
    using assms room by (auto simp: plugin_ok_def add_pluglet_def anchors)
qed

lemma place_pluglet_add:
  assumes "plugin_ok pl" "anchor \<in> {PRE, REP, POST}" "length (plugin_chain pl anchor) < capacity anchor"
    and "granted os Pluglet_Object"
  shows "place_pluglet os i anchor pl m =
     (Some (next_pluglet m), set_plugin i (add_pluglet anchor (next_pluglet m) pl)
        (m\<lparr>pluglets := (pluglets m)(next_pluglet m \<mapsto> None), next_pluglet := Suc (next_pluglet m)\<rparr>))"
  using assms(2,4) anchor_has_room [OF assms(1,3)]
  by (auto simp: place_pluglet_def malloc_pluglet_def add_pluglet_def Let_def MAX_NBR_PLUGLETS_def)

lemma new_plugin_ok [simp]: "plugin_ok new_plugin" "somes (slots new_plugin) = []" "plugin_chain new_plugin a = []"
proof -
  show ok: "plugin_ok new_plugin" by (simp add: plugin_ok_def new_plugin_def)
  have "mset (somes (slots new_plugin)) = {#}" unfolding mset_slots [OF ok] by (simp add: new_plugin_def)
  then show "somes (slots new_plugin) = []" by simp
  show "plugin_chain new_plugin a = []" by (simp add: plugin_chain_def new_plugin_def)
qed

text \<open>Creating the plugin changes nothing that the invariant or the anchors see.\<close>

lemma ensure_plugin_ok:
  assumes "manager_inv m" "i < MAX_NBR_PLUGINS" "granted os Plugin_Object"
  shows "\<exists>pl m'. ensure_plugin os i m = Some (pl, m') \<and> manager_inv m' \<and> plugin_at m' i = Some pl \<and> chain m' = chain m \<and>
     pluglets m' = pluglets m \<and> next_pluglet m' = next_pluglet m"
proof (cases "plugin_at m i")
  case None
  have i: "i < length (plugins m)" "plugins m ! i = None"
    using assms(1,2) None by (auto simp: manager_inv_def inv_but_def plugin_at_def)
  have "owned (set_plugin i new_plugin m) = owned m"
    using owned_set_plugin [OF i(1), of new_plugin] i by (simp add: plugin_refs_def)
  then have "manager_inv (set_plugin i new_plugin m)"
    using assms(1) i by (auto simp: manager_inv_def inv_but_def ready_def) (simp_all add: set_plugin_def)
  moreover have "chain (set_plugin i new_plugin m) = chain m"
    using i None by (simp add: chain_def fun_eq_iff)
  ultimately show ?thesis using assms(3) None i by (simp add: ensure_plugin_def) (simp add: set_plugin_def)
qed (use assms in \<open>simp add: ensure_plugin_def\<close>)

text \<open>After the second part of the injection the new pluglet is in the table and not ready.\<close>

lemma place_pluglet_ok:
  assumes "manager_inv m" "plugin_at m i = Some pl" "anchor \<in> {PRE, REP, POST}"
    and "length (chain m i anchor) < capacity anchor" "granted os Pluglet_Object" "p = next_pluglet m"
  shows "\<exists>m'. place_pluglet os i anchor pl m = (Some p, m') \<and> inv_but {p} m' \<and> pluglets m' = (pluglets m)(p \<mapsto> None) \<and>
     p \<in># owned m' \<and> (\<exists>pl'. plugin_at m' i = Some pl' \<and> p \<in> set (somes (slots pl'))) \<and>
     (\<forall>j a. chain m' j a = chain m j a @ (if j = i \<and> a = anchor then [p] else []))"
proof -
  have i: "i < length (plugins m)" "plugins m ! i = Some pl" using assms(2) by (auto simp: plugin_at_def split: if_splits)
  have ok: "plugin_ok pl" using assms(1,2) by (auto simp: manager_inv_def inv_but_def)
  have room: "length (plugin_chain pl anchor) < capacity anchor" using assms(2,4) by (simp add: chain_def)
  note add = add_pluglet_ok [OF ok assms(3) room, of p]
  let ?m = "m\<lparr>pluglets := (pluglets m)(p \<mapsto> None), next_pluglet := Suc p\<rparr>"
  let ?m' = "set_plugin i (add_pluglet anchor p pl) ?m"
  have place: "place_pluglet os i anchor pl m = (Some p, ?m')"
    using place_pluglet_add [OF ok assms(3) room assms(5)] assms(6) by simp
  have "owned ?m' + mset (somes (slots pl)) = owned ?m + add_mset p (mset (somes (slots pl)))"
    using owned_set_plugin [of i ?m "add_pluglet anchor p pl"] i add(3) by (simp add: plugin_refs_def)
  then have owned: "owned ?m' = add_mset p (owned m)" by (simp add: owned_def)
  have inv: "pluglets m q = None" if "p \<le> q" for q
    using assms(1,6) that by (simp add: manager_inv_def inv_but_def)
  have ready: "ready ?m' j q" if "ready m j q" "q \<noteq> p" for j q
    using that by (simp add: ready_def set_plugin_def)
  have at: "plugin_at ?m' j = (if j = i then Some (add_pluglet anchor p pl) else plugin_at m j)" for j
    using i by simp (simp add: plugin_at_def)
  have slots: "set (somes (slots (add_pluglet anchor p pl))) = insert p (set (somes (slots pl)))"
    using add(3) by (metis set_mset_add_mset_insert set_mset_mset)
  have fields: "length (plugins ?m') = length (plugins m)" "pluglets ?m' = (pluglets m)(p \<mapsto> None)"
    "next_pluglet ?m' = Suc p" "context_locked ?m' = context_locked m" "current_context ?m' = current_context m"
    by (simp_all add: set_plugin_def)
  have "inv_but {p} ?m'"
    using assms(1) inv [of p] ready add(1) assms(2)
    unfolding manager_inv_def inv_but_def at fields owned
    by (auto simp: slots inv split: if_splits)
  moreover have "chain ?m' j a = chain m j a @ (if j = i \<and> a = anchor then [p] else [])" for j a
    unfolding chain_def at using assms(2) add(2) by simp
  ultimately show ?thesis using place at slots owned fields by auto
qed

section \<open>Injecting and executing\<close>

lemma load_code_ok:
  assumes "load_code os vm code = Some vm'"
  shows "case insts vm' of None \<Rightarrow> False | Some prog \<Rightarrow> well_formed vm' prog"
proof -
  obtain al c n where "ubpf_load al vm c n = Inr vm'"
    using assms by (auto simp: load_code_def ubpf_load_elf_def Let_def split: sum.splits if_splits)
  then show ?thesis by (rule ubpf_load_Inr) (simp add: validate_iff)
qed

text \<open>The file is a program that the machine accepts, and memory is not short.\<close>

definition loads :: "(string \<Rightarrow> 'w penv ext_func) \<Rightarrow> os \<Rightarrow> string \<Rightarrow> 'w penv ubpf_vm \<Rightarrow> bool" where
  "loads api os name vm \<longleftrightarrow> (\<forall>s. granted os s) \<and>
     (case (files os name, ubpf_create (\<lambda>_. True)) of
        (Some (code, False), Some vm0) \<Rightarrow>
          length code < 1024 * 1024 \<and> load_code os (snd (register_functions api vm0)) code = Some vm
      | _ \<Rightarrow> False)"

lemma owned_once:
  assumes "count (owned m) p = 1" "plugin_at m i = Some a" "plugin_at m j = Some b"
    and "p \<in> set (somes (slots a))" "p \<in> set (somes (slots b))"
  shows "i = j"
proof (rule ccontr)
  assume "i \<noteq> j"
  have ij: "i < length (plugins m)" "plugins m ! i = Some a" "j < length (plugins m)" "plugins m ! j = Some b"
    using assms(2,3) by (auto simp: plugin_at_def split: if_splits)
  let ?xs = "(plugins m)[i := None]"
  have "owned m = mset (concat (map plugin_refs ?xs)) + mset (somes (slots a))"
    using mset_concat_update [OF ij(1), of plugin_refs None] ij(2) by (simp add: owned_def plugin_refs_def)
  moreover have "Some b \<in> set ?xs" using ij \<open>i \<noteq> j\<close> by (metis length_list_update nth_list_update_neq nth_mem)
  then have "p \<in> set (concat (map plugin_refs ?xs))" using assms(5) by (force simp: plugin_refs_def)
  ultimately have "count (owned m) p \<ge> 2"
    using assms(4) by (simp only: count_union) (metis add_mono count_greater_eq_one_iff one_add_one set_mset_mset)
  then show False using assms(1) by simp
qed

lemma fill_pluglet_ok:
  assumes "inv_but {p} m" "pluglets m p = Some None" "plugin_at m i = Some pl" "p \<in> set (somes (slots pl))" "loads api os name vm"
  shows "\<exists>m'. fill_pluglet api os i p name m = Some (1, m') \<and> manager_inv m' \<and> chain m' = chain m \<and>
     pluglets m' = (pluglets m)(p \<mapsto> Some \<lparr>pluglet_vm = vm, pluglet_ctx = Some (idle i)\<rparr>)"
proof -
  obtain code vm0 where l: "files os name = Some (code, False)" "ubpf_create (\<lambda>_. True) = Some vm0" "length code < 1024 * 1024"
      "load_code os (snd (register_functions api vm0)) code = Some vm" "\<And>s. granted os s"
    using assms(5) by (auto simp: loads_def split: option.splits bool.splits)
  let ?pl = "\<lparr>pluglet_vm = vm, pluglet_ctx = Some (idle i)\<rparr>"
  let ?m' = "m\<lparr>pluglets := (pluglets m)(p \<mapsto> Some ?pl)\<rparr>"
  have "fill_pluglet api os i p name m = Some (1, ?m')"
    using l assms(2) by (simp add: fill_pluglet_def load_elf_file_def readfile_def load_elf_def set_context_def idle_def)
  moreover have "manager_inv ?m'"
  proof -
    have p: "pluglet_ok i ?pl" using load_code_ok [OF l(4)] by (simp add: pluglet_ok_def split: option.splits)
    have at: "plugin_at ?m' = plugin_at m" "owned ?m' = owned m" by (simp_all add: fun_eq_iff plugin_at_def owned_def)
    have once: "count (owned m) p = 1" using assms(1) by (simp add: inv_but_def)
    have "ready ?m' j q" if "plugin_at m j = Some b" "q \<in> set (somes (slots b))" for j b q
    proof (cases "q = p")
      case True
      then have "j = i" using owned_once [OF once that(1) assms(3)] that(2) assms(4) by simp
      then show ?thesis using True p by (simp add: ready_def)
    next
      case False
      then have "ready m j q" using assms(1) that by (auto simp: inv_but_def)
      then show ?thesis using False by (simp add: ready_def)
    qed
    then show ?thesis using assms(1) unfolding manager_inv_def inv_but_def at by auto
  qed
  moreover have "chain ?m' = chain m" by (simp add: fun_eq_iff chain_def plugin_at_def)
  ultimately show ?thesis by simp
qed

section \<open>Releasing\<close>

text \<open>Releasing pluglets that are there and distinct removes exactly them.\<close>

lemma release_slots_ok:
  assumes "distinct (somes ps)" "\<forall>p \<in> set (somes ps). \<exists>pl. pluglets m p = Some (Some pl)"
  shows "\<exists>m'. release_slots ps m = Some m' \<and> plugins m' = plugins m \<and>
     (\<forall>q. pluglets m' q = (if q \<in> set (somes ps) then None else pluglets m q))"
  using assms
proof (induction ps arbitrary: m)
  case (Cons a ps)
  show ?case
  proof (cases a)
    case (Some p)
    then obtain pl where "pluglets m p = Some (Some pl)" using Cons.prems by auto
    let ?m = "free_pluglet p (m\<lparr>given_back := given_back m @ ubpf_destroy (pluglet_vm pl)\<rparr>)"
    have "\<exists>m'. release_slots ps ?m = Some m' \<and> plugins m' = plugins ?m \<and>
       (\<forall>q. pluglets m' q = (if q \<in> set (somes ps) then None else pluglets ?m q))"
      using Cons.prems Some by (intro Cons.IH) (auto simp: free_pluglet_def)
    then show ?thesis
      using \<open>pluglets m p = Some (Some pl)\<close> Some by (auto simp: release_elf_def free_pluglet_def)
  qed (use Cons in \<open>simp add: release_elf_def\<close>)
qed simp

lemma release_plugins_ok:
  assumes "distinct js" "\<forall>j \<in> set js. j < length (plugins m)" "distinct (concat (map (\<lambda>j. plugin_refs (plugins m ! j)) js))"
    and "\<forall>j \<in> set js. \<forall>p \<in> set (plugin_refs (plugins m ! j)). \<exists>pl. pluglets m p = Some (Some pl)"
  shows "\<exists>m'. release_plugins js m = Some m' \<and> length (plugins m') = length (plugins m) \<and>
     (\<forall>j < length (plugins m). plugins m' ! j = (if j \<in> set js then None else plugins m ! j)) \<and>
     (\<forall>q. pluglets m' q = (if \<exists>j \<in> set js. q \<in> set (plugin_refs (plugins m ! j)) then None else pluglets m q))"
  using assms
proof (induction js arbitrary: m)
  case (Cons i js)
  have "\<exists>m'. release_plugin i m = Some m' \<and> plugins m' = (plugins m)[i := None] \<and>
      (\<forall>q. pluglets m' q = (if q \<in> set (plugin_refs (plugins m ! i)) then None else pluglets m q))"
  proof (cases "plugins m ! i")
    case None
    then show ?thesis
      using Cons.prems(2) by (simp add: release_plugin_def plugin_at_def plugin_refs_def) (metis list_update_id)
  next
    case (Some pl)
    then show ?thesis
      using Cons.prems release_slots_ok [of "slots pl" m]
      by (auto simp: release_plugin_def plugin_at_def plugin_refs_def)
  qed
  then obtain m1 where m1: "release_plugin i m = Some m1" "plugins m1 = (plugins m)[i := None]"
      "\<And>q. pluglets m1 q = (if q \<in> set (plugin_refs (plugins m ! i)) then None else pluglets m q)" by blast
  have js: "plugins m1 ! j = plugins m ! j" if "j \<in> set js" for j
    using m1(2) Cons.prems(1) that by (cases "j = i") auto
  then have map_eq: "map (\<lambda>j. plugin_refs (plugins m1 ! j)) js = map (\<lambda>j. plugin_refs (plugins m ! j)) js" by simp
  have apart: "set (plugin_refs (plugins m ! i)) \<inter> set (plugin_refs (plugins m ! j)) = {}" if "j \<in> set js" for j
    using Cons.prems(3) that by auto
  have "\<exists>m'. release_plugins js m1 = Some m' \<and> length (plugins m') = length (plugins m1) \<and>
     (\<forall>j < length (plugins m1). plugins m' ! j = (if j \<in> set js then None else plugins m1 ! j)) \<and>
     (\<forall>q. pluglets m' q = (if \<exists>j \<in> set js. q \<in> set (plugin_refs (plugins m1 ! j)) then None else pluglets m1 q))"
  proof (rule Cons.IH)
    show "distinct (concat (map (\<lambda>j. plugin_refs (plugins m1 ! j)) js))"
      unfolding map_eq using Cons.prems(3) by simp
    show "\<forall>j \<in> set js. \<forall>p \<in> set (plugin_refs (plugins m1 ! j)). \<exists>pl. pluglets m1 p = Some (Some pl)"
      using Cons.prems(4) js m1(3) apart by fastforce
  qed (use Cons.prems m1(2) in simp_all)
  then show ?case using m1 js by (auto simp: nth_list_update split: if_splits)
qed simp

text \<open>A pluglet of the table that is not there cannot be released, whatever is released before it.\<close>

definition broken :: "'w manager \<Rightarrow> nat \<Rightarrow> bool" where
  "broken m p \<longleftrightarrow> (case pluglets m p of Some (Some pl) \<Rightarrow> False | _ \<Rightarrow> True)"

lemma release_elf_broken: "release_elf a m = Some m' \<Longrightarrow> broken m p \<Longrightarrow> broken m' p \<and> a \<noteq> Some p \<and> plugins m' = plugins m"
  by (auto simp: release_elf_def broken_def free_pluglet_def split: option.splits bind_splits if_splits)

lemma release_slots_broken: "release_slots ps m = Some m' \<Longrightarrow> broken m p \<Longrightarrow> broken m' p \<and> Some p \<notin> set ps \<and> plugins m' = plugins m"
proof (induction ps arbitrary: m)
  case (Cons a ps)
  then obtain m1 where "release_elf a m = Some m1" "release_slots ps m1 = Some m'" by (auto split: bind_splits)
  then show ?case using release_elf_broken Cons.IH Cons.prems(2) by fastforce
qed simp

lemma release_plugin_broken:
  assumes "release_plugin i m = Some m'" "broken m p"
  shows "broken m' p \<and> p \<notin> set (plugin_refs (plugin_at m i)) \<and> (\<forall>j. j \<noteq> i \<longrightarrow> plugin_at m' j = plugin_at m j)"
proof (cases "plugin_at m i")
  case (Some pl)
  then obtain m1 where m1: "release_slots (slots pl) m = Some m1" "m' = m1\<lparr>plugins := (plugins m1)[i := None]\<rparr>"
    using assms(1) by (auto simp: release_plugin_def split: bind_splits)
  then show ?thesis
    using release_slots_broken [OF m1(1) assms(2)] Some
    by (auto simp: broken_def plugin_refs_def set_somes plugin_at_def)
qed (use assms in \<open>simp add: release_plugin_def plugin_refs_def\<close>)

lemma release_plugins_broken:
  "release_plugins js m = Some m' \<Longrightarrow> broken m p \<Longrightarrow> distinct js \<Longrightarrow> \<forall>j \<in> set js. p \<notin> set (plugin_refs (plugin_at m j))"
proof (induction js arbitrary: m)
  case (Cons i js)
  then obtain m1 where m1: "release_plugin i m = Some m1" "release_plugins js m1 = Some m'" by (auto split: bind_splits)
  note rp = release_plugin_broken [OF m1(1) Cons.prems(2)]
  have "\<forall>j \<in> set js. p \<notin> set (plugin_refs (plugin_at m1 j))"
    using Cons.IH [OF m1(2)] rp Cons.prems(3) by simp
  then show ?case using rp Cons.prems(3) by (metis distinct.simps(2) set_ConsD)
qed simp

lemma release_all_broken:
  assumes "length (plugins m) = MAX_NBR_PLUGINS" "plugin_at m i = Some pl" "p \<in> set (somes (slots pl))" "broken m p"
  shows "release_all_plugins m = None"
proof (rule ccontr)
  assume "release_all_plugins m \<noteq> None"
  then obtain m' where "release_plugins [0..<MAX_NBR_PLUGINS] m = Some m'" by (auto simp: release_all_plugins_def)
  moreover have "i \<in> set [0..<MAX_NBR_PLUGINS]" using assms(1,2) by (auto simp: plugin_at_def split: if_splits)
  ultimately show False using release_plugins_broken [of _ m m' p] assms(2-4) by (force simp: plugin_refs_def)
qed

section \<open>Properties of the manager\<close>

text \<open>The table before any injection, and a system with one readable file.\<close>

definition empty_manager :: "'w manager" where
  "empty_manager = \<lparr>plugins = replicate MAX_NBR_PLUGINS None, pluglets = (\<lambda>_. None), next_pluglet = 0,
     context_locked = False, current_context = None, given_back = []\<rparr>"

definition demo_os :: os where
  "demo_os = \<lparr>files = (\<lambda>name. if name = ''/plugins/exit.bin'' then Some ([149, 0, 0, 0, 0, 0, 0, 0], False) else None), granted = (\<lambda>_. True)\<rparr>"

definition demo_api :: "string \<Rightarrow> 'w ext_func" where "demo_api name a b c d e s = (0, s)"

lemma empty_manager_inv: "manager_inv (empty_manager :: 'w manager)"
proof -
  let ?m = "empty_manager :: 'w manager"
  have "owned ?m = {#}" "plugins ?m = replicate MAX_NBR_PLUGINS None" "pluglets ?m = (\<lambda>_. None)"
    "\<not> context_locked ?m" "current_context ?m = None"
    by (simp_all add: owned_def empty_manager_def plugin_refs_def)
  then show ?thesis by (simp add: manager_inv_def inv_but_def plugin_at_def)
qed

lemma empty_manager_chain [simp]: "chain empty_manager i a = []"
  by (simp add: chain_def plugin_at_def empty_manager_def)

lemma register_all_insts: "insts (snd (register_all api fs vm)) = insts vm"
  by (induction api fs vm rule: register_all.induct) (auto simp: ubpf_register_def split: prod.splits)

lemma demo_loads:
  "\<exists>vm. loads api demo_os ''/plugins/exit.bin'' vm \<and> insts vm = Some [\<lparr>opcode = 149, dst = 0, src = 0, offset = 0, imm = 0\<rparr>]"
proof -
  let ?code = "[149, 0, 0, 0, 0, 0, 0, 0] :: u8 list"
  obtain vm0 :: "'a penv ubpf_vm" where vm0: "ubpf_create (\<lambda>_. True) = Some vm0" "insts vm0 = None" by (auto simp: ubpf_create_def)
  have prog: "insts_of_code ?code = [\<lparr>opcode = 149, dst = 0, src = 0, offset = 0, imm = 0\<rparr>]" by code_simp
  moreover have "decode 149 = Some Exit" "op_byte Exit = 149" by code_simp+
  ultimately have "validate vm (insts_of_code ?code) = None" for vm :: "'a penv ubpf_vm"
    by (simp add: validate_def MAX_INSTS_def validate_from.simps check_regs_def)
  then have "\<exists>vm. load_code demo_os (snd (register_functions api vm0)) ?code = Some vm \<and> insts vm = Some (insts_of_code ?code)"
    using vm0(2) by (simp add: load_code_def is_elf_def ubpf_load_def demo_os_def register_functions_def register_all_insts)
  then show ?thesis using vm0(1) unfolding prog by (auto simp: loads_def demo_os_def)
qed

lemma message_decode:
  assumes "i < MAX_NBR_PLUGINS" "anchor \<in> {PRE, REP, POST}"
  shows "message_anchor (ui_mesg_type (int i) anchor) = anchor" "message_insertion_point (ui_mesg_type (int i) anchor) = int i"
proof -
  have i: "int i < 30" using assms(1) by (simp add: MAX_NBR_PLUGINS_def)
  have a: "0 \<le> anchor" "anchor < 3" using assms(2) by (auto simp: anchors)
  have t: "to_int (ui_mesg_type (int i) anchor) = int i * 100 + anchor"
    using i a by (simp add: to_int_def ui_mesg_type_def)
  show *: "message_anchor (ui_mesg_type (int i) anchor) = anchor"
    using i a unfolding message_anchor_def t by (simp add: c_rem_def)
  show "message_insertion_point (ui_mesg_type (int i) anchor) = int i"
    unfolding message_insertion_point_def * t by (cases "i = 0") (simp_all add: c_div_def)
qed

text \<open>The first two parts of an injection.\<close>

lemma inject_placed:
  assumes "manager_inv m" "i < MAX_NBR_PLUGINS" "anchor \<in> {PRE, REP, POST}" "length (chain m i anchor) < capacity anchor"
    and "granted os Plugin_Object" "granted os Pluglet_Object" "p = next_pluglet m"
  shows "\<exists>m' pl. inject_pluglet api os (int i) name anchor m = fill_pluglet api os i p name m' \<and> inv_but {p} m' \<and>
     pluglets m' = (pluglets m)(p \<mapsto> None) \<and> plugin_at m' i = Some pl \<and> p \<in> set (somes (slots pl)) \<and>
     (\<forall>j a. chain m' j a = chain m j a @ (if j = i \<and> a = anchor then [p] else []))"
proof -
  obtain pl m1 where e: "ensure_plugin os i m = Some (pl, m1)" "manager_inv m1" "plugin_at m1 i = Some pl" "chain m1 = chain m"
      "pluglets m1 = pluglets m" "next_pluglet m1 = next_pluglet m"
    using ensure_plugin_ok [OF assms(1,2,5)] by blast
  obtain m' pl' where m': "place_pluglet os i anchor pl m1 = (Some p, m')" "inv_but {p} m'" "plugin_at m' i = Some pl'"
      "p \<in> set (somes (slots pl'))" "pluglets m' = (pluglets m)(p \<mapsto> None)"
      "\<forall>j a. chain m' j a = chain m1 j a @ (if j = i \<and> a = anchor then [p] else [])"
    using place_pluglet_ok [OF e(2,3) assms(3) _ assms(6), of p] assms(4,7) e(4-6) by auto
  then show ?thesis using assms(2) e(1,4) by (auto simp: inject_pluglet_def)
qed

lemma inject_pluglet_ok:
  assumes "manager_inv m" "i < MAX_NBR_PLUGINS" "anchor \<in> {PRE, REP, POST}" "length (chain m i anchor) < capacity anchor"
    and "loads api os name vm"
  shows "\<exists>p m'. inject_pluglet api os (int i) name anchor m = Some (1, m') \<and> manager_inv m' \<and>
     (\<forall>j a. chain m' j a = chain m j a @ (if j = i \<and> a = anchor then [p] else [])) \<and>
     pluglets m p = None \<and> pluglets m' = (pluglets m)(p \<mapsto> Some \<lparr>pluglet_vm = vm, pluglet_ctx = Some (idle i)\<rparr>)"
proof -
  let ?p = "next_pluglet m"
  have g: "granted os s" for s using assms(5) by (simp add: loads_def)
  obtain m1 pl where m1: "inject_pluglet api os (int i) name anchor m = fill_pluglet api os i ?p name m1" "inv_but {?p} m1"
      "pluglets m1 = (pluglets m)(?p \<mapsto> None)" "plugin_at m1 i = Some pl" "?p \<in> set (somes (slots pl))"
      "\<forall>j a. chain m1 j a = chain m j a @ (if j = i \<and> a = anchor then [?p] else [])"
    using inject_placed [OF assms(1-4) g g refl] by blast
  obtain m' where "fill_pluglet api os i ?p name m1 = Some (1, m')" "manager_inv m'" "chain m' = chain m1"
      "pluglets m' = (pluglets m1)(?p \<mapsto> Some \<lparr>pluglet_vm = vm, pluglet_ctx = Some (idle i)\<rparr>)"
    using fill_pluglet_ok [OF m1(2) _ m1(4,5) assms(5)] m1(3) by auto
  moreover have "pluglets m ?p = None" using assms(1) by (simp add: manager_inv_def inv_but_def)
  ultimately show ?thesis using m1 by (intro exI [of _ ?p] exI [of _ m']) simp
qed

text \<open>The table after the injection of the example at the insertion point of hello packets.\<close>

lemma demo_injected:
  fixes api :: "string \<Rightarrow> 'w penv ext_func"
  shows "\<exists>vm p m. inject_pluglet api demo_os (int 4) ''/plugins/exit.bin'' PRE empty_manager = Some (1, m) \<and> manager_inv m \<and>
     chain m 4 PRE = [p] \<and> pluglets m p = Some (Some \<lparr>pluglet_vm = vm, pluglet_ctx = Some (idle 4)\<rparr>) \<and>
     insts vm = Some [\<lparr>opcode = 149, dst = 0, src = 0, offset = 0, imm = 0\<rparr>]"
proof -
  obtain vm where vm: "loads api demo_os ''/plugins/exit.bin'' vm" "insts vm = Some [\<lparr>opcode = 149, dst = 0, src = 0, offset = 0, imm = 0\<rparr>]"
    using demo_loads by blast
  have "4 < MAX_NBR_PLUGINS" "PRE \<in> {PRE, REP, POST}" "length (chain (empty_manager :: 'w manager) 4 PRE) < capacity PRE"
    by (simp_all add: MAX_NBR_PLUGINS_def capacity_def anchors MAX_NBR_PLUGLETS_def)
  from inject_pluglet_ok [OF empty_manager_inv this vm(1)] vm(2) show ?thesis
    by (simp del: One_nat_def) (metis fun_upd_same append_Nil empty_manager_chain)
qed



text \<open>
  C38. When a pluglet of a well-formed table is executed, its machine runs with the context that its plugin prescribes,
  and afterwards the manager is as it was before: the mutex is free, there is no current context and the context of the pluglet is cleared.
\<close>

theorem exec_loaded_code_restores:
  assumes "manager_inv m" "p \<in> set (chain m i anchor)" "plugin_at m i = Some parent"
  shows "\<exists>pl. pluglets m p = Some (Some pl) \<and>
     exec_loaded_code fuel stack reg0 (Some p) mem mem_len bytes w m =
       (case ubpf_exec fuel (pluglet_vm pl) mem mem_len stack reg0 bytes
               (Some \<lparr>original_arg = mem, type_arg = plugin_type_arg parent, context_heap = plugin_heap parent, parent_plugin = i\<rparr>, w) of
          Some (Returned ret bytes' (_, w')) \<Rightarrow> Some (ret, bytes', w', m)
        | _ \<Rightarrow> None)"
proof -
  have "plugin_ok parent" using assms(1,3) by (auto simp: manager_inv_def inv_but_def)
  then have "p \<in># mset (somes (slots parent))"
    using assms(2,3) unfolding mset_slots [OF \<open>plugin_ok parent\<close>] by (auto simp: chain_def plugin_chain_def split: if_splits)
  then have "ready m i p" using assms(1,3) by (auto simp: manager_inv_def inv_but_def)
  then obtain pl where pl: "pluglets m p = Some (Some pl)" "pluglet_ctx pl = Some (idle i)"
    by (auto simp: ready_def pluglet_ok_def split: option.splits)
  have m: "\<not> context_locked m" "current_context m = None" using assms(1) by (simp_all add: manager_inv_def inv_but_def)
  have idle: "(pluglets m)(p \<mapsto> Some (pl\<lparr>pluglet_ctx := Some (idle i)\<rparr>)) = pluglets m"
    using pl by (simp add: fun_upd_idem)
  have "m\<lparr>current_context := None, pluglets := pluglets m, context_locked := False\<rparr> = m" using m by simp
  then show ?thesis
    using pl m assms(3) idle
    by (auto simp: exec_loaded_code_def in_context_def interpret_pluglet_def set_context_def plugin_at_def idle_def Let_def
        split: option.splits outcome.splits if_splits)
qed

theorem exec_loaded_code_restores_witness:
  "\<exists>p (m :: unit manager). manager_inv m \<and> chain m 4 PRE = [p] \<and>
     exec_loaded_code 1 4096 (\<lambda>_. 7) (Some p) 8192 16 (\<lambda>_. 0) () m = Some (7, \<lambda>_. 0, (), m)"
proof -
  obtain vm p and m :: "unit manager" where m: "manager_inv m" "chain m 4 PRE = [p]"
      "pluglets m p = Some (Some \<lparr>pluglet_vm = vm, pluglet_ctx = Some (idle 4)\<rparr>)"
      "insts vm = Some [\<lparr>opcode = 149, dst = 0, src = 0, offset = 0, imm = 0\<rparr>]"
    using demo_injected [of "demo_api"] by blast
  obtain parent where parent: "plugin_at m 4 = Some parent" using m(2) by (cases "plugin_at m 4") (auto simp: chain_def)
  have "decode 149 = Some Exit" by code_simp
  then have "ubpf_exec 1 vm 8192 16 4096 (\<lambda>_. 7) (\<lambda>_. 0) e = Some (Returned 7 (\<lambda>_. 0) e)" for e :: "unit penv"
    using m(4) by (simp add: ubpf_exec_def ubpf_step_def init_state_def)
  then show ?thesis
    using exec_loaded_code_restores [OF m(1) _ parent, of p PRE 1 4096 "\<lambda>_. 7" 8192 16 "\<lambda>_. 0" "()"] m by auto
qed

text \<open>
  C39. Releasing all plugins of a well-formed table succeeds, empties the table and gives back every pluglet, each of them once.
\<close>

theorem release_all_plugins_frees:
  assumes "manager_inv m"
  shows "\<exists>m'. release_all_plugins m = Some m' \<and> plugins m' = replicate MAX_NBR_PLUGINS None \<and> pluglets m' = (\<lambda>_. None)"
proof -
  have n: "length (plugins m) = MAX_NBR_PLUGINS" using assms by (simp add: manager_inv_def inv_but_def)
  have all: "map (\<lambda>j. plugin_refs (plugins m ! j)) [0..<MAX_NBR_PLUGINS] = map plugin_refs (plugins m)"
    unfolding n [symmetric] by (metis map_nth map_map comp_apply map_eq_conv)
  have count: "count (owned m) p = (if pluglets m p \<noteq> None then 1 else 0)" for p
    using assms by (simp add: manager_inv_def inv_but_def)
  have live: "\<exists>pl. pluglets m p = Some (Some pl)" if j: "j < MAX_NBR_PLUGINS" "p \<in> set (plugin_refs (plugins m ! j))" for j p
  proof -
    obtain pl where "plugin_at m j = Some pl" "p \<in> set (somes (slots pl))"
      using j n by (cases "plugins m ! j") (auto simp: plugin_at_def plugin_refs_def)
    then have "ready m j p" using assms by (auto simp: manager_inv_def inv_but_def)
    then show ?thesis by (auto simp: ready_def split: option.splits)
  qed
  have "count (mset xs) p = (if p \<in> set xs then 1 else 0)" if "\<And>q. count (mset xs) q \<le> 1" for xs :: "nat list" and p
    using that [of p] by (cases "p \<in> set xs") (simp_all add: le_Suc_eq count_eq_zero_iff)
  moreover have "count (mset (concat (map plugin_refs (plugins m)))) q \<le> 1" for q
    using count [of q] by (simp add: owned_def)
  ultimately have "distinct (concat (map plugin_refs (plugins m)))" unfolding distinct_count_atmost_1 by blast
  then obtain m' where m': "release_all_plugins m = Some m'" "length (plugins m') = MAX_NBR_PLUGINS"
      "\<forall>j < MAX_NBR_PLUGINS. plugins m' ! j = None"
      "\<forall>q. pluglets m' q = (if \<exists>j \<in> {0..<MAX_NBR_PLUGINS}. q \<in> set (plugin_refs (plugins m ! j)) then None else pluglets m q)"
    using release_plugins_ok [of "[0..<MAX_NBR_PLUGINS]" m] n live unfolding all by (auto simp: release_all_plugins_def)
  have "pluglets m' q = None" for q
  proof (cases "pluglets m q")
    case (Some c)
    then have "q \<in># owned m" using count [of q] by (simp add: count_greater_eq_one_iff [symmetric] del: count_greater_eq_one_iff)
    then obtain x where "x \<in> set (plugins m)" and q: "q \<in> set (plugin_refs x)" by (auto simp: owned_def)
    then obtain j where "j < MAX_NBR_PLUGINS" "plugins m ! j = x" using n by (metis in_set_conv_nth)
    then have "\<exists>j \<in> {0..<MAX_NBR_PLUGINS}. q \<in> set (plugin_refs (plugins m ! j))" using q by auto
    then show ?thesis using m'(4) by simp
  qed (use m'(4) in simp)
  moreover have "plugins m' = replicate MAX_NBR_PLUGINS None" using m'(2,3) by (simp add: list_eq_iff_nth_eq)
  ultimately show ?thesis using m'(1) by blast
qed

theorem release_all_plugins_frees_witness:
  "\<exists>p m m'. inject_pluglet (demo_api :: string \<Rightarrow> unit penv ext_func) demo_os 4 ''/plugins/exit.bin'' PRE empty_manager = Some (1, m) \<and>
     chain m 4 PRE = [p] \<and> release_all_plugins m = Some m' \<and> pluglets m' p = None"
proof -
  obtain p m where m: "inject_pluglet (demo_api :: string \<Rightarrow> unit penv ext_func) demo_os (int 4) ''/plugins/exit.bin'' PRE empty_manager = Some (1, m)"
      "manager_inv m" "chain m 4 PRE = [p]"
    using demo_injected by blast
  then show ?thesis using release_all_plugins_frees [OF m(2)] by auto
qed

text \<open>The file cannot be read, there is no memory for the machine, or the machine does not accept the program.\<close>

definition refused :: "(string \<Rightarrow> 'w penv ext_func) \<Rightarrow> os \<Rightarrow> string \<Rightarrow> bool" where
  "refused api os name \<longleftrightarrow>
     (case readfile os name (1024 * 1024) of
        None \<Rightarrow> False
      | Some None \<Rightarrow> True
      | Some (Some code) \<Rightarrow>
          (case ubpf_create (\<lambda>k. granted os (Vm_Object k)) of
             None \<Rightarrow> True
           | Some vm \<Rightarrow> load_code os (snd (register_functions api vm)) code = None))"

lemma fill_pluglet_refused:
  assumes "refused api os name" "pluglets m p = Some None"
  shows "\<exists>m'. fill_pluglet api os i p name m = Some (0, m') \<and> plugins m' = plugins m \<and> broken m' p"
  using assms
  by (auto simp: refused_def fill_pluglet_def load_elf_file_def load_elf_def free_pluglet_def broken_def Let_def split: option.splits)

text \<open>
  C40. When the program of an injection is refused, the manager reports the failure and leaves the pluglet in the table,
  freed or never filled in.  Executing the anchor and releasing the plugins, which happens when the daemon ends, then follow a pointer that is not valid.
\<close>

theorem failed_injection_dangles:
  assumes "manager_inv m" "i < MAX_NBR_PLUGINS" "anchor \<in> {PRE, REP, POST}" "length (chain m i anchor) < capacity anchor"
    and "granted os Plugin_Object" "granted os Pluglet_Object" "refused api os name"
  shows "\<exists>p m'. inject_pluglet api os (int i) name anchor m = Some (0, m') \<and> chain m' i anchor = chain m i anchor @ [p] \<and>
     (\<forall>fuel stack reg0 mem mem_len bytes w. exec_loaded_code fuel stack reg0 (Some p) mem mem_len bytes w m' = None) \<and>
     release_all_plugins m' = None"
proof -
  let ?p = "next_pluglet m"
  obtain m1 pl where m1: "inject_pluglet api os (int i) name anchor m = fill_pluglet api os i ?p name m1" "inv_but {?p} m1"
      "pluglets m1 = (pluglets m)(?p \<mapsto> None)" "plugin_at m1 i = Some pl" "?p \<in> set (somes (slots pl))"
      "\<forall>j a. chain m1 j a = chain m j a @ (if j = i \<and> a = anchor then [?p] else [])"
    using inject_placed [OF assms(1-6) refl] by blast
  obtain m' where m': "fill_pluglet api os i ?p name m1 = Some (0, m')" "plugins m' = plugins m1" "broken m' ?p"
    using fill_pluglet_refused [OF assms(7), of m1 ?p] m1(3) by auto
  have at: "plugin_at m' = plugin_at m1" by (simp add: fun_eq_iff plugin_at_def m'(2))
  have "chain m' = chain m1" by (simp add: fun_eq_iff chain_def at)
  moreover have "release_all_plugins m' = None"
    using m1(2,4,5) m'(2,3) by (intro release_all_broken [of m' i pl ?p]) (simp_all add: at inv_but_def)
  moreover have "exec_loaded_code fuel stack reg0 (Some ?p) mem mem_len bytes w m' = None" for fuel stack reg0 mem mem_len bytes w
    using m'(3) by (auto simp: exec_loaded_code_def in_context_def broken_def Let_def split: option.splits)
  ultimately show ?thesis using m1(1,6) m'(1) by (intro exI [of _ ?p] exI [of _ m']) simp
qed

theorem failed_injection_dangles_witness:
  "\<exists>m'. inject_pluglet (demo_api :: string \<Rightarrow> unit penv ext_func) demo_os 4 ''/plugins/missing.o'' PRE empty_manager = Some (0, m') \<and>
     release_all_plugins m' = None"
proof -
  have "refused (demo_api :: string \<Rightarrow> unit penv ext_func) demo_os ''/plugins/missing.o''"
    by (simp add: refused_def readfile_def demo_os_def)
  moreover have "4 < MAX_NBR_PLUGINS" "PRE \<in> {PRE, REP, POST}" "length (chain (empty_manager :: unit manager) 4 PRE) < capacity PRE"
    by (simp_all add: MAX_NBR_PLUGINS_def capacity_def anchors MAX_NBR_PLUGLETS_def)
  ultimately show ?thesis
    using failed_injection_dangles [OF empty_manager_inv, where os = demo_os and api = "demo_api :: string \<Rightarrow> unit penv ext_func" and i = 4]
    by (force simp: demo_os_def)
qed

text \<open>
  A compilation that fails returns with the mutex locked, after which no pluglet runs any more; so does the execution of NULL.
\<close>

lemma jit_failure_blocks:
  assumes "\<not> context_locked m" "pluglets m p = Some (Some pl)" "compile (pluglet_vm pl) = (vm, None)"
  shows "\<exists>m'. compile_and_exec_jit compile (Some p) mem mem_len bytes w m = Some (1, bytes, w, m') \<and>
     (\<forall>fuel stack reg0 q mem mem_len bytes w. exec_loaded_code fuel stack reg0 q mem mem_len bytes w m' = None)"
  using assms by (simp add: compile_and_exec_jit_def exec_loaded_code_def)

lemma exec_null_blocks:
  assumes "\<not> context_locked m"
  shows "\<exists>m'. exec_loaded_code fuel stack reg0 None mem mem_len bytes w m = Some (0, bytes, w, m') \<and>
     (\<forall>fuel stack reg0 q mem mem_len bytes w. exec_loaded_code fuel stack reg0 q mem mem_len bytes w m' = None)"
  using assms by (simp add: exec_loaded_code_def)

end
