(* ===== verification/Ospf_Lsa.thy ===== *)
theory Ospf_Lsa
  imports Checksum "HOL-Library.Monad_Syntax"
begin

text \<open>
  Link state advertisements: the first part of \<^verbatim>\<open>ospfd/ospf_lsa.c\<close> and the comparison of two
  instances.  LSA objects live in a store from pointers to objects, so that sharing, reference
  counts and freed objects are visible.  A header field holds the value the code reads with
  \<^verbatim>\<open>ntohs\<close> or \<^verbatim>\<open>ntohl\<close>, addresses included.  \<open>None\<close> is an outcome the code has no
  behaviour for: a failed assertion, a NULL pointer or an object that has been freed.
\<close>

named_theorems lsa_simps \<open>the store of LSA objects after an operation\<close>

type_synonym ptr = nat

section \<open>Data\<close>

record lsa_header =
  ls_age :: u16
  ls_options :: u8
  ls_type :: u8
  ls_id :: u32
  ls_adv_router :: u32
  ls_seqnum :: u32
  ls_checksum :: u16
  ls_length :: u16
  ls_body :: "u8 list"

record ospf_lsa =
  lsa_flags :: u8
  lsa_data :: "lsa_header option"
  tv_recv :: int
  tv_orig :: int
  lsa_lock :: int
  lsa_stat :: int
  retransmit_counter :: int
  lsa_area :: "ptr option"
  refresh_list :: int
  lsa_oi :: "ptr option"
  lsa_vrf_id :: u32

definition OSPF_LSA_SELF :: u8 where "OSPF_LSA_SELF = 0x01"
definition OSPF_LSA_RECEIVED :: u8 where "OSPF_LSA_RECEIVED = 0x04"
definition OSPF_LSA_DISCARD :: u8 where "OSPF_LSA_DISCARD = 0x10"
definition LSA_SPF_NOT_EXPLORED :: int where "LSA_SPF_NOT_EXPLORED = - 1"
definition OSPF_LSA_HEADER_SIZE :: nat where "OSPF_LSA_HEADER_SIZE = 20"
definition OSPF_MIN_LS_INTERVAL :: int where "OSPF_MIN_LS_INTERVAL = 5000"
definition OSPF_LSA_MAXAGE :: int where "OSPF_LSA_MAXAGE = 3600"
definition OSPF_LSA_MAXAGE_DIFF :: int where "OSPF_LSA_MAXAGE_DIFF = 900"
definition OSPF_INITIAL_SEQUENCE_NUMBER :: u32 where "OSPF_INITIAL_SEQUENCE_NUMBER = 0x80000001"

text \<open>
  The calls of the LSA code into parts that are not modelled are recorded: the hooks of a
  database that the opaque LSA module sets.
\<close>

datatype lsa_call = New_Lsa_Hook ptr | Del_Lsa_Hook ptr

text \<open>
  The state the LSA code works on: the store, the pointer the allocator hands out next (a freed
  pointer is not handed out again), the monotonic clock in microseconds and the recorded calls.
\<close>

record lsa_world =
  lsas :: "ptr \<Rightarrow> ospf_lsa option"
  next_lsa :: ptr
  now :: int
  lsa_calls :: "lsa_call list"

definition CHECK_FLAG :: "u8 \<Rightarrow> u8 \<Rightarrow> bool" where
  "CHECK_FLAG V F \<longleftrightarrow> V AND F \<noteq> 0"

definition SET_FLAG :: "u8 \<Rightarrow> u8 \<Rightarrow> u8" where
  "SET_FLAG V F = V OR F"

definition UNSET_FLAG :: "u8 \<Rightarrow> u8 \<Rightarrow> u8" where
  "UNSET_FLAG V F = V AND NOT F"

definition IS_LSA_SELF :: "ospf_lsa \<Rightarrow> bool" where
  "IS_LSA_SELF l = CHECK_FLAG (lsa_flags l) OSPF_LSA_SELF"

text \<open>\<^verbatim>\<open>p->data\<close>: both the object and its data have to be there.\<close>

definition data_of :: "'a lsa_world_scheme \<Rightarrow> ptr \<Rightarrow> lsa_header option" where
  "data_of w p = lsas w p \<bind> lsa_data"

definition upd_lsa :: "ptr \<Rightarrow> (ospf_lsa \<Rightarrow> ospf_lsa) \<Rightarrow> 'a lsa_world_scheme \<Rightarrow> 'a lsa_world_scheme option" where
  "upd_lsa p f w = (case lsas w p of None \<Rightarrow> None | Some l \<Rightarrow> Some (w\<lparr>lsas := (lsas w)(p \<mapsto> f l)\<rparr>))"

section \<open>Metrics, times and ages\<close>

definition get_metric :: "u8 \<Rightarrow> u8 \<Rightarrow> u8 \<Rightarrow> u32" where
  "get_metric m0 m1 m2 =
     (let m = ucast m0;
          m = push_bit 8 m + ucast m1;
          m = push_bit 8 m + ucast m2
      in m)"

text \<open>A \<^verbatim>\<open>struct timeval\<close> is its number of microseconds.\<close>

definition int2tv :: "int \<Rightarrow> int" where
  "int2tv a = a * 1000000"

definition msec2tv :: "int \<Rightarrow> int" where
  "msec2tv a = (if 0 \<le> a then a div 1000 * 1000000 + a mod 1000 * 1000
                else - ((- a) div 1000) * 1000000 - (- a) mod 1000 * 1000)"

definition ospf_lsa_refresh_delay :: "'a lsa_world_scheme \<Rightarrow> ospf_lsa \<Rightarrow> int option" where
  "ospf_lsa_refresh_delay w lsa =
     (let delta = now w - tv_orig lsa
      in if delta < OSPF_MIN_LS_INTERVAL * 1000
         then let minv = msec2tv OSPF_MIN_LS_INTERVAL - delta;
                  delay = minv div 1000000 + (if minv mod 1000000 \<noteq> 0 then 1 else 0)
              in if delay > 0 then Some delay else None
         else Some 0)"

definition get_age :: "'a lsa_world_scheme \<Rightarrow> ospf_lsa \<Rightarrow> lsa_header \<Rightarrow> int" where
  "get_age w lsa h = uint (ls_age h) + (now w - tv_recv lsa) div 1000000"

definition LS_AGE :: "'a lsa_world_scheme \<Rightarrow> ospf_lsa \<Rightarrow> lsa_header \<Rightarrow> int" where
  "LS_AGE w lsa h = (if OSPF_LSA_MAXAGE < get_age w lsa h then OSPF_LSA_MAXAGE else get_age w lsa h)"

definition IS_LSA_MAXAGE :: "'a lsa_world_scheme \<Rightarrow> ospf_lsa \<Rightarrow> lsa_header \<Rightarrow> bool" where
  "IS_LSA_MAXAGE w lsa h \<longleftrightarrow> LS_AGE w lsa h = OSPF_LSA_MAXAGE"

section \<open>Checksum of an LSA in memory\<close>

text \<open>
  \<open>lsa\<close> is the address of the header.  \<^verbatim>\<open>options\<close> is at offset 2, the checksum at 16, the
  length at 18.
\<close>

definition lsa_check_len :: "memory \<Rightarrow> u64 \<Rightarrow> u16" where
  "lsa_check_len m lsa = htons (of_nat (le_nat (load_bytes m (lsa + 18) 2))) - 2"

definition ospf_lsa_checksum :: "memory \<Rightarrow> u64 \<Rightarrow> (u16 \<times> memory) option" where
  "ospf_lsa_checksum m lsa = fletcher_checksum m (lsa + 2) (ucast (lsa_check_len m lsa)) 14"

definition ospf_lsa_checksum_valid :: "memory \<Rightarrow> u64 \<Rightarrow> bool option" where
  "ospf_lsa_checksum_valid m lsa =
     (case fletcher_checksum m (lsa + 2) (ucast (lsa_check_len m lsa)) FLETCHER_CHECKSUM_VALIDATE of
        None \<Rightarrow> None
      | Some (c, _) \<Rightarrow> Some (c = 0))"

section \<open>Life cycle\<close>

definition ospf_lsa_data_new :: "nat \<Rightarrow> lsa_header" where
  "ospf_lsa_data_new sz =
     \<lparr>ls_age = 0, ls_options = 0, ls_type = 0, ls_id = 0, ls_adv_router = 0, ls_seqnum = 0,
      ls_checksum = 0, ls_length = 0, ls_body = replicate (sz - OSPF_LSA_HEADER_SIZE) 0\<rparr>"

text \<open>
  The copy takes \<^verbatim>\<open>ntohs(length)\<close> bytes of the original; it is undefined when the object is
  shorter than that or the copy has no room for a header.
\<close>

definition ospf_lsa_data_dup :: "lsa_header \<Rightarrow> lsa_header option" where
  "ospf_lsa_data_dup lsah =
     (let n = unat (ls_length lsah)
      in if OSPF_LSA_HEADER_SIZE \<le> n \<and> n \<le> OSPF_LSA_HEADER_SIZE + length (ls_body lsah)
         then Some (lsah\<lparr>ls_body := take (n - OSPF_LSA_HEADER_SIZE) (ls_body lsah)\<rparr>)
         else None)"

definition ospf_lsa_new :: "'a lsa_world_scheme \<Rightarrow> ptr \<times> 'a lsa_world_scheme" where
  "ospf_lsa_new w =
     (let p = next_lsa w;
          l = \<lparr>lsa_flags = 0, lsa_data = None, tv_recv = now w, tv_orig = now w, lsa_lock = 1,
               lsa_stat = 0, retransmit_counter = 0, lsa_area = None, refresh_list = - 1,
               lsa_oi = None, lsa_vrf_id = 0\<rparr>
      in (p, w\<lparr>lsas := (lsas w)(p \<mapsto> l), next_lsa := p + 1\<rparr>))"

definition ospf_lsa_new_and_data :: "nat \<Rightarrow> 'a lsa_world_scheme \<Rightarrow> (ptr \<times> 'a lsa_world_scheme) option" where
  "ospf_lsa_new_and_data sz w =
     (let (p, w) = ospf_lsa_new w
      in do { w \<leftarrow> upd_lsa p (\<lambda>l. l\<lparr>lsa_data := Some (ospf_lsa_data_new sz)\<rparr>) w; Some (p, w) })"

definition ospf_lsa_dup :: "ptr option \<Rightarrow> 'a lsa_world_scheme \<Rightarrow> (ptr option \<times> 'a lsa_world_scheme) option" where
  "ospf_lsa_dup lsa w =
     (case lsa of
        None \<Rightarrow> Some (None, w)
      | Some p \<Rightarrow> do {
          l \<leftarrow> lsas w p;
          h \<leftarrow> lsa_data l;
          h' \<leftarrow> ospf_lsa_data_dup h;
          let q = next_lsa w;
          let l' = l\<lparr>lsa_flags := UNSET_FLAG (lsa_flags l) OSPF_LSA_DISCARD, lsa_lock := 1,
                     retransmit_counter := 0, lsa_data := Some h', refresh_list := - 1\<rparr>;
          Some (Some q, w\<lparr>lsas := (lsas w)(q \<mapsto> l'), next_lsa := q + 1\<rparr>) })"

definition ospf_lsa_free :: "ptr \<Rightarrow> 'a lsa_world_scheme \<Rightarrow> 'a lsa_world_scheme option" where
  "ospf_lsa_free p w = do {
     l \<leftarrow> lsas w p;
     if lsa_lock l \<noteq> 0 then None
     else if \<not> refresh_list l < 0 then None
     else Some (w\<lparr>lsas := (lsas w)(p := None)\<rparr>) }"

definition ospf_lsa_lock :: "ptr \<Rightarrow> 'a lsa_world_scheme \<Rightarrow> 'a lsa_world_scheme option" where
  "ospf_lsa_lock p w = upd_lsa p (\<lambda>l. l\<lparr>lsa_lock := lsa_lock l + 1\<rparr>) w"

text \<open>The argument is the variable that holds the pointer; it is NULL afterwards when the LSA was freed.\<close>

definition ospf_lsa_unlock :: "ptr option \<Rightarrow> 'a lsa_world_scheme \<Rightarrow> (ptr option \<times> 'a lsa_world_scheme) option" where
  "ospf_lsa_unlock lsa w =
     (case lsa of
        None \<Rightarrow> Some (None, w)
      | Some p \<Rightarrow> do {
          w \<leftarrow> upd_lsa p (\<lambda>l. l\<lparr>lsa_lock := lsa_lock l - 1\<rparr>) w;
          l \<leftarrow> lsas w p;
          if \<not> lsa_lock l \<ge> 0 then None
          else if lsa_lock l = 0 then
            if \<not> CHECK_FLAG (lsa_flags l) OSPF_LSA_DISCARD then None
            else do { w \<leftarrow> ospf_lsa_free p w; Some (None, w) }
          else Some (Some p, w) })"

definition ospf_lsa_discard :: "ptr \<Rightarrow> 'a lsa_world_scheme \<Rightarrow> 'a lsa_world_scheme option" where
  "ospf_lsa_discard p w = do {
     l \<leftarrow> lsas w p;
     if \<not> CHECK_FLAG (lsa_flags l) OSPF_LSA_DISCARD then do {
       w \<leftarrow> upd_lsa p (\<lambda>l. l\<lparr>lsa_flags := SET_FLAG (lsa_flags l) OSPF_LSA_DISCARD\<rparr>) w;
       (_, w) \<leftarrow> ospf_lsa_unlock (Some p) w;
       Some w }
     else Some w }"

definition lsa_seqnum_increment :: "lsa_header \<Rightarrow> u32" where
  "lsa_seqnum_increment h = ls_seqnum h + 1"

text \<open>The header at the start of a stream whose end pointer is then moved past it.\<close>

definition lsa_header_set :: "lsa_header \<Rightarrow> u8 \<Rightarrow> u8 \<Rightarrow> u32 \<Rightarrow> u32 \<Rightarrow> lsa_header" where
  "lsa_header_set lsah opts type lsid router_id =
     lsah\<lparr>ls_age := 0, ls_options := opts, ls_type := type, ls_id := lsid, ls_adv_router := router_id,
          ls_seqnum := OSPF_INITIAL_SEQUENCE_NUMBER\<rparr>"

section \<open>Comparing instances\<close>

definition ospf_lsa_more_recent :: "'a lsa_world_scheme \<Rightarrow> ptr option \<Rightarrow> ptr option \<Rightarrow> int option" where
  "ospf_lsa_more_recent w p1 p2 =
     (case (p1, p2) of
        (None, None) \<Rightarrow> Some 0
      | (None, Some _) \<Rightarrow> Some (- 1)
      | (Some _, None) \<Rightarrow> Some 1
      | (Some p1, Some p2) \<Rightarrow> do {
          l1 \<leftarrow> lsas w p1; h1 \<leftarrow> lsa_data l1;
          l2 \<leftarrow> lsas w p2; h2 \<leftarrow> lsa_data l2;
          let x = sint (ls_seqnum h1);
          let y = sint (ls_seqnum h2);
          let r = uint (ls_checksum h1) - uint (ls_checksum h2);
          Some (if x > y then 1
                else if x < y then - 1
                else if r \<noteq> 0 then r
                else if IS_LSA_MAXAGE w l1 h1 \<and> \<not> IS_LSA_MAXAGE w l2 h2 then 1
                else if \<not> IS_LSA_MAXAGE w l1 h1 \<and> IS_LSA_MAXAGE w l2 h2 then - 1
                else if LS_AGE w l1 h1 - LS_AGE w l2 h2 > OSPF_LSA_MAXAGE_DIFF then - 1
                else if LS_AGE w l2 h2 - LS_AGE w l1 h1 > OSPF_LSA_MAXAGE_DIFF then 1
                else 0) })"

text \<open>\<^verbatim>\<open>memcmp\<close> of the bodies is undefined past the end of either of them.\<close>

definition ospf_lsa_different :: "'a lsa_world_scheme \<Rightarrow> ptr \<Rightarrow> ptr \<Rightarrow> bool option" where
  "ospf_lsa_different w p1 p2 = do {
     l1 \<leftarrow> lsas w p1; l2 \<leftarrow> lsas w p2;
     h1 \<leftarrow> lsa_data l1; h2 \<leftarrow> lsa_data l2;
     let n = unat (ls_length h1) - OSPF_LSA_HEADER_SIZE;
     if ls_options h1 \<noteq> ls_options h2 then Some True
     else if IS_LSA_MAXAGE w l1 h1 \<and> \<not> IS_LSA_MAXAGE w l2 h2 then Some True
     else if IS_LSA_MAXAGE w l2 h2 \<and> \<not> IS_LSA_MAXAGE w l1 h1 then Some True
     else if ls_length h1 \<noteq> ls_length h2 then Some True
     else if ls_length h1 = 0 then Some True
     else if CHECK_FLAG (lsa_flags l1 XOR lsa_flags l2) OSPF_LSA_RECEIVED then Some True
     else if \<not> unat (ls_length h1) \<ge> OSPF_LSA_HEADER_SIZE then None
     else if length (ls_body h1) < n \<or> length (ls_body h2) < n then None
     else Some (take n (ls_body h1) \<noteq> take n (ls_body h2)) }"

section \<open>Lemmas\<close>

lemma lsa_check_len_outside:
  assumes "\<forall>a. a \<notin> span (lsa + 16) 2 \<longrightarrow> m' a = m a"
  shows "lsa_check_len m' lsa = lsa_check_len m lsa"
proof -
  have "lsa + 18 \<notin> span (lsa + 16) 2" "lsa + 19 \<notin> span (lsa + 16) 2"
    by (auto simp: span_def)
  with assms have "m' (lsa + 18) = m (lsa + 18)" "m' (lsa + 19) = m (lsa + 19)" by blast+
  then show ?thesis by (simp add: lsa_check_len_def load_bytes_def numeral_2_eq_2 add.commute)
qed

definition newer :: "'a lsa_world_scheme \<Rightarrow> ptr \<Rightarrow> ptr \<Rightarrow> bool" where
  "newer w p q = (case ospf_lsa_more_recent w (Some p) (Some q) of None \<Rightarrow> False | Some r \<Rightarrow> r > 0)"

lemma newer_iff:
  assumes "lsas w p = Some l" "lsa_data l = Some h" "lsas w q = Some k" "lsa_data k = Some g"
  shows "newer w p q \<longleftrightarrow>
    sint (ls_seqnum h) > sint (ls_seqnum g) \<or> sint (ls_seqnum h) = sint (ls_seqnum g) \<and>
      (uint (ls_checksum h) > uint (ls_checksum g) \<or> uint (ls_checksum h) = uint (ls_checksum g) \<and>
        (IS_LSA_MAXAGE w l h \<and> \<not> IS_LSA_MAXAGE w k g \<or>
         IS_LSA_MAXAGE w l h = IS_LSA_MAXAGE w k g \<and> LS_AGE w k g - LS_AGE w l h > OSPF_LSA_MAXAGE_DIFF))"
  using assms by (simp add: newer_def ospf_lsa_more_recent_def Let_def OSPF_LSA_MAXAGE_DIFF_def IS_LSA_MAXAGE_def)

lemma more_recent_sgn:
  assumes "lsas w p = Some l" "lsa_data l = Some h" "lsas w q = Some k" "lsa_data k = Some g"
  shows "\<exists>x. ospf_lsa_more_recent w (Some p) (Some q) = Some x \<and>
            (\<exists>y. ospf_lsa_more_recent w (Some q) (Some p) = Some y \<and> sgn y = - sgn x)"
  using assms by (auto simp: ospf_lsa_more_recent_def Let_def OSPF_LSA_MAXAGE_DIFF_def sgn_if)

section \<open>Properties\<close>

text \<open>
  C30. An LSA whose checksum was filled in by \<^verbatim>\<open>ospf_lsa_checksum\<close> is accepted by
  \<^verbatim>\<open>ospf_lsa_checksum_valid\<close>: for any LSA long enough to hold its checksum field the call succeeds,
  changes nothing but the two checksum bytes of the header, and the result validates.
\<close>

theorem ospf_lsa_checksum_accepted:
  assumes "16 \<le> unat (lsa_check_len m lsa)"
  shows "\<exists>c m'. ospf_lsa_checksum m lsa = Some (c, m') \<and> ospf_lsa_checksum_valid m' lsa = Some True \<and>
           (\<forall>a. a \<notin> span (lsa + 16) 2 \<longrightarrow> m' a = m a)"
proof -
  let ?n = "ucast (lsa_check_len m lsa) :: u64"
  have n: "unat ?n = unat (lsa_check_len m lsa)" by (rule unat_ucast16)
  have "unat (14 :: u16) + 1 < unat ?n" using assms n by simp
  moreover have "unat ?n < 8388608" unfolding n by (rule less_trans [OF unat_lt16]) simp
  moreover have "(14 :: u16) \<noteq> FLETCHER_CHECKSUM_VALIDATE" by (simp add: FLETCHER_CHECKSUM_VALIDATE_def)
  ultimately obtain c m' where f: "fletcher_checksum m (lsa + 2) ?n 14 = Some (c, m')"
    "fletcher_checksum m' (lsa + 2) ?n FLETCHER_CHECKSUM_VALIDATE = Some (0, m')"
    "\<forall>a. a \<notin> span (lsa + 2 + ucast (14 :: u16)) 2 \<longrightarrow> m' a = m a"
    using fletcher_checksum_validates [of 14 ?n m "lsa + 2"] by blast
  then have "\<forall>a. a \<notin> span (lsa + 16) 2 \<longrightarrow> m' a = m a" by (simp add: add.assoc)
  with f lsa_check_len_outside [OF this] show ?thesis
    by (simp add: ospf_lsa_checksum_def ospf_lsa_checksum_valid_def)
qed

theorem ospf_lsa_checksum_accepted_witness:
  "\<exists>c m'. ospf_lsa_checksum ((\<lambda>x. ucast x)(1018 := 0, 1019 := 24)) 1000 = Some (c, m') \<and>
     ospf_lsa_checksum_valid m' 1000 = Some True"
proof -
  have "16 \<le> unat (lsa_check_len ((\<lambda>x. ucast x)(1018 := 0, 1019 := 24)) 1000)" by code_simp
  from ospf_lsa_checksum_accepted [OF this] show ?thesis by blast
qed

text \<open>
  C31. \<^verbatim>\<open>ospf_lsa_more_recent\<close> orders instances: at a given time it never answers that each of two
  instances is more recent than the other, the two orders of its arguments give opposite answers,
  and being more recent is transitive.
\<close>

theorem ospf_lsa_more_recent_order:
  assumes "data_of w p = Some h1" "data_of w q = Some h2" "data_of w r = Some h3"
  shows "(\<exists>x. ospf_lsa_more_recent w (Some p) (Some q) = Some x \<and>
            (\<exists>y. ospf_lsa_more_recent w (Some q) (Some p) = Some y \<and> sgn y = - sgn x)) \<and>
         (newer w p q \<and> newer w q r \<longrightarrow> newer w p r)"
proof -
  from assms obtain l1 l2 l3 where l: "lsas w p = Some l1" "lsa_data l1 = Some h1"
    "lsas w q = Some l2" "lsa_data l2 = Some h2" "lsas w r = Some l3" "lsa_data l3 = Some h3"
    by (auto simp: data_of_def split: bind_splits)
  have "newer w p q \<and> newer w q r \<longrightarrow> newer w p r"
    unfolding newer_iff [OF l(1-4)] newer_iff [OF l(3-6)] newer_iff [OF l(1,2,5,6)]
    by (auto simp: OSPF_LSA_MAXAGE_DIFF_def IS_LSA_MAXAGE_def)
  with more_recent_sgn [OF l(1-4)] show ?thesis by blast
qed

theorem ospf_lsa_more_recent_order_witness:
  "let h = (ospf_lsa_data_new 20)\<lparr>ls_seqnum := OSPF_INITIAL_SEQUENCE_NUMBER\<rparr>;
       l = (\<lambda>h. \<lparr>lsa_flags = 0, lsa_data = Some h, tv_recv = 0, tv_orig = 0, lsa_lock = 1, lsa_stat = 0,
                 retransmit_counter = 0, lsa_area = None, refresh_list = - 1, lsa_oi = None, lsa_vrf_id = 0\<rparr>);
       w = \<lparr>lsas = [0 \<mapsto> l (h\<lparr>ls_seqnum := 1\<rparr>), 1 \<mapsto> l h, 2 \<mapsto> l (h\<lparr>ls_age := 1800\<rparr>)],
            next_lsa = 3, now = 0, lsa_calls = []\<rparr>
   in newer w 0 1 \<and> newer w 1 2 \<and> newer w 0 2"
proof -
  let ?h = "(ospf_lsa_data_new 20)\<lparr>ls_seqnum := OSPF_INITIAL_SEQUENCE_NUMBER\<rparr>"
  let ?l = "\<lambda>h. \<lparr>lsa_flags = 0, lsa_data = Some h, tv_recv = 0, tv_orig = 0, lsa_lock = 1, lsa_stat = 0,
       retransmit_counter = 0, lsa_area = None, refresh_list = - 1, lsa_oi = None, lsa_vrf_id = 0\<rparr>"
  let ?w = "\<lparr>lsas = [0 \<mapsto> ?l (?h\<lparr>ls_seqnum := 1\<rparr>), 1 \<mapsto> ?l ?h, 2 \<mapsto> ?l (?h\<lparr>ls_age := 1800\<rparr>)],
       next_lsa = 3, now = 0, lsa_calls = []\<rparr>"
  have "data_of ?w 0 = Some (?h\<lparr>ls_seqnum := 1\<rparr>)" "data_of ?w 1 = Some ?h" "data_of ?w 2 = Some (?h\<lparr>ls_age := 1800\<rparr>)"
    by (simp_all add: data_of_def)
  note * = ospf_lsa_more_recent_order [OF this, THEN conjunct2]
  have "newer ?w 0 1" "newer ?w 1 2" by code_simp+
  with * show ?thesis by (simp add: Let_def)
qed

end
