(* ===== verification/Lsdb.thy ===== *)
theory Lsdb
  imports Ospf_Lsa "HOL-Library.Multiset"
begin

text \<open>
  The link state database, \<^verbatim>\<open>ospfd/ospf_lsdb.c\<close>: one table of LSAs per LSA type, with counters.
  A route table of the library whose keys all have 64 bits is the list of its entries in the order
  in which \<^verbatim>\<open>route_top\<close> and \<^verbatim>\<open>route_next\<close> visit them, which is ascending in the key.
  What the operations keep is in \<open>Lsdb_Correct\<close>.
\<close>

section \<open>Tables with 64-bit keys\<close>

fun tab_put :: "'k :: linorder \<Rightarrow> 'v \<Rightarrow> ('k \<times> 'v) list \<Rightarrow> ('k \<times> 'v) list" where
  "tab_put k v [] = [(k, v)]"
| "tab_put k v ((k', v') # t) =
     (if k < k' then (k, v) # (k', v') # t
      else if k = k' then (k, v) # t
      else (k', v') # tab_put k v t)"

definition tab_del :: "'k :: linorder \<Rightarrow> ('k \<times> 'v) list \<Rightarrow> ('k \<times> 'v) list" where
  "tab_del k t = filter (\<lambda>e. fst e \<noteq> k) t"

definition tab_ok :: "('k :: linorder \<times> 'v) list \<Rightarrow> bool" where
  "tab_ok t \<longleftrightarrow> sorted_wrt (<) (map fst t)"

section \<open>Databases\<close>

definition OSPF_MIN_LSA :: nat where "OSPF_MIN_LSA = 1"
definition OSPF_MAX_LSA :: nat where "OSPF_MAX_LSA = 15"

text \<open>One element of the array \<^verbatim>\<open>type\<close>; its table is \<open>None\<close> where the pointer is NULL or was freed.\<close>

record lsdb_slot =
  slot_count :: u64
  slot_count_self :: u64
  slot_checksum :: u32
  slot_db :: "(u64 \<times> ptr) list option"

record ospf_lsdb =
  lsdb_type :: "lsdb_slot list"
  lsdb_total :: u64
  new_lsa_hook :: bool
  del_lsa_hook :: bool

definition upd_slot :: "nat \<Rightarrow> (lsdb_slot \<Rightarrow> lsdb_slot) \<Rightarrow> ospf_lsdb \<Rightarrow> ospf_lsdb" where
  "upd_slot i f d = d\<lparr>lsdb_type := (lsdb_type d)[i := f (lsdb_type d ! i)]\<rparr>"

text \<open>\<^verbatim>\<open>lsdb->type[i].db\<close>, to be dereferenced.\<close>

definition lsdb_table :: "ospf_lsdb \<Rightarrow> nat \<Rightarrow> (u64 \<times> ptr) list option" where
  "lsdb_table d i = (if i < length (lsdb_type d) then slot_db (lsdb_type d ! i) else None)"

definition ospf_lsdb_init :: "ospf_lsdb \<Rightarrow> ospf_lsdb" where
  "ospf_lsdb_init d = fold (\<lambda>i. upd_slot i (\<lambda>s. s\<lparr>slot_db := Some []\<rparr>)) [OSPF_MIN_LSA..<OSPF_MAX_LSA] d"

definition ospf_lsdb_new :: ospf_lsdb where
  "ospf_lsdb_new = ospf_lsdb_init
     \<lparr>lsdb_type = replicate OSPF_MAX_LSA
        \<lparr>slot_count = 0, slot_count_self = 0, slot_checksum = 0, slot_db = None\<rparr>,
      lsdb_total = 0, new_lsa_hook = False, del_lsa_hook = False\<rparr>"

text \<open>The 64 bits of a \<^verbatim>\<open>struct prefix_ls\<close>: LS id, then advertising router.\<close>

definition ls_key :: "u32 \<Rightarrow> u32 \<Rightarrow> u64" where
  "ls_key lsid adv_router = push_bit 32 (ucast lsid) OR ucast adv_router"

definition ls_prefix_set :: "lsa_header \<Rightarrow> u64" where
  "ls_prefix_set h = ls_key (ls_id h) (ls_adv_router h)"

definition call_hook :: "bool \<Rightarrow> lsa_call \<Rightarrow> 'a lsa_world_scheme \<Rightarrow> 'a lsa_world_scheme" where
  "call_hook hook c w = (if hook then w\<lparr>lsa_calls := lsa_calls w @ [c]\<rparr> else w)"

text \<open>The node is the one of table \<open>i\<close> with key \<open>k\<close>.\<close>

definition ospf_lsdb_delete_entry ::
    "ospf_lsdb \<Rightarrow> nat \<Rightarrow> u64 \<Rightarrow> 'a lsa_world_scheme \<Rightarrow> (ospf_lsdb \<times> 'a lsa_world_scheme) option" where
  "ospf_lsdb_delete_entry d i k w = do {
     t \<leftarrow> lsdb_table d i;
     case map_of t k of
       None \<Rightarrow> Some (d, w)
     | Some p \<Rightarrow> do {
         l \<leftarrow> lsas w p;
         h \<leftarrow> lsa_data l;
         if unat (ls_type h) \<noteq> i then None
         else do {
           let d = upd_slot i (\<lambda>s. s\<lparr>
             slot_count_self := slot_count_self s - (if IS_LSA_SELF l then 1 else 0),
             slot_count := slot_count s - 1,
             slot_checksum := slot_checksum s - ucast (ls_checksum h),
             slot_db := Some (tab_del k t)\<rparr>) d;
           let d = d\<lparr>lsdb_total := lsdb_total d - 1\<rparr>;
           let w = call_hook (del_lsa_hook d) (Del_Lsa_Hook p) w;
           (_, w) \<leftarrow> ospf_lsa_unlock (Some p) w;
           Some (d, w) } } }"

text \<open>The second half of \<^verbatim>\<open>ospf_lsdb_add\<close>: the node has no info.\<close>

definition lsdb_insert ::
    "ospf_lsdb \<Rightarrow> ptr \<Rightarrow> 'a lsa_world_scheme \<Rightarrow> (ospf_lsdb \<times> 'a lsa_world_scheme) option" where
  "lsdb_insert d p w = do {
     l \<leftarrow> lsas w p;
     h \<leftarrow> lsa_data l;
     let i = unat (ls_type h);
     t \<leftarrow> lsdb_table d i;
     let d = upd_slot i (\<lambda>s. s\<lparr>
       slot_count_self := slot_count_self s + (if IS_LSA_SELF l then 1 else 0),
       slot_count := slot_count s + 1\<rparr>) d;
     let d = d\<lparr>lsdb_total := lsdb_total d + 1\<rparr>;
     let w = call_hook (new_lsa_hook d) (New_Lsa_Hook p) w;
     let d = upd_slot i (\<lambda>s. s\<lparr>
       slot_checksum := slot_checksum s + ucast (ls_checksum h),
       slot_db := Some (tab_put (ls_prefix_set h) p t)\<rparr>) d;
     w \<leftarrow> ospf_lsa_lock p w;
     Some (d, w) }"

definition ospf_lsdb_add ::
    "ospf_lsdb \<Rightarrow> ptr \<Rightarrow> 'a lsa_world_scheme \<Rightarrow> (ospf_lsdb \<times> 'a lsa_world_scheme) option" where
  "ospf_lsdb_add d p w = do {
     h \<leftarrow> data_of w p;
     t \<leftarrow> lsdb_table d (unat (ls_type h));
     case map_of t (ls_prefix_set h) of
       Some q \<Rightarrow>
         if q = p then Some (d, w)
         else do {
           (d, w) \<leftarrow> ospf_lsdb_delete_entry d (unat (ls_type h)) (ls_prefix_set h) w;
           lsdb_insert d p w }
     | None \<Rightarrow> lsdb_insert d p w }"

definition ospf_lsdb_delete ::
    "ospf_lsdb \<Rightarrow> ptr option \<Rightarrow> 'a lsa_world_scheme \<Rightarrow> (ospf_lsdb \<times> 'a lsa_world_scheme) option" where
  "ospf_lsdb_delete d lsa w =
     (case lsa of
        None \<Rightarrow> Some (d, w)
      | Some p \<Rightarrow> do {
          h \<leftarrow> data_of w p;
          if \<not> unat (ls_type h) < OSPF_MAX_LSA then None
          else do {
            t \<leftarrow> lsdb_table d (unat (ls_type h));
            if map_of t (ls_prefix_set h) = Some p
            then ospf_lsdb_delete_entry d (unat (ls_type h)) (ls_prefix_set h) w
            else Some (d, w) } })"

fun lsdb_delete_keys ::
    "nat \<Rightarrow> u64 list \<Rightarrow> ospf_lsdb \<Rightarrow> 'a lsa_world_scheme \<Rightarrow> (ospf_lsdb \<times> 'a lsa_world_scheme) option" where
  "lsdb_delete_keys i [] d w = Some (d, w)"
| "lsdb_delete_keys i (k # ks) d w = do {
     (d, w) \<leftarrow> ospf_lsdb_delete_entry d i k w;
     lsdb_delete_keys i ks d w }"

fun lsdb_delete_types ::
    "nat list \<Rightarrow> ospf_lsdb \<Rightarrow> 'a lsa_world_scheme \<Rightarrow> (ospf_lsdb \<times> 'a lsa_world_scheme) option" where
  "lsdb_delete_types [] d w = Some (d, w)"
| "lsdb_delete_types (i # is) d w = do {
     t \<leftarrow> lsdb_table d i;
     (d, w) \<leftarrow> lsdb_delete_keys i (map fst t) d w;
     lsdb_delete_types is d w }"

definition ospf_lsdb_delete_all ::
    "ospf_lsdb \<Rightarrow> 'a lsa_world_scheme \<Rightarrow> (ospf_lsdb \<times> 'a lsa_world_scheme) option" where
  "ospf_lsdb_delete_all d w = lsdb_delete_types [OSPF_MIN_LSA..<OSPF_MAX_LSA] d w"

definition ospf_lsdb_cleanup ::
    "ospf_lsdb \<Rightarrow> 'a lsa_world_scheme \<Rightarrow> (ospf_lsdb \<times> 'a lsa_world_scheme) option" where
  "ospf_lsdb_cleanup d w =
     (if lsdb_total d \<noteq> 0 then None
      else do {
        (d, w) \<leftarrow> ospf_lsdb_delete_all d w;
        Some (fold (\<lambda>i. upd_slot i (\<lambda>s. s\<lparr>slot_db := None\<rparr>)) [OSPF_MIN_LSA..<OSPF_MAX_LSA] d, w) })"

definition ospf_lsdb_free :: "ospf_lsdb \<Rightarrow> 'a lsa_world_scheme \<Rightarrow> 'a lsa_world_scheme option" where
  "ospf_lsdb_free d w = do { (d, w) \<leftarrow> ospf_lsdb_cleanup d w; Some w }"

fun lsdb_clean_entries :: "(u64 \<times> ptr) list \<Rightarrow> 'a lsa_world_scheme \<Rightarrow> 'a lsa_world_scheme option" where
  "lsdb_clean_entries [] w = Some w"
| "lsdb_clean_entries ((k, p) # t) w = do {
     w \<leftarrow> upd_lsa p (\<lambda>l. l\<lparr>lsa_stat := LSA_SPF_NOT_EXPLORED\<rparr>) w;
     lsdb_clean_entries t w }"

fun lsdb_clean_types :: "nat list \<Rightarrow> ospf_lsdb \<Rightarrow> 'a lsa_world_scheme \<Rightarrow> 'a lsa_world_scheme option" where
  "lsdb_clean_types [] d w = Some w"
| "lsdb_clean_types (i # is) d w = do {
     t \<leftarrow> lsdb_table d i;
     w \<leftarrow> lsdb_clean_entries t w;
     lsdb_clean_types is d w }"

definition ospf_lsdb_clean_stat :: "ospf_lsdb \<Rightarrow> 'a lsa_world_scheme \<Rightarrow> 'a lsa_world_scheme option" where
  "ospf_lsdb_clean_stat d w = lsdb_clean_types [OSPF_MIN_LSA..<OSPF_MAX_LSA] d w"

text \<open>The outer \<open>option\<close> is the fault, the inner one the pointer.\<close>

definition ospf_lsdb_lookup :: "ospf_lsdb \<Rightarrow> ptr \<Rightarrow> 'a lsa_world_scheme \<Rightarrow> ptr option option" where
  "ospf_lsdb_lookup d p w = do {
     h \<leftarrow> data_of w p;
     t \<leftarrow> lsdb_table d (unat (ls_type h));
     Some (map_of t (ls_prefix_set h)) }"

definition ospf_lsdb_lookup_by_id :: "ospf_lsdb \<Rightarrow> u8 \<Rightarrow> u32 \<Rightarrow> u32 \<Rightarrow> ptr option option" where
  "ospf_lsdb_lookup_by_id d type lsid adv_router = do {
     t \<leftarrow> lsdb_table d (unat type);
     Some (map_of t (ls_key lsid adv_router)) }"

definition ospf_lsdb_lookup_by_id_next ::
    "ospf_lsdb \<Rightarrow> u8 \<Rightarrow> u32 \<Rightarrow> u32 \<Rightarrow> bool \<Rightarrow> ptr option option" where
  "ospf_lsdb_lookup_by_id_next d type lsid adv_router first = do {
     t \<leftarrow> lsdb_table d (unat type);
     let k = ls_key lsid adv_router;
     let rest = (if first then t
                 else if map_of t k = None then []
                 else tl (dropWhile (\<lambda>e. fst e \<noteq> k) t));
     Some (case rest of [] \<Rightarrow> None | (_, p) # _ \<Rightarrow> Some p) }"

definition ospf_lsdb_count_all :: "ospf_lsdb \<Rightarrow> u64" where
  "ospf_lsdb_count_all d = lsdb_total d"

definition lsdb_slot :: "ospf_lsdb \<Rightarrow> nat \<Rightarrow> lsdb_slot option" where
  "lsdb_slot d i = (if i < length (lsdb_type d) then Some (lsdb_type d ! i) else None)"

definition ospf_lsdb_count :: "ospf_lsdb \<Rightarrow> nat \<Rightarrow> u64 option" where
  "ospf_lsdb_count d type = map_option slot_count (lsdb_slot d type)"

definition ospf_lsdb_count_self :: "ospf_lsdb \<Rightarrow> nat \<Rightarrow> u64 option" where
  "ospf_lsdb_count_self d type = map_option slot_count_self (lsdb_slot d type)"

definition ospf_lsdb_checksum :: "ospf_lsdb \<Rightarrow> nat \<Rightarrow> u32 option" where
  "ospf_lsdb_checksum d type = map_option slot_checksum (lsdb_slot d type)"

definition ospf_lsdb_isempty :: "ospf_lsdb \<Rightarrow> bool" where
  "ospf_lsdb_isempty d \<longleftrightarrow> lsdb_total d = 0"

section \<open>The interface of a table\<close>

locale keyed_table =
  fixes get :: "'t \<Rightarrow> 'k \<Rightarrow> 'v option"
    and put :: "'k \<Rightarrow> 'v \<Rightarrow> 't \<Rightarrow> 't"
    and del :: "'k \<Rightarrow> 't \<Rightarrow> 't"
    and entries :: "'t \<Rightarrow> ('k \<times> 'v) multiset"
    and ok :: "'t \<Rightarrow> bool"
  assumes put_ok: "ok t \<Longrightarrow> ok (put k v t)"
    and del_ok: "ok t \<Longrightarrow> ok (del k t)"
    and get_put: "ok t \<Longrightarrow> get (put k v t) = (get t)(k \<mapsto> v)"
    and get_del: "ok t \<Longrightarrow> get (del k t) = (get t)(k := None)"
    and entries_put: "ok t \<Longrightarrow> get t k = None \<Longrightarrow> entries (put k v t) = add_mset (k, v) (entries t)"
    and entries_del: "ok t \<Longrightarrow> get t k = Some v \<Longrightarrow> entries t = add_mset (k, v) (entries (del k t))"
    and get_entries: "ok t \<Longrightarrow> get t k = Some v \<longleftrightarrow> (k, v) \<in># entries t"
begin

lemma weight_put:
  assumes "ok t" "get t k = None"
  shows "(\<Sum>e\<in>#entries (put k v t). f e) = f (k, v) + (\<Sum>e\<in>#entries t. f e)"
  using assms by (simp add: entries_put)

lemma weight_del:
  fixes f :: "'k \<times> 'v \<Rightarrow> 'n :: ab_group_add"
  assumes "ok t" "get t k = Some v"
  shows "(\<Sum>e\<in>#entries (del k t). f e) = (\<Sum>e\<in>#entries t. f e) - f (k, v)"
  using assms by (simp add: entries_del)

lemma replace:
  assumes "ok t" "get t k = Some u"
  shows "entries (put k v (del k t)) = add_mset (k, v) (entries t - {#(k, u)#})"
  using assms by (simp add: entries_put del_ok get_del entries_del)

end

lemma tab_ok_Cons: "tab_ok ((k, v) # t) \<longleftrightarrow> (\<forall>e \<in> set t. k < fst e) \<and> tab_ok t"
  by (simp add: tab_ok_def)

lemma set_tab_put: "set (tab_put k v t) \<subseteq> insert (k, v) (set t)"
  by (induction t) (auto split: if_splits)

lemma tab_put_ok: "tab_ok t \<Longrightarrow> tab_ok (tab_put k v t)"
proof (induction t)
  case (Cons e t)
  then show ?case using set_tab_put [of k v t] by (cases e) (fastforce simp: tab_ok_Cons)
qed (simp add: tab_ok_def)

lemma map_of_tab_put: "tab_ok t \<Longrightarrow> map_of (tab_put k v t) = (map_of t)(k \<mapsto> v)"
  by (induction t) (auto simp: tab_ok_Cons)

lemma mset_tab_put: "tab_ok t \<Longrightarrow> map_of t k = None \<Longrightarrow> mset (tab_put k v t) = add_mset (k, v) (mset t)"
  by (induction t) (auto simp: tab_ok_Cons split: if_splits)

lemma tab_del_ok: "tab_ok t \<Longrightarrow> tab_ok (tab_del k t)"
  by (induction t) (auto simp: tab_ok_Cons tab_del_def tab_ok_def)

lemma set_tab_del: "set (tab_del k t) \<subseteq> set t"
  by (auto simp: tab_del_def)

lemma map_of_tab_del: "map_of (tab_del k t) = (map_of t)(k := None)"
  by (induction t) (auto simp: tab_del_def)

lemma tab_del_above: "\<forall>e \<in> set t. k < fst e \<Longrightarrow> tab_del k t = t"
  by (auto simp: tab_del_def filter_id_conv)

lemma mset_tab_del: "tab_ok t \<Longrightarrow> map_of t k = Some v \<Longrightarrow> mset t = add_mset (k, v) (mset (tab_del k t))"
proof (induction t)
  case (Cons e t)
  then show ?case using tab_del_above [of t k] by (cases e) (auto simp: tab_ok_Cons tab_del_def simp del: mset_filter split: if_splits)
qed simp

lemma tab_ok_distinct: "tab_ok t \<Longrightarrow> distinct (map fst t)"
  by (auto simp: tab_ok_def strict_sorted_iff)

interpretation ls_tab: keyed_table map_of tab_put tab_del mset "tab_ok :: ('k :: linorder \<times> 'v) list \<Rightarrow> bool"
proof
  fix t :: "('k \<times> 'v) list" and k v
  show "tab_ok t \<Longrightarrow> map_of t k = Some v \<longleftrightarrow> (k, v) \<in># mset t"
    using tab_ok_distinct [of t] by simp
qed (simp_all add: tab_put_ok tab_del_ok map_of_tab_put map_of_tab_del mset_tab_put mset_tab_del)

end
