(* ===== verification/Lsdb_Correct.thy ===== *)
theory Lsdb_Correct
  imports Lsdb
begin

text \<open>
  What a link state database keeps: its tables are ordered and hold each LSA under its own type and
  key, its counters are those of its contents, and the locks of the LSAs count the references to them.
  The invariant is stated for one database beside others, and then for a system of databases that
  share LSAs.
\<close>

section \<open>Invariant\<close>

text \<open>What a database depends on: the header of an LSA and whether it is self-originated.\<close>

definition lsa_view :: "'a lsa_world_scheme \<Rightarrow> ptr \<Rightarrow> (lsa_header option \<times> bool) option" where
  "lsa_view w p = map_option (\<lambda>l. (lsa_data l, IS_LSA_SELF l)) (lsas w p)"

definition entry_ok :: "'a lsa_world_scheme \<Rightarrow> nat \<Rightarrow> u64 \<times> ptr \<Rightarrow> bool" where
  "entry_ok w i e =
     (case lsa_view w (snd e) of
        Some (Some h, _) \<Rightarrow> unat (ls_type h) = i \<and> ls_prefix_set h = fst e
      | _ \<Rightarrow> False)"

definition entry_self :: "'a lsa_world_scheme \<Rightarrow> u64 \<times> ptr \<Rightarrow> u64" where
  "entry_self w e = (case lsa_view w (snd e) of Some (_, True) \<Rightarrow> 1 | _ \<Rightarrow> 0)"

definition entry_sum :: "'a lsa_world_scheme \<Rightarrow> u64 \<times> ptr \<Rightarrow> u32" where
  "entry_sum w e = (case lsa_view w (snd e) of Some (Some h, _) \<Rightarrow> ucast (ls_checksum h) | _ \<Rightarrow> 0)"

definition slot_ok :: "'a lsa_world_scheme \<Rightarrow> nat \<Rightarrow> lsdb_slot \<Rightarrow> bool" where
  "slot_ok w i s =
     (case slot_db s of
        None \<Rightarrow> False
      | Some t \<Rightarrow> tab_ok t \<and> (\<forall>e \<in> set t. entry_ok w i e) \<and>
          slot_count s = (\<Sum>e\<in>#mset t. 1) \<and>
          slot_count_self s = (\<Sum>e\<in>#mset t. entry_self w e) \<and>
          slot_checksum s = (\<Sum>e\<in>#mset t. entry_sum w e))"

definition lsa_types :: "nat list" where
  "lsa_types = [OSPF_MIN_LSA..<OSPF_MAX_LSA]"

definition slot_sum :: "(lsdb_slot \<Rightarrow> 'n :: comm_monoid_add) \<Rightarrow> ospf_lsdb \<Rightarrow> 'n" where
  "slot_sum g d = (\<Sum>i\<in>set lsa_types. g (lsdb_type d ! i))"

definition lsdb_ok :: "'a lsa_world_scheme \<Rightarrow> ospf_lsdb \<Rightarrow> bool" where
  "lsdb_ok w d \<longleftrightarrow> length (lsdb_type d) = OSPF_MAX_LSA \<and> lsdb_table d 0 = None \<and>
     (\<forall>i\<in>set lsa_types. slot_ok w i (lsdb_type d ! i)) \<and> lsdb_total d = slot_sum slot_count d"

definition slot_refs :: "ptr \<Rightarrow> lsdb_slot \<Rightarrow> nat" where
  "slot_refs p s = (case slot_db s of None \<Rightarrow> 0 | Some t \<Rightarrow> count (image_mset snd (mset t)) p)"

text \<open>How often a database refers to an LSA.\<close>

definition lsdb_refs :: "ospf_lsdb \<Rightarrow> ptr \<Rightarrow> nat" where
  "lsdb_refs d p = slot_sum (slot_refs p) d"

text \<open>The database as a map from type and key to LSA.\<close>

definition lsdb_map :: "ospf_lsdb \<Rightarrow> nat \<times> u64 \<Rightarrow> ptr option" where
  "lsdb_map d e = (case lsdb_table d (fst e) of None \<Rightarrow> None | Some t \<Rightarrow> map_of t (snd e))"

text \<open>
  Reference counting: the lock of a live LSA counts one reference for being in use, given up by
  \<^verbatim>\<open>ospf_lsa_discard\<close>, those held by databases and those held elsewhere.  Being on a refresh list
  is a reference held elsewhere.
\<close>

definition discarded :: "ospf_lsa \<Rightarrow> bool" where
  "discarded l = CHECK_FLAG (lsa_flags l) OSPF_LSA_DISCARD"

definition ref_ok :: "ospf_lsa option \<Rightarrow> nat \<Rightarrow> nat \<Rightarrow> bool" where
  "ref_ok lsa d x =
     (case lsa of
        None \<Rightarrow> d = 0 \<and> x = 0
      | Some l \<Rightarrow> lsa_lock l = (if discarded l then 0 else 1) + int d + int x \<and> 0 < lsa_lock l \<and>
                 (0 \<le> refresh_list l \<longrightarrow> 0 < x))"

definition counted :: "'a lsa_world_scheme \<Rightarrow> (ptr \<Rightarrow> nat) \<Rightarrow> (ptr \<Rightarrow> nat) \<Rightarrow> bool" where
  "counted w D X \<longleftrightarrow> (\<forall>p \<ge> next_lsa w. lsas w p = None) \<and> (\<forall>p. ref_ok (lsas w p) (D p) (X p))"

section \<open>Lemmas on slots\<close>

lemma lsa_types_set: "set lsa_types = {1..<15}"
  by (simp add: lsa_types_def OSPF_MIN_LSA_def OSPF_MAX_LSA_def)

lemma slot_sum_upd:
  assumes "i \<in> set lsa_types" "length (lsdb_type d) = OSPF_MAX_LSA"
  shows "slot_sum g (upd_slot i f d) + g (lsdb_type d ! i) = slot_sum g d + g (f (lsdb_type d ! i))"
proof -
  have i: "i < length (lsdb_type d)" using assms by (simp add: lsa_types_set OSPF_MAX_LSA_def)
  have "slot_sum g (upd_slot i f d) = g (f (lsdb_type d ! i)) + (\<Sum>j\<in>set lsa_types - {i}. g (lsdb_type d ! j))"
    unfolding slot_sum_def using assms(1) i by (subst sum.remove [of _ i]) (auto simp: upd_slot_def intro!: arg_cong2 [of _ _ _ _ "(+)"] sum.cong)
  moreover have "slot_sum g d = g (lsdb_type d ! i) + (\<Sum>j\<in>set lsa_types - {i}. g (lsdb_type d ! j))"
    unfolding slot_sum_def using assms(1) by (intro sum.remove) simp_all
  ultimately show ?thesis by (simp add: ac_simps)
qed

lemma upd_slot_nth:
  "j < length (lsdb_type d) \<Longrightarrow> lsdb_type (upd_slot i f d) ! j = (if j = i then f (lsdb_type d ! i) else lsdb_type d ! j)"
  by (simp add: upd_slot_def nth_list_update)

lemma upd_slot_simps [simp]:
  "length (lsdb_type (upd_slot i f d)) = length (lsdb_type d)"
  "lsdb_total (upd_slot i f d) = lsdb_total d"
  "new_lsa_hook (upd_slot i f d) = new_lsa_hook d"
  "del_lsa_hook (upd_slot i f d) = del_lsa_hook d"
  by (simp_all add: upd_slot_def)

lemma slot_ok_cong:
  assumes "\<And>t e. slot_db s = Some t \<Longrightarrow> e \<in> set t \<Longrightarrow> lsa_view w' (snd e) = lsa_view w (snd e)"
  shows "slot_ok w' i s = slot_ok w i s"
proof (cases "slot_db s")
  case (Some t)
  note v = assms [OF Some]
  have "(\<Sum>e\<in>#mset t. entry_self w' e) = (\<Sum>e\<in>#mset t. entry_self w e)"
    "(\<Sum>e\<in>#mset t. entry_sum w' e) = (\<Sum>e\<in>#mset t. entry_sum w e)"
    using v by (auto intro!: arg_cong [of _ _ sum_mset] image_mset_cong simp: entry_self_def entry_sum_def)
  moreover have "(\<forall>e\<in>set t. entry_ok w' i e) = (\<forall>e\<in>set t. entry_ok w i e)"
    using v by (auto simp: entry_ok_def)
  ultimately show ?thesis using Some by (simp add: slot_ok_def)
qed (simp add: slot_ok_def)

lemma lsdb_refs_entry:
  assumes "i \<in> set lsa_types" "slot_db (lsdb_type d ! i) = Some t" "e \<in> set t"
  shows "0 < lsdb_refs d (snd e)"
proof -
  have "0 < slot_refs (snd e) (lsdb_type d ! i)"
    using assms by (auto simp: slot_refs_def count_greater_zero_iff simp del: count_image_mset)
  also have "\<dots> \<le> lsdb_refs d (snd e)"
    unfolding lsdb_refs_def slot_sum_def using assms(1) by (intro member_le_sum) simp_all
  finally show ?thesis .
qed

lemma lsdb_ok_cong:
  assumes "\<And>p. 0 < lsdb_refs d p \<Longrightarrow> lsa_view w' p = lsa_view w p"
  shows "lsdb_ok w' d = lsdb_ok w d"
proof -
  have "slot_ok w' i (lsdb_type d ! i) = slot_ok w i (lsdb_type d ! i)" if "i \<in> set lsa_types" for i
    using assms lsdb_refs_entry [OF that] by (intro slot_ok_cong) blast
  then show ?thesis by (simp add: lsdb_ok_def)
qed

lemma lsdb_tableE:
  assumes "lsdb_ok w d" "i \<in> set lsa_types"
  obtains t where "lsdb_table d i = Some t" "slot_db (lsdb_type d ! i) = Some t" "tab_ok t"
    "\<forall>e \<in> set t. entry_ok w i e" "i < length (lsdb_type d)"
proof -
  have "slot_ok w i (lsdb_type d ! i)" "i < length (lsdb_type d)"
    using assms by (auto simp: lsdb_ok_def lsa_types_set OSPF_MAX_LSA_def)
  with that show ?thesis by (auto simp: slot_ok_def lsdb_table_def split: option.splits)
qed

lemma lsdb_map_upd:
  assumes "i < length (lsdb_type d)" "slot_db (f (lsdb_type d ! i)) = Some t"
    and "slot_db (lsdb_type d ! i) = Some t'" "map_of t = (map_of t')(k := v)"
  shows "lsdb_map (upd_slot i f d) = (lsdb_map d)((i, k) := v)"
  using assms by (auto simp: fun_eq_iff lsdb_map_def lsdb_table_def upd_slot_nth split: option.splits)

section \<open>Reference counts\<close>

lemma counted_ref: "counted w D X \<Longrightarrow> ref_ok (lsas w p) (D p) (X p)"
  by (simp add: counted_def)

lemma counted_live: "counted w D X \<Longrightarrow> lsas w p = Some l \<Longrightarrow> p < next_lsa w"
  unfolding counted_def by (metis linorder_not_less option.distinct(1))

lemma counted_upd:
  assumes "counted w D X" "p < next_lsa w" "ref_ok v (D' p) (X' p)"
    and "\<And>q. q \<noteq> p \<Longrightarrow> D' q = D q \<and> X' q = X q"
  shows "counted (w\<lparr>lsas := (lsas w)(p := v)\<rparr>) D' X'"
  using assms by (auto simp: counted_def)

text \<open>
  What giving up and taking references keeps: an LSA may be freed when it was discarded, and
  otherwise keeps its flags, its header, its time stamp and its place on a refresh list.
\<close>

definition kept_at :: "ospf_lsa option \<Rightarrow> ospf_lsa option \<Rightarrow> bool" where
  "kept_at old new =
     (case new of
        None \<Rightarrow> (case old of None \<Rightarrow> True | Some l \<Rightarrow> discarded l)
      | Some l' \<Rightarrow> (case old of None \<Rightarrow> False | Some l \<Rightarrow> lsa_flags l' = lsa_flags l \<and> lsa_data l' = lsa_data l \<and>
          refresh_list l' = refresh_list l \<and> tv_recv l' = tv_recv l))"

definition kept :: "'a lsa_world_scheme \<Rightarrow> 'a lsa_world_scheme \<Rightarrow> bool" where
  "kept w w' \<longleftrightarrow> next_lsa w' = next_lsa w \<and> now w' = now w \<and> lsa_world.more w' = lsa_world.more w \<and>
     (\<forall>p. kept_at (lsas w p) (lsas w' p))"

lemma kept_at_refl [simp]: "kept_at v v"
  by (simp add: kept_at_def split: option.split)

lemma kept_at_trans: "kept_at u v \<Longrightarrow> kept_at v w \<Longrightarrow> kept_at u w"
  by (auto simp: kept_at_def discarded_def split: option.splits)

lemma kept_refl [simp]: "kept w w"
  by (simp add: kept_def)

lemma kept_trans: "kept u v \<Longrightarrow> kept v w \<Longrightarrow> kept u w"
  unfolding kept_def by (metis kept_at_trans)

lemma kept_view: "kept w w' \<Longrightarrow> lsas w' p = Some l \<Longrightarrow> lsa_view w' p = lsa_view w p"
proof -
  assume k: "kept w w'" "lsas w' p = Some l"
  from k(1) have "kept_at (lsas w p) (lsas w' p)" by (simp add: kept_def)
  with k(2) show ?thesis by (simp add: kept_at_def lsa_view_def IS_LSA_SELF_def split: option.splits)
qed

lemma kept_upd: "kept_at (lsas w p) v \<Longrightarrow> kept w (w\<lparr>lsas := (lsas w)(p := v)\<rparr>)"
  by (simp add: kept_def)

lemma release:
  assumes c: "counted w D X" and n: "D p + X p = Suc (D' p + X' p)"
    and o: "\<And>q. q \<noteq> p \<Longrightarrow> D' q = D q \<and> X' q = X q"
    and r: "\<And>l. lsas w p = Some l \<Longrightarrow> 0 \<le> refresh_list l \<Longrightarrow> 0 < X' p"
  shows "\<exists>r w'. ospf_lsa_unlock (Some p) w = Some (r, w') \<and> counted w' D' X' \<and> kept w w' \<and>
           (\<forall>q. q \<noteq> p \<longrightarrow> lsas w' q = lsas w q)"
proof -
  obtain l where l: "lsas w p = Some l"
    using counted_ref [OF c, of p] n by (auto simp: ref_ok_def split: option.splits)
  note live = counted_live [OF c l]
  let ?l = "l\<lparr>lsa_lock := lsa_lock l - 1\<rparr>"
  have lk: "lsa_lock l - 1 = (if discarded l then 0 else 1) + int (D' p) + int (X' p)" "0 < lsa_lock l"
    using counted_ref [OF c, of p] n l by (auto simp: ref_ok_def split: if_splits)
  show ?thesis
  proof (cases "lsa_lock l = 1")
    case True
    then have d: "discarded l" "D' p = 0" "X' p = 0" using lk by (auto split: if_splits)
    then have "\<not> 0 \<le> refresh_list l" using r [OF l] by auto
    then have "ospf_lsa_unlock (Some p) w = Some (None, w\<lparr>lsas := (lsas w)(p := None)\<rparr>)"
      using True d l by (simp add: ospf_lsa_unlock_def upd_lsa_def ospf_lsa_free_def discarded_def)
    moreover have "counted (w\<lparr>lsas := (lsas w)(p := None)\<rparr>) D' X'"
      by (rule counted_upd [OF c live _ o]) (simp_all add: ref_ok_def d)
    moreover have "kept w (w\<lparr>lsas := (lsas w)(p := None)\<rparr>)"
      by (rule kept_upd) (simp add: kept_at_def l d)
    moreover have "\<forall>q. q \<noteq> p \<longrightarrow> lsas (w\<lparr>lsas := (lsas w)(p := None)\<rparr>) q = lsas w q" by simp
    ultimately show ?thesis by blast
  next
    case False
    then have "ospf_lsa_unlock (Some p) w = Some (Some p, w\<lparr>lsas := (lsas w)(p \<mapsto> ?l)\<rparr>)"
      using lk l by (simp add: ospf_lsa_unlock_def upd_lsa_def)
    moreover have "ref_ok (Some ?l) (D' p) (X' p)"
      using lk False r [OF l] by (simp add: ref_ok_def discarded_def)
    then have "counted (w\<lparr>lsas := (lsas w)(p \<mapsto> ?l)\<rparr>) D' X'"
      by (rule counted_upd [OF c live _ o])
    moreover have "kept w (w\<lparr>lsas := (lsas w)(p \<mapsto> ?l)\<rparr>)"
      by (rule kept_upd) (simp add: kept_at_def l)
    moreover have "\<forall>q. q \<noteq> p \<longrightarrow> lsas (w\<lparr>lsas := (lsas w)(p \<mapsto> ?l)\<rparr>) q = lsas w q" by simp
    ultimately show ?thesis by blast
  qed
qed

lemma acquire:
  assumes c: "counted w D X" and l: "lsas w p = Some l"
    and n: "D' p + X' p = Suc (D p + X p)" "X p \<le> X' p"
    and o: "\<And>q. q \<noteq> p \<Longrightarrow> D' q = D q \<and> X' q = X q"
  shows "\<exists>w'. ospf_lsa_lock p w = Some w' \<and> counted w' D' X' \<and> kept w w' \<and> lsas w' p \<noteq> None"
proof -
  let ?v = "Some (l\<lparr>lsa_lock := lsa_lock l + 1\<rparr>)"
  have "ospf_lsa_lock p w = Some (w\<lparr>lsas := (lsas w)(p := ?v)\<rparr>)"
    using l by (simp add: ospf_lsa_lock_def upd_lsa_def)
  moreover have "ref_ok ?v (D' p) (X' p)"
    using counted_ref [OF c, of p] l n by (auto simp: ref_ok_def discarded_def split: if_splits)
  then have "counted (w\<lparr>lsas := (lsas w)(p := ?v)\<rparr>) D' X'"
    by (rule counted_upd [OF c counted_live [OF c l] _ o])
  moreover have "kept w (w\<lparr>lsas := (lsas w)(p := ?v)\<rparr>)"
    by (rule kept_upd) (simp add: kept_at_def l)
  ultimately show ?thesis by (intro exI [of _ "w\<lparr>lsas := (lsas w)(p := ?v)\<rparr>"]) simp
qed

section \<open>Databases and reference counts together\<close>

text \<open>
  A database beside others: \<open>E\<close> counts the references of the other databases and \<open>X\<close> those held
  elsewhere.
\<close>

definition db_inv :: "'a lsa_world_scheme \<Rightarrow> ospf_lsdb \<Rightarrow> (ptr \<Rightarrow> nat) \<Rightarrow> (ptr \<Rightarrow> nat) \<Rightarrow> bool" where
  "db_inv w d E X \<longleftrightarrow> lsdb_ok w d \<and> counted w (\<lambda>p. lsdb_refs d p + E p) X"

lemma lsdb_ok_total [simp]:
  "lsdb_refs (d\<lparr>lsdb_total := n\<rparr>) = lsdb_refs d" "lsdb_map (d\<lparr>lsdb_total := n\<rparr>) = lsdb_map d"
  "slot_sum g (d\<lparr>lsdb_total := n\<rparr>) = slot_sum g d" "lsdb_table (d\<lparr>lsdb_total := n\<rparr>) = lsdb_table d"
  by (simp_all add: lsdb_refs_def fun_eq_iff slot_sum_def lsdb_map_def lsdb_table_def)

lemma call_hook_simps [simp]:
  "lsas (call_hook b c w) = lsas w" "next_lsa (call_hook b c w) = next_lsa w" "now (call_hook b c w) = now w"
  "lsa_view (call_hook b c w) = lsa_view w" "counted (call_hook b c w) = counted w" "kept w (call_hook b c w)"
  by (simp_all add: call_hook_def lsa_view_def fun_eq_iff counted_def kept_def)

lemma slot_refs_upd:
  assumes "i \<in> set lsa_types" "length (lsdb_type d) = OSPF_MAX_LSA"
  shows "lsdb_refs (upd_slot i f d) q + slot_refs q (lsdb_type d ! i) = lsdb_refs d q + slot_refs q (f (lsdb_type d ! i))"
  unfolding lsdb_refs_def by (rule slot_sum_upd [OF assms])

lemma lsdb_ok_upd:
  assumes "lsdb_ok w d" "i \<in> set lsa_types" "slot_ok w i (f (lsdb_type d ! i))"
    and "slot_count (f (lsdb_type d ! i)) - slot_count (lsdb_type d ! i) = c"
  shows "lsdb_ok w ((upd_slot i f d)\<lparr>lsdb_total := lsdb_total d + c\<rparr>)"
proof -
  have len: "length (lsdb_type d) = OSPF_MAX_LSA" using assms(1) by (simp add: lsdb_ok_def)
  have "slot_sum slot_count (upd_slot i f d) = slot_sum slot_count d + c"
    using slot_sum_upd [OF assms(2) len, of slot_count f] unfolding assms(4) [symmetric] by (simp add: algebra_simps)
  moreover have "lsdb_table (upd_slot i f d) 0 = None"
    using assms(1,2) len by (auto simp: lsdb_ok_def lsdb_table_def upd_slot_nth lsa_types_set)
  moreover have "slot_ok w j (lsdb_type (upd_slot i f d) ! j)" if "j \<in> set lsa_types" for j
    using assms(1,3) that len by (subst upd_slot_nth) (auto simp: lsdb_ok_def lsa_types_set OSPF_MAX_LSA_def)
  ultimately show ?thesis using assms(1) by (simp add: lsdb_ok_def)
qed

lemma entry_okE:
  assumes "entry_ok w i (k, p)"
  obtains l h where "lsas w p = Some l" "lsa_data l = Some h" "unat (ls_type h) = i" "ls_prefix_set h = k"
  using assms by (auto simp: entry_ok_def lsa_view_def split: option.splits)

lemma entry_weights:
  assumes "lsas w p = Some l" "lsa_data l = Some h"
  shows "entry_self w (k, p) = (if IS_LSA_SELF l then 1 else 0)" "entry_sum w (k, p) = ucast (ls_checksum h)"
  using assms by (simp_all add: entry_self_def entry_sum_def lsa_view_def)

lemma slot_ok_del:
  assumes "slot_ok w i s" "slot_db s = Some t" "map_of t k = Some p" "lsas w p = Some l" "lsa_data l = Some h"
  shows "slot_ok w i (s\<lparr>slot_count_self := slot_count_self s - (if IS_LSA_SELF l then 1 else 0),
           slot_count := slot_count s - 1, slot_checksum := slot_checksum s - ucast (ls_checksum h),
           slot_db := Some (tab_del k t)\<rparr>)"
proof -
  have t: "tab_ok t" using assms by (simp add: slot_ok_def)
  note wt = ls_tab.weight_del [OF t assms(3)] entry_weights [OF assms(4,5)]
  show ?thesis
    using assms(1,2) wt(1) [of "\<lambda>e. 1 :: u64"] wt(1) [of "entry_self w"] wt(1) [of "entry_sum w"]
      set_tab_del [of k t] ls_tab.del_ok [OF t]
    by (auto simp: slot_ok_def wt(2,3))
qed

lemma slot_ok_put:
  assumes "slot_ok w i s" "slot_db s = Some t" "map_of t (ls_prefix_set h) = None" "unat (ls_type h) = i"
    and "lsas w p = Some l" "lsa_data l = Some h"
  shows "slot_ok w i (s\<lparr>slot_count_self := slot_count_self s + (if IS_LSA_SELF l then 1 else 0),
           slot_count := slot_count s + 1, slot_checksum := slot_checksum s + ucast (ls_checksum h),
           slot_db := Some (tab_put (ls_prefix_set h) p t)\<rparr>)"
proof -
  have t: "tab_ok t" using assms by (simp add: slot_ok_def)
  note wt = ls_tab.weight_put [OF t assms(3)] entry_weights [OF assms(5,6)]
  have "entry_ok w i (ls_prefix_set h, p)" using assms by (simp add: entry_ok_def lsa_view_def)
  then show ?thesis
    using assms(1,2) wt(1) [of "\<lambda>e. 1 :: u64" p] wt(1) [of "entry_self w" p] wt(1) [of "entry_sum w" p]
      set_tab_put [of "ls_prefix_set h" p t] ls_tab.put_ok [OF t]
    by (auto simp: slot_ok_def wt(2,3))
qed

lemma lsdb_ok_kept:
  assumes "counted w' (\<lambda>p. lsdb_refs d p + E p) X" "kept w w'"
  shows "lsdb_ok w' d = lsdb_ok w d"
proof (rule lsdb_ok_cong)
  fix q assume "0 < lsdb_refs d q"
  then obtain l' where "lsas w' q = Some l'"
    using counted_ref [OF assms(1), of q] by (auto simp: ref_ok_def split: option.splits)
  from kept_view [OF assms(2) this] show "lsa_view w' q = lsa_view w q" .
qed

lemma delete_entry_ok:
  assumes inv: "db_inv w d E X" and i: "i \<in> set lsa_types"
  shows "\<exists>d' w'. ospf_lsdb_delete_entry d i k w = Some (d', w') \<and> db_inv w' d' E X \<and> kept w w' \<and>
           lsdb_map d' = (lsdb_map d)((i, k) := None) \<and> (\<forall>q. lsdb_map d (i, k) \<noteq> Some q \<longrightarrow> lsas w' q = lsas w q)"
proof -
  have ok: "lsdb_ok w d" and c: "counted w (\<lambda>p. lsdb_refs d p + E p) X" using inv by (simp_all add: db_inv_def)
  then have len: "length (lsdb_type d) = OSPF_MAX_LSA" by (simp add: lsdb_ok_def)
  obtain t where t: "lsdb_table d i = Some t" "slot_db (lsdb_type d ! i) = Some t" "tab_ok t"
    "\<forall>e \<in> set t. entry_ok w i e" "i < length (lsdb_type d)" by (rule lsdb_tableE [OF ok i])
  show ?thesis
  proof (cases "map_of t k")
    case None
    then have "lsdb_map d = (lsdb_map d)((i, k) := None)" using t(1) by (auto simp: lsdb_map_def fun_eq_iff)
    then show ?thesis using None t(1) inv by (simp add: ospf_lsdb_delete_entry_def)
  next
    case (Some p)
    with t(4) have "entry_ok w i (k, p)" by (blast dest: map_of_SomeD)
    then obtain l h where l: "lsas w p = Some l" "lsa_data l = Some h" "unat (ls_type h) = i" "ls_prefix_set h = k"
      by (rule entry_okE)
    let ?f = "\<lambda>s. s\<lparr>slot_count_self := slot_count_self s - (if IS_LSA_SELF l then 1 else 0),
        slot_count := slot_count s - 1, slot_checksum := slot_checksum s - ucast (ls_checksum h),
        slot_db := Some (tab_del k t)\<rparr>"
    let ?d = "(upd_slot i ?f d)\<lparr>lsdb_total := lsdb_total d - 1\<rparr>"
    let ?w = "call_hook (del_lsa_hook d) (Del_Lsa_Hook p) w"
    have "slot_ok w i (lsdb_type d ! i)" using ok i by (simp add: lsdb_ok_def)
    then have "slot_ok w i (?f (lsdb_type d ! i))" by (rule slot_ok_del [OF _ t(2) Some l(1,2)])
    from lsdb_ok_upd [OF ok i, of ?f "- 1", OF this] have ok': "lsdb_ok w ?d" by simp
    have refs: "lsdb_refs d q = lsdb_refs ?d q + (if q = p then 1 else 0)" for q
      using slot_refs_upd [OF i len, of ?f q] ls_tab.entries_del [OF t(3) Some] t(2)
      by (cases "q = p") (simp_all add: slot_refs_def split del: if_split)
    have refresh: "\<And>l. lsas ?w p = Some l \<Longrightarrow> 0 \<le> refresh_list l \<Longrightarrow> 0 < X p"
      using counted_ref [OF c, of p] by (auto simp: ref_ok_def)
    obtain r w' where w': "ospf_lsa_unlock (Some p) ?w = Some (r, w')" "counted w' (\<lambda>q. lsdb_refs ?d q + E q) X" "kept ?w w'"
      "\<forall>q. q \<noteq> p \<longrightarrow> lsas w' q = lsas w q"
      using release [of ?w "\<lambda>q. lsdb_refs d q + E q" X p "\<lambda>q. lsdb_refs ?d q + E q" X] c refresh by (auto simp: refs)
    have k: "kept w w'" using w'(3) by (rule kept_trans [rotated]) simp
    have "lsdb_map ?d = (lsdb_map d)((i, k) := None)"
      using lsdb_map_upd [OF t(5), of ?f] t(2) by (simp add: map_of_tab_del)
    moreover have "\<forall>q. lsdb_map d (i, k) \<noteq> Some q \<longrightarrow> lsas w' q = lsas w q"
      using w'(4) t(1) Some by (auto simp: lsdb_map_def)
    moreover have "ospf_lsdb_delete_entry d i k w = Some (?d, w')"
      using t(1) Some l w'(1) by (simp add: ospf_lsdb_delete_entry_def)
    ultimately show ?thesis using lsdb_ok_kept [OF w'(2) k] ok' w'(2) k by (auto simp: db_inv_def)
  qed
qed

lemma lsdb_insert_ok:
  assumes inv: "db_inv w d E X" and l: "lsas w p = Some l" "lsa_data l = Some h" "unat (ls_type h) \<in> set lsa_types"
    and free: "lsdb_map d (unat (ls_type h), ls_prefix_set h) = None"
  shows "\<exists>d' w'. lsdb_insert d p w = Some (d', w') \<and> db_inv w' d' E X \<and> kept w w' \<and>
           lsdb_map d' = (lsdb_map d)((unat (ls_type h), ls_prefix_set h) \<mapsto> p)"
proof -
  let ?i = "unat (ls_type h)" and ?k = "ls_prefix_set h"
  have ok: "lsdb_ok w d" and c: "counted w (\<lambda>p. lsdb_refs d p + E p) X" using inv by (simp_all add: db_inv_def)
  then have len: "length (lsdb_type d) = OSPF_MAX_LSA" by (simp add: lsdb_ok_def)
  obtain t where t: "lsdb_table d ?i = Some t" "slot_db (lsdb_type d ! ?i) = Some t" "tab_ok t"
    "?i < length (lsdb_type d)" by (rule lsdb_tableE [OF ok l(3)])
  have none: "map_of t ?k = None" using free t(1) by (simp add: lsdb_map_def)
  let ?f = "\<lambda>s. s\<lparr>slot_count_self := slot_count_self s + (if IS_LSA_SELF l then 1 else 0),
      slot_count := slot_count s + 1, slot_checksum := slot_checksum s + ucast (ls_checksum h),
      slot_db := Some (tab_put ?k p t)\<rparr>"
  define d' where "d' = (upd_slot ?i ?f d)\<lparr>lsdb_total := lsdb_total d + 1\<rparr>"
  let ?w = "call_hook (new_lsa_hook d) (New_Lsa_Hook p) w"
  have "slot_ok w ?i (lsdb_type d ! ?i)" using ok l(3) by (simp add: lsdb_ok_def)
  then have "slot_ok w ?i (?f (lsdb_type d ! ?i))" by (rule slot_ok_put [OF _ t(2) none refl l(1,2)])
  from lsdb_ok_upd [OF ok l(3), of ?f 1, OF this] have ok': "lsdb_ok w d'" by (simp add: d'_def)
  have refs: "lsdb_refs d' q = lsdb_refs d q + (if q = p then 1 else 0)" for q
    using slot_refs_upd [OF l(3) len, of ?f q] ls_tab.entries_put [OF t(3) none, of p] t(2)
    by (cases "q = p") (simp_all add: slot_refs_def d'_def split del: if_split)
  obtain w' where w': "ospf_lsa_lock p ?w = Some w'" "counted w' (\<lambda>q. lsdb_refs d' q + E q) X" "kept ?w w'"
    using acquire [of ?w "\<lambda>q. lsdb_refs d q + E q" X p l "\<lambda>q. lsdb_refs d' q + E q" X] c l(1) by (auto simp: refs)
  have k: "kept w w'" using w'(3) by (rule kept_trans [rotated]) simp
  have "lsdb_map d' = (lsdb_map d)((?i, ?k) \<mapsto> p)"
    using lsdb_map_upd [OF t(4), of ?f] t(2,3) by (simp add: map_of_tab_put d'_def)
  moreover have "lsdb_insert d p w = Some (d', w')"
    using t(1,4) l w'(1) by (simp add: lsdb_insert_def upd_slot_def d'_def Let_def)
  ultimately show ?thesis using lsdb_ok_kept [OF w'(2) k] ok' w'(2) k by (auto simp: db_inv_def)
qed

lemma lsdb_add_ok:
  assumes inv: "db_inv w d E X" and h: "data_of w p = Some h" "unat (ls_type h) \<in> set lsa_types"
  shows "\<exists>d' w'. ospf_lsdb_add d p w = Some (d', w') \<and> db_inv w' d' E X \<and> kept w w' \<and>
           lsdb_map d' = (lsdb_map d)((unat (ls_type h), ls_prefix_set h) \<mapsto> p)"
proof -
  let ?e = "(unat (ls_type h), ls_prefix_set h)"
  from h(1) obtain l where l: "lsas w p = Some l" "lsa_data l = Some h" by (auto simp: data_of_def split: bind_splits)
  obtain t where t: "lsdb_table d (fst ?e) = Some t"
    using inv h(2) by (auto simp: db_inv_def elim: lsdb_tableE)
  have m: "lsdb_map d ?e = map_of t (snd ?e)" using t by (simp add: lsdb_map_def)
  show ?thesis
  proof (cases "map_of t (snd ?e)")
    case None
    with m have "lsdb_map d ?e = None" by simp
    with lsdb_insert_ok [OF inv l h(2)] None t h(1) show ?thesis by (simp add: ospf_lsdb_add_def)
  next
    case (Some q)
    show ?thesis
    proof (cases "q = p")
      case True
      with Some m have "lsdb_map d = (lsdb_map d)(?e \<mapsto> p)" by auto
      with True Some t h(1) inv show ?thesis by (simp add: ospf_lsdb_add_def)
    next
      case False
      obtain d1 w1 where d1: "ospf_lsdb_delete_entry d (fst ?e) (snd ?e) w = Some (d1, w1)" "db_inv w1 d1 E X" "kept w w1"
        "lsdb_map d1 = (lsdb_map d)(?e := None)" "lsas w1 p = lsas w p"
        using delete_entry_ok [OF inv h(2), of "snd ?e"] False Some m by auto
      obtain d2 w2 where "lsdb_insert d1 p w1 = Some (d2, w2)" "db_inv w2 d2 E X" "kept w1 w2"
        "lsdb_map d2 = (lsdb_map d1)(?e \<mapsto> p)"
        using lsdb_insert_ok [OF d1(2), of p l h] d1(4,5) l h(2) by auto
      with d1 False Some t h(1) show ?thesis by (auto simp: ospf_lsdb_add_def intro: kept_trans)
    qed
  qed
qed

lemma lsdb_delete_ok:
  assumes inv: "db_inv w d E X" and h: "data_of w p = Some h" "unat (ls_type h) \<in> set lsa_types"
  shows "\<exists>d' w'. ospf_lsdb_delete d (Some p) w = Some (d', w') \<and> db_inv w' d' E X \<and> kept w w' \<and>
           lsdb_map d' = (if lsdb_map d (unat (ls_type h), ls_prefix_set h) = Some p
                          then (lsdb_map d)((unat (ls_type h), ls_prefix_set h) := None) else lsdb_map d)"
proof -
  obtain t where t: "lsdb_table d (unat (ls_type h)) = Some t"
    using inv h(2) by (auto simp: db_inv_def elim: lsdb_tableE)
  moreover have "unat (ls_type h) < OSPF_MAX_LSA" using h(2) by (simp add: lsa_types_set OSPF_MAX_LSA_def)
  ultimately show ?thesis
    using delete_entry_ok [OF inv h(2), of "ls_prefix_set h"] h(1) inv
    by (auto simp: ospf_lsdb_delete_def lsdb_map_def)
qed

lemma delete_keys_ok:
  assumes "db_inv w d E X" "i \<in> set lsa_types"
  shows "\<exists>d' w'. lsdb_delete_keys i ks d w = Some (d', w') \<and> db_inv w' d' E X \<and> kept w w' \<and>
           lsdb_map d' = (\<lambda>e. if fst e = i \<and> snd e \<in> set ks then None else lsdb_map d e)"
  using assms(1)
proof (induction ks arbitrary: d w)
  case (Cons k ks)
  obtain d1 w1 where 1: "ospf_lsdb_delete_entry d i k w = Some (d1, w1)" "db_inv w1 d1 E X" "kept w w1"
    "lsdb_map d1 = (lsdb_map d)((i, k) := None)" using delete_entry_ok [OF Cons.prems assms(2), of k] by blast
  obtain d2 w2 where "lsdb_delete_keys i ks d1 w1 = Some (d2, w2)" "db_inv w2 d2 E X" "kept w1 w2"
    "lsdb_map d2 = (\<lambda>e. if fst e = i \<and> snd e \<in> set ks then None else lsdb_map d1 e)"
    using Cons.IH [OF 1(2)] by blast
  with 1 show ?case by (auto intro: kept_trans)
qed simp

lemma delete_types_ok:
  assumes "db_inv w d E X" "set is \<subseteq> set lsa_types"
  shows "\<exists>d' w'. lsdb_delete_types is d w = Some (d', w') \<and> db_inv w' d' E X \<and> kept w w' \<and>
           lsdb_map d' = (\<lambda>e. if fst e \<in> set is then None else lsdb_map d e)"
  using assms
proof (induction "is" arbitrary: d w)
  case (Cons i "is")
  then have i: "i \<in> set lsa_types" by simp
  obtain t where t: "lsdb_table d i = Some t" using Cons.prems i by (auto simp: db_inv_def elim: lsdb_tableE)
  obtain d1 w1 where 1: "lsdb_delete_keys i (map fst t) d w = Some (d1, w1)" "db_inv w1 d1 E X" "kept w w1"
    "lsdb_map d1 = (\<lambda>e. if fst e = i \<and> snd e \<in> set (map fst t) then None else lsdb_map d e)"
    using delete_keys_ok [OF Cons.prems(1) i, of "map fst t"] by blast
  have "lsdb_map d1 = (\<lambda>e. if fst e = i then None else lsdb_map d e)"
    using 1(4) t map_of_eq_None_iff [of t] by (auto simp: lsdb_map_def fun_eq_iff)
  moreover obtain d2 w2 where "lsdb_delete_types is d1 w1 = Some (d2, w2)" "db_inv w2 d2 E X" "kept w1 w2"
    "lsdb_map d2 = (\<lambda>e. if fst e \<in> set is then None else lsdb_map d1 e)"
    using Cons.IH [OF 1(2)] Cons.prems by auto
  ultimately show ?case using 1(1-3) t by (auto intro: kept_trans)
qed simp

lemma lsdb_map_type:
  assumes "lsdb_ok w d" "fst e \<notin> set lsa_types"
  shows "lsdb_map d e = None"
proof (cases "fst e = 0")
  case True
  then show ?thesis using assms by (simp add: lsdb_ok_def lsdb_map_def)
next
  case False
  then show ?thesis
    using assms by (simp add: lsdb_ok_def lsdb_map_def lsdb_table_def lsa_types_set OSPF_MAX_LSA_def)
qed

lemma delete_all_ok:
  assumes "db_inv w d E X"
  shows "\<exists>d' w'. ospf_lsdb_delete_all d w = Some (d', w') \<and> db_inv w' d' E X \<and> kept w w' \<and> lsdb_map d' = Map.empty"
  using delete_types_ok [OF assms, of lsa_types] lsdb_map_type [of w d] assms
  by (auto simp: db_inv_def ospf_lsdb_delete_all_def lsa_types_def [symmetric] fun_eq_iff)

section \<open>Databases that share LSAs\<close>

text \<open>
  Several databases over one store, as in a running daemon: the databases of the areas and of the
  instance, and the request, retransmission and summary lists of the neighbours.  \<open>sys_held\<close> counts the
  references the rest of the daemon holds.
\<close>

record lsa_sys = lsa_world +
  sys_dbs :: "ospf_lsdb list"
  sys_held :: "ptr \<Rightarrow> nat"

datatype lsa_op =
    New nat
  | Fill ptr lsa_header
  | Dup ptr
  | Lock ptr
  | Unlock ptr
  | Discard ptr
  | Add nat ptr
  | Delete nat ptr
  | Delete_All nat

definition sys_init :: "nat \<Rightarrow> lsa_sys" where
  "sys_init n = \<lparr>lsas = Map.empty, next_lsa = 0, now = 0, lsa_calls = [],
                 sys_dbs = replicate n ospf_lsdb_new, sys_held = (\<lambda>p. 0)\<rparr>"

definition on_db ::
    "nat \<Rightarrow> (ospf_lsdb \<Rightarrow> lsa_sys \<Rightarrow> (ospf_lsdb \<times> lsa_sys) option) \<Rightarrow> lsa_sys \<Rightarrow> lsa_sys option" where
  "on_db i f s = do {
     (d, s) \<leftarrow> f (sys_dbs s ! i) s;
     Some (s\<lparr>sys_dbs := (sys_dbs s)[i := d]\<rparr>) }"

text \<open>\<open>Fill\<close> is the code that writes a new LSA before any database knows it.\<close>

fun sys_step :: "lsa_op \<Rightarrow> lsa_sys \<Rightarrow> lsa_sys option" where
  "sys_step (New sz) s = map_option snd (ospf_lsa_new_and_data sz s)"
| "sys_step (Fill p h) s = upd_lsa p (\<lambda>l. l\<lparr>lsa_data := Some h\<rparr>) s"
| "sys_step (Dup p) s = map_option snd (ospf_lsa_dup (Some p) s)"
| "sys_step (Lock p) s =
     map_option (\<lambda>s. s\<lparr>sys_held := (sys_held s)(p := sys_held s p + 1)\<rparr>) (ospf_lsa_lock p s)"
| "sys_step (Unlock p) s =
     map_option (\<lambda>(_, s). s\<lparr>sys_held := (sys_held s)(p := sys_held s p - 1)\<rparr>) (ospf_lsa_unlock (Some p) s)"
| "sys_step (Discard p) s = ospf_lsa_discard p s"
| "sys_step (Add i p) s = on_db i (\<lambda>d. ospf_lsdb_add d p) s"
| "sys_step (Delete i p) s = on_db i (\<lambda>d. ospf_lsdb_delete d (Some p)) s"
| "sys_step (Delete_All i) s = on_db i ospf_lsdb_delete_all s"

definition sys_refs :: "ospf_lsdb list \<Rightarrow> ptr \<Rightarrow> nat" where
  "sys_refs ds p = (\<Sum>d\<leftarrow>ds. lsdb_refs d p)"

text \<open>
  What the callers see to: they use live LSAs, only give up references they hold, keep the one of
  the refresh list while the LSA is on it, and only put LSAs of a type the database has a table for into it.
\<close>

definition live :: "lsa_sys \<Rightarrow> ptr \<Rightarrow> bool" where
  "live s p \<longleftrightarrow> lsas s p \<noteq> None"

definition typed :: "lsa_sys \<Rightarrow> ptr \<Rightarrow> bool" where
  "typed s p = (case data_of s p of None \<Rightarrow> False | Some h \<Rightarrow> unat (ls_type h) \<in> set lsa_types)"

fun legal :: "lsa_op \<Rightarrow> lsa_sys \<Rightarrow> bool" where
  "legal (New sz) s = True"
| "legal (Fill p h) s = (live s p \<and> sys_refs (sys_dbs s) p = 0)"
| "legal (Dup p) s = (case data_of s p of None \<Rightarrow> False | Some h \<Rightarrow> ospf_lsa_data_dup h \<noteq> None)"
| "legal (Lock p) s = live s p"
| "legal (Unlock p) s =
     (case lsas s p of None \<Rightarrow> False | Some l \<Rightarrow> (if 0 \<le> refresh_list l then 1 else 0) < sys_held s p)"
| "legal (Discard p) s = live s p"
| "legal (Add i p) s = (i < length (sys_dbs s) \<and> typed s p)"
| "legal (Delete i p) s = (i < length (sys_dbs s) \<and> typed s p)"
| "legal (Delete_All i) s = (i < length (sys_dbs s))"

fun legal_trace :: "lsa_op list \<Rightarrow> lsa_sys \<Rightarrow> bool" where
  "legal_trace [] s = True"
| "legal_trace (op # ops) s =
     (legal op s \<and> (case sys_step op s of None \<Rightarrow> True | Some s \<Rightarrow> legal_trace ops s))"

fun sys_run :: "lsa_op list \<Rightarrow> lsa_sys \<Rightarrow> lsa_sys option" where
  "sys_run [] s = Some s"
| "sys_run (op # ops) s = do { s \<leftarrow> sys_step op s; sys_run ops s }"

definition sys_inv :: "lsa_sys \<Rightarrow> bool" where
  "sys_inv s \<longleftrightarrow> (\<forall>d\<in>set (sys_dbs s). lsdb_ok s d) \<and> counted s (sys_refs (sys_dbs s)) (sys_held s)"

lemma sys_refs_member: "d \<in> set ds \<Longrightarrow> lsdb_refs d p \<le> sys_refs ds p"
  unfolding sys_refs_def by (induction ds) auto

lemma sys_refs_update:
  "i < length ds \<Longrightarrow> sys_refs (ds[i := d]) p + lsdb_refs (ds ! i) p = sys_refs ds p + lsdb_refs d p"
  unfolding sys_refs_def by (induction ds arbitrary: i) (auto split: nat.split)

lemma lsdb_ok_beside:
  assumes "counted w' T X" "kept w w'" "lsdb_ok w d" "\<And>p. lsdb_refs d p \<le> T p"
  shows "lsdb_ok w' d"
proof -
  have "counted w' (\<lambda>p. lsdb_refs d p + (T p - lsdb_refs d p)) X" using assms(1,4) by simp
  from lsdb_ok_kept [OF this assms(2)] assms(3) show ?thesis by simp
qed

lemma sys_kept:
  assumes "sys_inv s" "counted w (sys_refs (sys_dbs s)) X" "kept s w" "sys_dbs w = sys_dbs s"
  shows "\<forall>d\<in>set (sys_dbs w). lsdb_ok w d"
  using assms lsdb_ok_beside [OF assms(2,3)] sys_refs_member by (auto simp: sys_inv_def)

lemma kept_sys: "kept s s' \<Longrightarrow> sys_dbs s' = sys_dbs s \<and> sys_held s' = sys_held s"
  by (cases s; cases s') (simp add: kept_def)

lemma counted_more:
  "counted (s\<lparr>sys_dbs := ds\<rparr>) = counted s" "counted (s\<lparr>sys_held := x\<rparr>) = counted s"
  "lsdb_ok (s\<lparr>sys_dbs := ds\<rparr>) = lsdb_ok s" "lsdb_ok (s\<lparr>sys_held := x\<rparr>) = lsdb_ok s"
  by (auto simp: counted_def fun_eq_iff lsa_view_def intro!: lsdb_ok_cong)

lemma on_db_ok:
  assumes inv: "sys_inv s" and i: "i < length (sys_dbs s)"
    and f: "\<And>E. db_inv s (sys_dbs s ! i) E (sys_held s) \<Longrightarrow>
              \<exists>d w. f (sys_dbs s ! i) s = Some (d, w) \<and> db_inv w d E (sys_held s) \<and> kept s w"
  shows "\<exists>s'. on_db i f s = Some s' \<and> sys_inv s'"
proof -
  let ?ds = "sys_dbs s" and ?d = "sys_dbs s ! i"
  let ?E = "\<lambda>p. sys_refs ?ds p - lsdb_refs ?d p"
  have le: "lsdb_refs ?d p \<le> sys_refs ?ds p" for p using i by (simp add: sys_refs_member)
  have "db_inv s ?d ?E (sys_held s)" using inv i le by (simp add: db_inv_def sys_inv_def)
  from f [OF this] obtain d w where w: "f ?d s = Some (d, w)" "db_inv w d ?E (sys_held s)" "kept s w" by blast
  have "sys_refs (?ds[i := d]) = (\<lambda>p. lsdb_refs d p + ?E p)"
  proof
    fix p
    show "sys_refs (?ds[i := d]) p = lsdb_refs d p + ?E p" using sys_refs_update [OF i, of d p] le [of p] by linarith
  qed
  with w have c: "counted w (sys_refs (?ds[i := d])) (sys_held s)" "lsdb_ok w d" by (simp_all add: db_inv_def)
  have "lsdb_ok w e" if e: "e \<in> set (?ds[i := d])" for e
  proof (cases "e = d")
    case False
    with e have "e \<in> set ?ds" using set_update_subset_insert by fastforce
    with inv have "lsdb_ok s e" by (simp add: sys_inv_def)
    with c(1) w(3) show ?thesis by (rule lsdb_ok_beside) (rule sys_refs_member [OF e])
  qed (simp add: c(2))
  with c(1) w show ?thesis
    using kept_sys [OF w(3)] by (simp add: on_db_def sys_inv_def counted_more)
qed

lemma typedE:
  assumes "typed s p"
  obtains h where "data_of s p = Some h" "unat (ls_type h) \<in> set lsa_types"
  using assms by (auto simp: typed_def split: option.splits)

lemma add_step_ok: "sys_inv s \<Longrightarrow> legal (Add i p) s \<Longrightarrow> \<exists>s'. sys_step (Add i p) s = Some s' \<and> sys_inv s'"
  using on_db_ok [of s i "\<lambda>d. ospf_lsdb_add d p"] lsdb_add_ok [of s "sys_dbs s ! i" _ "sys_held s" p]
  by (fastforce elim: typedE)

lemma delete_step_ok: "sys_inv s \<Longrightarrow> legal (Delete i p) s \<Longrightarrow> \<exists>s'. sys_step (Delete i p) s = Some s' \<and> sys_inv s'"
  using on_db_ok [of s i "\<lambda>d. ospf_lsdb_delete d (Some p)"] lsdb_delete_ok [of s "sys_dbs s ! i" _ "sys_held s" p]
  by (fastforce elim: typedE)

lemma delete_all_step_ok:
  "sys_inv s \<Longrightarrow> legal (Delete_All i) s \<Longrightarrow> \<exists>s'. sys_step (Delete_All i) s = Some s' \<and> sys_inv s'"
  using on_db_ok [of s i ospf_lsdb_delete_all] delete_all_ok [of s "sys_dbs s ! i" _ "sys_held s"] by fastforce

lemma alloc_ok:
  assumes inv: "sys_inv s" and l: "lsa_lock l = 1" "refresh_list l < 0" "\<not> discarded l"
  shows "sys_inv (s\<lparr>lsas := (lsas s)(next_lsa s \<mapsto> l), next_lsa := Suc (next_lsa s)\<rparr>)" (is "sys_inv ?s")
proof -
  have c: "counted s (sys_refs (sys_dbs s)) (sys_held s)" using inv by (simp add: sys_inv_def)
  then have n: "lsas s (next_lsa s) = None" by (simp add: counted_def)
  then have "sys_refs (sys_dbs s) (next_lsa s) = 0" "sys_held s (next_lsa s) = 0"
    using counted_ref [OF c, of "next_lsa s"] by (simp_all add: ref_ok_def)
  then have "counted ?s (sys_refs (sys_dbs s)) (sys_held s)"
    using c l by (auto simp: counted_def ref_ok_def)
  moreover have "lsdb_ok ?s d" if "d \<in> set (sys_dbs s)" for d
  proof -
    have "lsdb_refs d (next_lsa s) = 0"
      using sys_refs_member [OF that, of "next_lsa s"] \<open>sys_refs (sys_dbs s) (next_lsa s) = 0\<close> by simp
    then have "lsdb_ok ?s d = lsdb_ok s d" by (intro lsdb_ok_cong) (auto simp: lsa_view_def)
    with inv that show ?thesis by (simp add: sys_inv_def)
  qed
  ultimately show ?thesis by (simp add: sys_inv_def)
qed

lemma new_step_ok: "sys_inv s \<Longrightarrow> \<exists>s'. sys_step (New sz) s = Some s' \<and> sys_inv s'"
  using alloc_ok [of s "\<lparr>lsa_flags = 0, lsa_data = Some (ospf_lsa_data_new sz), tv_recv = now s, tv_orig = now s,
      lsa_lock = 1, lsa_stat = 0, retransmit_counter = 0, lsa_area = None, refresh_list = - 1, lsa_oi = None, lsa_vrf_id = 0\<rparr>"]
  by (cases s) (simp add: ospf_lsa_new_and_data_def ospf_lsa_new_def upd_lsa_def discarded_def CHECK_FLAG_def Let_def)

lemma not_discarded_unset: "\<not> CHECK_FLAG (UNSET_FLAG f OSPF_LSA_DISCARD) OSPF_LSA_DISCARD"
  by (simp add: CHECK_FLAG_def UNSET_FLAG_def and.assoc)

lemma dup_step_ok: "sys_inv s \<Longrightarrow> legal (Dup p) s \<Longrightarrow> \<exists>s'. sys_step (Dup p) s = Some s' \<and> sys_inv s'"
  by (auto simp: ospf_lsa_dup_def data_of_def discarded_def not_discarded_unset Let_def split: bind_splits option.splits intro!: alloc_ok)

lemma sys_upd:
  assumes inv: "sys_inv s" and l: "lsas s p = Some l"
    and r: "ref_ok v (sys_refs (sys_dbs s) p) (x p)" and x: "\<And>q. q \<noteq> p \<Longrightarrow> x q = sys_held s q"
    and v: "0 < sys_refs (sys_dbs s) p \<Longrightarrow> map_option (\<lambda>l. (lsa_data l, IS_LSA_SELF l)) v = Some (lsa_data l, IS_LSA_SELF l)"
  shows "sys_inv (s\<lparr>lsas := (lsas s)(p := v), sys_held := x\<rparr>)" (is "sys_inv ?s")
proof -
  have c: "counted s (sys_refs (sys_dbs s)) (sys_held s)" using inv by (simp add: sys_inv_def)
  have "counted ?s (sys_refs (sys_dbs s)) x"
    using counted_upd [where D' = "sys_refs (sys_dbs s)" and X' = x, OF c counted_live [OF c l] r] x by (simp add: counted_more)
  moreover have "lsdb_ok ?s d" if "d \<in> set (sys_dbs s)" for d
  proof -
    have "0 < lsdb_refs d p \<Longrightarrow> 0 < sys_refs (sys_dbs s) p"
      using sys_refs_member [OF that, of p] by linarith
    then have "lsdb_ok ?s d = lsdb_ok s d" using l v by (intro lsdb_ok_cong) (auto simp: lsa_view_def)
    with inv that show ?thesis by (simp add: sys_inv_def)
  qed
  ultimately show ?thesis by (simp add: sys_inv_def)
qed

lemma fill_step_ok: "sys_inv s \<Longrightarrow> legal (Fill p h) s \<Longrightarrow> \<exists>s'. sys_step (Fill p h) s = Some s' \<and> sys_inv s'"
proof -
  assume inv: "sys_inv s" and leg: "legal (Fill p h) s"
  then obtain l where l: "lsas s p = Some l" by (auto simp: live_def)
  have "ref_ok (lsas s p) (sys_refs (sys_dbs s) p) (sys_held s p)"
    using inv by (auto simp: sys_inv_def intro: counted_ref)
  then have "sys_inv (s\<lparr>lsas := (lsas s)(p \<mapsto> l\<lparr>lsa_data := Some h\<rparr>), sys_held := sys_held s\<rparr>)"
    using leg l by (intro sys_upd [OF inv l]) (auto simp: ref_ok_def discarded_def)
  with l show ?thesis by (simp add: upd_lsa_def)
qed

lemma lock_step_ok: "sys_inv s \<Longrightarrow> legal (Lock p) s \<Longrightarrow> \<exists>s'. sys_step (Lock p) s = Some s' \<and> sys_inv s'"
proof -
  assume inv: "sys_inv s" and leg: "legal (Lock p) s"
  then obtain l where l: "lsas s p = Some l" by (auto simp: live_def)
  have "ref_ok (lsas s p) (sys_refs (sys_dbs s) p) (sys_held s p)"
    using inv by (auto simp: sys_inv_def intro: counted_ref)
  then have "sys_inv (s\<lparr>lsas := (lsas s)(p \<mapsto> l\<lparr>lsa_lock := lsa_lock l + 1\<rparr>), sys_held := (sys_held s)(p := sys_held s p + 1)\<rparr>)"
    using l by (intro sys_upd [OF inv l]) (auto simp: ref_ok_def discarded_def IS_LSA_SELF_def)
  with l show ?thesis by (simp add: ospf_lsa_lock_def upd_lsa_def)
qed

lemma unlock_step_ok: "sys_inv s \<Longrightarrow> legal (Unlock p) s \<Longrightarrow> \<exists>s'. sys_step (Unlock p) s = Some s' \<and> sys_inv s'"
proof -
  assume inv: "sys_inv s" and leg: "legal (Unlock p) s"
  let ?X = "(sys_held s)(p := sys_held s p - 1)"
  have "sys_refs (sys_dbs s) p + sys_held s p = Suc (sys_refs (sys_dbs s) p + ?X p)"
    using leg by (simp split: option.splits)
  moreover have "\<And>l. lsas s p = Some l \<Longrightarrow> 0 \<le> refresh_list l \<Longrightarrow> 0 < ?X p"
    using leg by simp
  moreover have "counted s (sys_refs (sys_dbs s)) (sys_held s)" using inv by (simp add: sys_inv_def)
  ultimately obtain r w where w: "ospf_lsa_unlock (Some p) s = Some (r, w)" "counted w (sys_refs (sys_dbs s)) ?X" "kept s w"
    using release [of s "sys_refs (sys_dbs s)" "sys_held s" p "sys_refs (sys_dbs s)" ?X] by auto
  then show ?thesis
    using sys_kept [OF inv w(2,3)] kept_sys [OF w(3)] by (simp add: sys_inv_def counted_more)
qed

lemma discard_flags:
  "CHECK_FLAG (SET_FLAG f OSPF_LSA_DISCARD) OSPF_LSA_DISCARD"
  "CHECK_FLAG (SET_FLAG f OSPF_LSA_DISCARD) OSPF_LSA_SELF = CHECK_FLAG f OSPF_LSA_SELF"
  by (simp_all add: CHECK_FLAG_def SET_FLAG_def OSPF_LSA_DISCARD_def OSPF_LSA_SELF_def and.commute bit.conj_disj_distrib)

lemma discard_step_ok: "sys_inv s \<Longrightarrow> legal (Discard p) s \<Longrightarrow> \<exists>s'. sys_step (Discard p) s = Some s' \<and> sys_inv s'"
proof -
  assume inv: "sys_inv s" and leg: "legal (Discard p) s"
  then obtain l where l: "lsas s p = Some l" by (auto simp: live_def)
  have r: "ref_ok (Some l) (sys_refs (sys_dbs s) p) (sys_held s p)"
    using inv l [symmetric] by (auto simp: sys_inv_def intro: counted_ref)
  show ?thesis
  proof (cases "discarded l")
    case True
    with l inv show ?thesis by (simp add: ospf_lsa_discard_def discarded_def)
  next
    case False
    let ?l = "l\<lparr>lsa_flags := SET_FLAG (lsa_flags l) OSPF_LSA_DISCARD, lsa_lock := lsa_lock l - 1\<rparr>"
    let ?v = "if lsa_lock l = 1 then None else Some ?l"
    have "ospf_lsa_discard p s = Some (s\<lparr>lsas := (lsas s)(p := ?v), sys_held := sys_held s\<rparr>)"
      using False l r by (auto simp: ospf_lsa_discard_def upd_lsa_def ospf_lsa_unlock_def ospf_lsa_free_def
          discarded_def discard_flags ref_ok_def)
    moreover have "sys_inv (s\<lparr>lsas := (lsas s)(p := ?v), sys_held := sys_held s\<rparr>)"
      using False r by (intro sys_upd [OF inv l]) (auto simp: ref_ok_def discarded_def discard_flags IS_LSA_SELF_def)
    ultimately show ?thesis by simp
  qed
qed

lemmas sys_step_ok =
  new_step_ok fill_step_ok dup_step_ok lock_step_ok unlock_step_ok discard_step_ok add_step_ok delete_step_ok delete_all_step_ok

lemma step_ok: "sys_inv s \<Longrightarrow> legal op s \<Longrightarrow> \<exists>s'. sys_step op s = Some s' \<and> sys_inv s'"
  by (cases op) (simp_all only: sys_step_ok)

lemma run_ok: "sys_inv s \<Longrightarrow> legal_trace ops s \<Longrightarrow> \<exists>s'. sys_run ops s = Some s' \<and> sys_inv s'"
proof (induction ops arbitrary: s)
  case (Cons op ops)
  obtain s1 where "sys_step op s = Some s1" "sys_inv s1" using step_ok [OF Cons.prems(1), of op] Cons.prems(2) by auto
  with Cons show ?case by simp
qed simp

lemma lsdb_new_eq:
  "ospf_lsdb_new =
     \<lparr>lsdb_type = \<lparr>slot_count = 0, slot_count_self = 0, slot_checksum = 0, slot_db = None\<rparr> #
        replicate 14 \<lparr>slot_count = 0, slot_count_self = 0, slot_checksum = 0, slot_db = Some []\<rparr>,
      lsdb_total = 0, new_lsa_hook = False, del_lsa_hook = False\<rparr>"
  by code_simp

lemma lsdb_new_slot:
  "i \<in> set lsa_types \<Longrightarrow> lsdb_type ospf_lsdb_new ! i =
     \<lparr>slot_count = 0, slot_count_self = 0, slot_checksum = 0, slot_db = Some []\<rparr>"
  by (auto simp: lsdb_new_eq lsa_types_set nth_Cons' less_diff_conv2)

lemma lsdb_new_ok: "lsdb_ok w ospf_lsdb_new" "lsdb_refs ospf_lsdb_new p = 0" "lsdb_map ospf_lsdb_new = Map.empty"
proof -
  have 0: "length (lsdb_type ospf_lsdb_new) = OSPF_MAX_LSA" "lsdb_table ospf_lsdb_new 0 = None" "lsdb_total ospf_lsdb_new = 0"
    by (simp_all add: lsdb_new_eq lsdb_table_def OSPF_MAX_LSA_def)
  then show "lsdb_ok w ospf_lsdb_new"
    by (simp add: lsdb_ok_def slot_ok_def lsdb_new_slot slot_sum_def tab_ok_def)
  show "lsdb_refs ospf_lsdb_new p = 0"
    by (simp add: lsdb_refs_def slot_sum_def lsdb_new_slot slot_refs_def)
  show "lsdb_map ospf_lsdb_new = Map.empty"
    by (auto simp: fun_eq_iff lsdb_map_def lsdb_table_def lsdb_new_eq nth_Cons' split: option.splits)
qed

lemma sys_init_ok: "sys_inv (sys_init n)"
proof -
  have "sys_refs (replicate n ospf_lsdb_new) p = 0" for p
    by (simp add: sys_refs_def map_replicate lsdb_new_ok sum_list_replicate)
  then show ?thesis by (simp add: sys_inv_def sys_init_def lsdb_new_ok counted_def ref_ok_def)
qed

lemma ls_key_inject: "ls_key a b = ls_key c d \<longleftrightarrow> a = c \<and> b = d"
proof
  assume e: "ls_key a b = ls_key c d"
  have b: "bit (ls_key x y) n = (if n < 32 then bit y n else n < 64 \<and> bit x (n - 32))" for x y :: u32 and n
    by (auto simp: ls_key_def bit_simps dest: bit_imp_le_length)
  have "a = c"
  proof (rule bit_word_eqI)
    fix n assume "n < LENGTH(32)"
    then show "bit a n = bit c n" using b [of a b "n + 32"] b [of c d "n + 32"] e by simp
  qed
  moreover have "b = d"
  proof (rule bit_word_eqI)
    fix n assume "n < LENGTH(32)"
    then show "bit b n = bit d n" using b [of a b n] b [of c d n] e by simp
  qed
  ultimately show "a = c \<and> b = d" ..
qed simp

lemma lookup_by_id_map:
  assumes "lsdb_ok w d" "unat ty \<in> set lsa_types"
  shows "ospf_lsdb_lookup_by_id d ty lsid adv = Some (lsdb_map d (unat ty, ls_key lsid adv))"
  by (rule lsdb_tableE [OF assms]) (simp add: ospf_lsdb_lookup_by_id_def lsdb_map_def)

lemma lsdb_map_live:
  assumes "lsdb_ok w d" "lsdb_map d (i, k) = Some p"
  shows "\<exists>h. data_of w p = Some h \<and> unat (ls_type h) = i \<and> ls_prefix_set h = k \<and> 0 < lsdb_refs d p"
proof -
  have i: "i \<in> set lsa_types"
    using lsdb_map_type [OF assms(1), of "(i, k)"] assms(2) by auto
  obtain t where t: "lsdb_table d i = Some t" "slot_db (lsdb_type d ! i) = Some t" "\<forall>e\<in>set t. entry_ok w i e"
    by (rule lsdb_tableE [OF assms(1) i])
  have e: "(k, p) \<in> set t" using assms(2) t(1) by (auto simp: lsdb_map_def dest: map_of_SomeD)
  with t(3) have "entry_ok w i (k, p)" by blast
  with lsdb_refs_entry [OF i t(2) e] show ?thesis by (auto simp: data_of_def elim!: entry_okE)
qed

lemma kept_data:
  assumes "kept w w'" "data_of w' p = Some h"
  shows "data_of w p = Some h"
proof -
  have "kept_at (lsas w p) (lsas w' p)" using assms(1) by (simp add: kept_def)
  with assms(2) show ?thesis by (auto simp: data_of_def kept_at_def split: option.splits bind_splits)
qed

lemma lsdb_count_card:
  assumes "lsdb_ok w d" "i \<in> set lsa_types"
  shows "ospf_lsdb_count d i = Some (of_nat (card {k. lsdb_map d (i, k) \<noteq> None}))"
proof -
  obtain t where t: "lsdb_table d i = Some t" "slot_db (lsdb_type d ! i) = Some t" "tab_ok t" "i < length (lsdb_type d)"
    by (rule lsdb_tableE [OF assms])
  have "{k. lsdb_map d (i, k) \<noteq> None} = set (map fst t)"
    using t(1) map_of_eq_None_iff [of t] by (auto simp: lsdb_map_def)
  then have "card {k. lsdb_map d (i, k) \<noteq> None} = length t"
    using distinct_card [OF tab_ok_distinct [OF t(3)]] by simp
  moreover have "slot_count (lsdb_type d ! i) = of_nat (length t)"
    using assms t(2) by (auto simp: lsdb_ok_def slot_ok_def)
  ultimately show ?thesis using t(4) by (simp add: ospf_lsdb_count_def lsdb_slot_def)
qed

section \<open>Properties\<close>

text \<open>
  C27. Reference counting of LSAs is memory safe.  However LSAs are created, copied, locked, unlocked,
  discarded and moved in and out of any number of databases that share them, as long as callers only give
  up references they hold, no assertion of the code fails and nothing that was freed is touched; every
  entry of every database is a live LSA filed under its own type and key; and an LSA that was discarded
  and that nobody refers to any more has been freed.
\<close>

theorem lsa_refcount_safe:
  assumes "legal_trace ops (sys_init n)"
  shows "\<exists>s. sys_run ops (sys_init n) = Some s \<and>
     (\<forall>d i k p. d \<in> set (sys_dbs s) \<and> lsdb_map d (i, k) = Some p \<longrightarrow>
        (\<exists>h. data_of s p = Some h \<and> unat (ls_type h) = i \<and> ls_prefix_set h = k)) \<and>
     (\<forall>p l. lsas s p = Some l \<and> discarded l \<longrightarrow> 0 < sys_refs (sys_dbs s) p + sys_held s p)"
proof -
  obtain s where s: "sys_run ops (sys_init n) = Some s" "sys_inv s" using run_ok [OF sys_init_ok assms] by blast
  then have "\<exists>h. data_of s p = Some h \<and> unat (ls_type h) = i \<and> ls_prefix_set h = k"
    if "d \<in> set (sys_dbs s) \<and> lsdb_map d (i, k) = Some p" for d i k p
    using that lsdb_map_live [of s d i k p] by (auto simp: sys_inv_def)
  moreover have "0 < sys_refs (sys_dbs s) p + sys_held s p" if "lsas s p = Some l \<and> discarded l" for p l
    using that s(2) counted_ref [of s "sys_refs (sys_dbs s)" "sys_held s" p] by (auto simp: sys_inv_def ref_ok_def)
  ultimately show ?thesis using s(1) by blast
qed

theorem lsa_refcount_safe_witness:
  "let h = (ospf_lsa_data_new 20)\<lparr>ls_type := 1, ls_id := 7, ls_length := 20\<rparr>
   in \<exists>s. sys_run [New 20, Fill 0 h, Add 0 0, Discard 0]
            (sys_init 1) = Some s"
proof -
  let ?h = "(ospf_lsa_data_new 20)\<lparr>ls_type := 1, ls_id := 7, ls_length := 20\<rparr>"
  have "legal_trace [New 20, Fill 0 ?h, Add 0 0, Discard 0] (sys_init 1)"
    by code_simp
  from lsa_refcount_safe [OF this] show ?thesis by (simp only: Let_def) blast
qed

text \<open>
  C28. A database refines a map from type, LS id and advertising router to LSAs: after
  \<^verbatim>\<open>ospf_lsdb_add\<close>, which succeeds, \<^verbatim>\<open>ospf_lsdb_lookup_by_id\<close> finds the added LSA under its own key,
  whatever was there before, and gives the same answer as before under every other key; after
  \<^verbatim>\<open>ospf_lsdb_delete\<close> of that LSA its key is free and all others are as before.
\<close>

theorem lsdb_refines_map:
  assumes "db_inv w d E X" "data_of w p = Some h" "unat (ls_type h) \<in> set lsa_types"
  shows "\<exists>d1 w1. ospf_lsdb_add d p w = Some (d1, w1) \<and> db_inv w1 d1 E X \<and>
     (\<exists>d2 w2. ospf_lsdb_delete d1 (Some p) w1 = Some (d2, w2) \<and> db_inv w2 d2 E X \<and>
        (\<forall>ty lsid adv. unat ty \<in> set lsa_types \<longrightarrow>
          (if (ty, lsid, adv) = (ls_type h, ls_id h, ls_adv_router h)
           then ospf_lsdb_lookup_by_id d1 ty lsid adv = Some (Some p) \<and>
                ospf_lsdb_lookup_by_id d2 ty lsid adv = Some None
           else ospf_lsdb_lookup_by_id d1 ty lsid adv = ospf_lsdb_lookup_by_id d ty lsid adv \<and>
                ospf_lsdb_lookup_by_id d2 ty lsid adv = ospf_lsdb_lookup_by_id d ty lsid adv)))"
proof -
  let ?e = "(unat (ls_type h), ls_prefix_set h)"
  obtain d1 w1 where 1: "ospf_lsdb_add d p w = Some (d1, w1)" "db_inv w1 d1 E X" "kept w w1"
    "lsdb_map d1 = (lsdb_map d)(?e \<mapsto> p)" using lsdb_add_ok [OF assms] by blast
  have "lsdb_map d1 ?e = Some p" using 1(4) by simp
  then have h1: "data_of w1 p = Some h"
    using lsdb_map_live [of w1 d1 "fst ?e" "snd ?e" p] 1(2,3) assms(2) kept_data [OF 1(3)] by (auto simp: db_inv_def)
  obtain d2 w2 where 2: "ospf_lsdb_delete d1 (Some p) w1 = Some (d2, w2)" "db_inv w2 d2 E X"
    "lsdb_map d2 = (lsdb_map d1)(?e := None)"
    using lsdb_delete_ok [OF 1(2) h1 assms(3)] 1(4) by auto
  have "lsdb_ok w d" "lsdb_ok w1 d1" "lsdb_ok w2 d2" using assms(1) 1(2) 2(2) by (simp_all add: db_inv_def)
  note look = this [THEN lookup_by_id_map]
  have key: "(unat ty, ls_key lsid adv) = ?e \<longleftrightarrow> (ty, lsid, adv) = (ls_type h, ls_id h, ls_adv_router h)" for ty lsid adv
    by (simp add: ls_prefix_set_def ls_key_inject word_unat_eq_iff [of ty])
  have "if (ty, lsid, adv) = (ls_type h, ls_id h, ls_adv_router h)
        then ospf_lsdb_lookup_by_id d1 ty lsid adv = Some (Some p) \<and> ospf_lsdb_lookup_by_id d2 ty lsid adv = Some None
        else ospf_lsdb_lookup_by_id d1 ty lsid adv = ospf_lsdb_lookup_by_id d ty lsid adv \<and>
             ospf_lsdb_lookup_by_id d2 ty lsid adv = ospf_lsdb_lookup_by_id d ty lsid adv"
    if "unat ty \<in> set lsa_types" for ty lsid adv
    unfolding look(1) [OF that] look(2) [OF that] look(3) [OF that] 1(4) 2(3) fun_upd_apply key by simp
  with 1(1,2) 2(1,2) show ?thesis by blast
qed

theorem lsdb_refines_map_witness:
  "let h = (ospf_lsa_data_new 20)\<lparr>ls_type := 1, ls_id := 7, ls_adv_router := 9\<rparr>;
       l = \<lparr>lsa_flags = 0, lsa_data = Some h, tv_recv = 0, tv_orig = 0, lsa_lock = 1, lsa_stat = 0, retransmit_counter = 0,
            lsa_area = None, refresh_list = - 1, lsa_oi = None, lsa_vrf_id = 0\<rparr>;
       w = \<lparr>lsas = [0 \<mapsto> l], next_lsa = 1, now = 0, lsa_calls = []\<rparr>
   in \<exists>d1 w1. ospf_lsdb_add ospf_lsdb_new 0 w = Some (d1, w1) \<and> ospf_lsdb_lookup_by_id d1 1 7 9 = Some (Some 0)"
proof -
  let ?h = "(ospf_lsa_data_new 20)\<lparr>ls_type := 1, ls_id := 7, ls_adv_router := 9\<rparr>"
  let ?l = "\<lparr>lsa_flags = 0, lsa_data = Some ?h, tv_recv = 0, tv_orig = 0, lsa_lock = 1, lsa_stat = 0, retransmit_counter = 0,
      lsa_area = None, refresh_list = - 1, lsa_oi = None, lsa_vrf_id = 0\<rparr>"
  let ?w = "\<lparr>lsas = [0 \<mapsto> ?l], next_lsa = 1, now = 0, lsa_calls = []\<rparr>"
  have "db_inv ?w ospf_lsdb_new (\<lambda>p. 0) (\<lambda>p. 0)"
    by (simp add: db_inv_def lsdb_new_ok counted_def ref_ok_def discarded_def CHECK_FLAG_def)
  moreover have "data_of ?w 0 = Some ?h" by (simp add: data_of_def)
  moreover have "unat (ls_type ?h) \<in> set lsa_types" by (simp add: lsa_types_set)
  ultimately have "\<exists>d1 w1. ospf_lsdb_add ospf_lsdb_new 0 ?w = Some (d1, w1) \<and> ospf_lsdb_lookup_by_id d1 1 7 9 = Some (Some 0)"
    using lsdb_refines_map [of ?w ospf_lsdb_new "\<lambda>p. 0" "\<lambda>p. 0" 0 ?h] by (fastforce simp: lsa_types_set)
  then show ?thesis by (simp only: Let_def)
qed

text \<open>
  C29. The counters of a database are those of its contents: in every state reached by legal operations the
  count of a type is the number of its keys, and the total is the sum over the types.
\<close>

theorem lsdb_counters:
  assumes "legal_trace ops (sys_init n)" "sys_run ops (sys_init n) = Some s" "d \<in> set (sys_dbs s)"
  shows "(\<forall>i\<in>set lsa_types. ospf_lsdb_count d i = Some (of_nat (card {k. lsdb_map d (i, k) \<noteq> None}))) \<and>
         ospf_lsdb_count_all d = (\<Sum>i\<in>set lsa_types. of_nat (card {k. lsdb_map d (i, k) \<noteq> None}))"
proof -
  have ok: "lsdb_ok s d" using run_ok [OF sys_init_ok assms(1)] assms(2,3) by (auto simp: sys_inv_def)
  have "slot_count (lsdb_type d ! i) = of_nat (card {k. lsdb_map d (i, k) \<noteq> None})" if "i \<in> set lsa_types" for i
    using lsdb_count_card [OF ok that] by (auto simp: ospf_lsdb_count_def lsdb_slot_def split: if_splits)
  then have "ospf_lsdb_count_all d = (\<Sum>i\<in>set lsa_types. of_nat (card {k. lsdb_map d (i, k) \<noteq> None}))"
    using ok by (simp add: ospf_lsdb_count_all_def lsdb_ok_def slot_sum_def)
  with lsdb_count_card [OF ok] show ?thesis by blast
qed

theorem lsdb_counters_witness:
  "let h = (ospf_lsa_data_new 20)\<lparr>ls_type := 1, ls_id := 7, ls_length := 20\<rparr>;
       ops = [New 20, Fill 0 h, Add 0 0]
   in \<forall>d \<in> set (sys_dbs (the (sys_run ops (sys_init 1)))).
        ospf_lsdb_count_all d = (\<Sum>i\<in>set lsa_types. of_nat (card {k. lsdb_map d (i, k) \<noteq> None}))"
proof -
  let ?h = "(ospf_lsa_data_new 20)\<lparr>ls_type := 1, ls_id := 7, ls_length := 20\<rparr>"
  have l: "legal_trace [New 20, Fill 0 ?h, Add 0 0] (sys_init 1)" by code_simp
  then obtain s where "sys_run [New 20, Fill 0 ?h, Add 0 0] (sys_init 1) = Some s" using run_ok [OF sys_init_ok] by blast
  with lsdb_counters [OF l this] show ?thesis by (simp only: Let_def option.sel) blast
qed

end
