(* ===== verification/Ospf_State.thy ===== *)
theory Ospf_State
  imports Lsdb
begin

text \<open>
  The state of the OSPF daemon that flooding and the two state machines work on: neighbours,
  interfaces, areas and the instance, with the links between them as pointers.  A pointer is an
  index into a heap of objects; a freed neighbour leaves a hole.  Calls into parts of the daemon
  that are not modelled are recorded in order, as are the events handed to the scheduler.
\<close>

section \<open>Constants\<close>

definition NSM_DependUpon :: u8 where "NSM_DependUpon = 0"
definition NSM_Deleted :: u8 where "NSM_Deleted = 1"
definition NSM_Down :: u8 where "NSM_Down = 2"
definition NSM_Attempt :: u8 where "NSM_Attempt = 3"
definition NSM_Init :: u8 where "NSM_Init = 4"
definition NSM_TwoWay :: u8 where "NSM_TwoWay = 5"
definition NSM_ExStart :: u8 where "NSM_ExStart = 6"
definition NSM_Exchange :: u8 where "NSM_Exchange = 7"
definition NSM_Loading :: u8 where "NSM_Loading = 8"
definition NSM_Full :: u8 where "NSM_Full = 9"

lemmas nsm_states =
  NSM_DependUpon_def NSM_Deleted_def NSM_Down_def NSM_Attempt_def NSM_Init_def NSM_TwoWay_def
  NSM_ExStart_def NSM_Exchange_def NSM_Loading_def NSM_Full_def

definition ISM_DependUpon :: u8 where "ISM_DependUpon = 0"
definition ISM_Down :: u8 where "ISM_Down = 1"
definition ISM_Loopback :: u8 where "ISM_Loopback = 2"
definition ISM_Waiting :: u8 where "ISM_Waiting = 3"
definition ISM_PointToPoint :: u8 where "ISM_PointToPoint = 4"
definition ISM_DROther :: u8 where "ISM_DROther = 5"
definition ISM_Backup :: u8 where "ISM_Backup = 6"
definition ISM_DR :: u8 where "ISM_DR = 7"

lemmas ism_states =
  ISM_DependUpon_def ISM_Down_def ISM_Loopback_def ISM_Waiting_def ISM_PointToPoint_def
  ISM_DROther_def ISM_Backup_def ISM_DR_def

definition OSPF_IFTYPE_POINTOPOINT :: u8 where "OSPF_IFTYPE_POINTOPOINT = 1"
definition OSPF_IFTYPE_BROADCAST :: u8 where "OSPF_IFTYPE_BROADCAST = 2"
definition OSPF_IFTYPE_NBMA :: u8 where "OSPF_IFTYPE_NBMA = 3"
definition OSPF_IFTYPE_POINTOMULTIPOINT :: u8 where "OSPF_IFTYPE_POINTOMULTIPOINT = 4"
definition OSPF_IFTYPE_VIRTUALLINK :: u8 where "OSPF_IFTYPE_VIRTUALLINK = 5"

definition OSPF_AREA_BACKBONE :: u32 where "OSPF_AREA_BACKBONE = 0"
definition OSPF_AREA_DEFAULT :: int where "OSPF_AREA_DEFAULT = 0"
definition OSPF_AREA_STUB :: int where "OSPF_AREA_STUB = 1"
definition OSPF_AREA_NSSA :: int where "OSPF_AREA_NSSA = 2"
definition OSPF_AREA_TYPE_MAX :: int where "OSPF_AREA_TYPE_MAX = 3"

definition OSPF_OPTION_E :: u8 where "OSPF_OPTION_E = 0x02"
definition OSPF_OPTION_NP :: u8 where "OSPF_OPTION_NP = 0x08"
definition OSPF_OPTION_O :: u8 where "OSPF_OPTION_O = 0x40"
definition OSPF_DD_FLAG_MS :: u8 where "OSPF_DD_FLAG_MS = 0x01"
definition OSPF_DD_FLAG_M :: u8 where "OSPF_DD_FLAG_M = 0x02"
definition OSPF_DD_FLAG_I :: u8 where "OSPF_DD_FLAG_I = 0x04"

definition OSPF_ROUTER_LSA :: u8 where "OSPF_ROUTER_LSA = 1"
definition OSPF_NETWORK_LSA :: u8 where "OSPF_NETWORK_LSA = 2"
definition OSPF_SUMMARY_LSA :: u8 where "OSPF_SUMMARY_LSA = 3"
definition OSPF_ASBR_SUMMARY_LSA :: u8 where "OSPF_ASBR_SUMMARY_LSA = 4"
definition OSPF_AS_EXTERNAL_LSA :: u8 where "OSPF_AS_EXTERNAL_LSA = 5"
definition OSPF_AS_NSSA_LSA :: u8 where "OSPF_AS_NSSA_LSA = 7"
definition OSPF_OPAQUE_LINK_LSA :: u8 where "OSPF_OPAQUE_LINK_LSA = 9"
definition OSPF_OPAQUE_AREA_LSA :: u8 where "OSPF_OPAQUE_AREA_LSA = 10"
definition OSPF_OPAQUE_AS_LSA :: u8 where "OSPF_OPAQUE_AS_LSA = 11"
definition OSPF_LSA_SELF_CHECKED :: u8 where "OSPF_LSA_SELF_CHECKED = 0x02"
definition OSPF_LSA_LOCAL_XLT :: u8 where "OSPF_LSA_LOCAL_XLT = 0x20"
definition OSPF_LSA_IN_MAXAGE :: u8 where "OSPF_LSA_IN_MAXAGE = 0x80"

definition IS_OPAQUE_LSA :: "u8 \<Rightarrow> bool" where
  "IS_OPAQUE_LSA ty \<longleftrightarrow>
     ty = OSPF_OPAQUE_LINK_LSA \<or> ty = OSPF_OPAQUE_AREA_LSA \<or> ty = OSPF_OPAQUE_AS_LSA"

section \<open>Objects\<close>

text \<open>A thread pointer of a timer: NULL, or the delay in milliseconds it was started with.\<close>

type_synonym timer = "nat option"

record ospf_neighbor =
  nbr_oi :: ptr
  nbr_state :: u8
  dd_flags :: u8
  dd_seqnum :: u32
  nbr_address :: u32
  nbr_src :: u32
  nbr_router_id :: u32
  nbr_options :: u8
  nbr_priority :: int
  d_router :: u32
  bd_router :: u32
  last_send :: bool
  ls_rxmt :: ospf_lsdb
  db_sum :: ospf_lsdb
  ls_req :: ospf_lsdb
  ls_req_last :: "ptr option"
  nbr_crypt_seqnum :: u32
  v_inactivity :: u32
  v_db_desc :: u32
  v_ls_req :: u32
  v_ls_upd :: u32
  t_inactivity :: timer
  t_db_desc :: timer
  t_ls_req :: timer
  t_ls_upd :: timer
  t_hello_reply :: timer
  nbr_nbma :: "ptr option"
  ts_last_progress :: int
  ts_last_regress :: int
  last_regress_str :: "nat option"
  nbr_state_change :: u32

text \<open>
  \<open>oi_nbrs\<close> is the route table of the neighbours, with 32-bit keys.  The configured parameters, read
  by the code through \<^verbatim>\<open>OSPF_IF_PARAM\<close>, and the flags of the system interface that
  \<^verbatim>\<open>ospf_if_is_enable\<close> tests are fields of the interface here.
\<close>

record ospf_interface =
  oi_area :: ptr
  oi_type :: u8
  oi_state :: u8
  oi_address :: u32
  ifp_loopback :: bool
  ifp_vrf :: bool
  ifp_up :: bool
  vl_area_id :: u32
  oi_nbrs :: "(u32 \<times> ptr) list"
  nbr_self :: "ptr option"
  oi_nbr_nbma :: "ptr list"
  network_lsa_self :: "ptr option"
  ls_ack :: "ptr list"
  oi_crypt_seqnum :: u32
  param_priority :: u8
  param_retransmit_interval :: u32
  param_v_hello :: u32
  param_v_wait :: u32
  param_fast_hello :: u8
  v_ls_ack :: u32
  t_hello :: timer
  t_wait :: timer
  t_ls_ack :: timer
  oi_state_change :: u32
  oi_full_nbrs :: u32

record ospf_area =
  area_oiflist :: "ptr list"
  area_id :: u32
  external_routing :: int
  area_lsdb :: ospf_lsdb
  router_lsa_self :: "ptr option"
  act_ints :: u32
  area_full_nbrs :: u32
  full_vls :: u32

record ospf_nbr_nbma =
  nbma_addr :: u32
  nbma_oi :: "ptr option"
  nbma_nbr :: "ptr option"
  v_poll :: u32
  t_poll :: timer
  nbma_state_change :: u32

text \<open>
  The instance.  \<open>redist\<close> lists, for each route type other than OSPFv3 in its order, the instances
  that are redistributed.
\<close>

record ospf =
  ospf_router_id :: u32
  ospf_areas :: "ptr list"
  ospf_oiflist :: "ptr list"
  as_lsdb :: ospf_lsdb
  min_ls_arrival :: u32
  rx_lsa_count :: u32
  redist :: "(nat \<times> nat list) list"
  maxage_lsa :: "ptr list"
  maxage_delay :: u32
  t_maxage :: timer

section \<open>Calls out of the model\<close>

datatype ospf_call =
    Proactively_Arp ptr
  | Check_Abr_Status
  | Schedule_Abr_Task
  | External_Lsa_Refresh_Type nat nat
  | External_Lsa_Refresh_Default
  | Router_Lsa_Update_Area ptr
  | Network_Lsa_Update ptr
  | Lsa_Flush_Area ptr ptr
  | Opaque_Nsm_Change ptr u8
  | Opaque_Ism_Change ptr u8
  | Db_Desc_Send ptr
  | Db_Desc_Resend ptr
  | Ls_Req_Send ptr
  | Ls_Req_Event ptr
  | Bfd_Trigger_Event ptr u8 u8
  | Bfd_Info_Create ptr
  | Nsm_Change_Hook ptr u8 u8
  | Ism_Change_Hook ptr u32 u8
  | Set_Multicast ptr
  | Nbma_If_Update ptr
  | Hello_Send ptr
  | Ls_Upd_Queue_Empty ptr
  | Ls_Upd_Send_Lsa ptr ptr bool
  | Nsm_Event_Schedule ptr nat
  | Ism_Event_Schedule ptr nat
  | Cancel_Events ptr
  | Opaque_Lsa_Refresh ptr
  | Translated_Nssa_Refresh ptr
  | External_Lsa_Refresh ptr
  | Schedule_Lsa_Flush_Area ptr ptr
  | Flush_Self_Originated_Now

text \<open>\<open>random\<close> is the sequence of values \<^verbatim>\<open>random()\<close> returns.\<close>

record ospf_world = lsa_world +
  nbr_heap :: "ospf_neighbor option list"
  if_heap :: "ospf_interface list"
  area_heap :: "ospf_area list"
  nbma_heap :: "ospf_nbr_nbma list"
  top :: ospf
  random :: "nat \<Rightarrow> u32"
  random_pos :: nat
  calls :: "ospf_call list"

definition call :: "ospf_call \<Rightarrow> ospf_world \<Rightarrow> ospf_world" where
  "call c w = w\<lparr>calls := calls w @ [c]\<rparr>"

section \<open>Access through pointers\<close>

definition nbr_at :: "ospf_world \<Rightarrow> ptr \<Rightarrow> ospf_neighbor option" where
  "nbr_at w n = (if n < length (nbr_heap w) then nbr_heap w ! n else None)"

definition if_at :: "ospf_world \<Rightarrow> ptr \<Rightarrow> ospf_interface option" where
  "if_at w i = (if i < length (if_heap w) then Some (if_heap w ! i) else None)"

definition area_at :: "ospf_world \<Rightarrow> ptr \<Rightarrow> ospf_area option" where
  "area_at w a = (if a < length (area_heap w) then Some (area_heap w ! a) else None)"

definition nbma_at :: "ospf_world \<Rightarrow> ptr \<Rightarrow> ospf_nbr_nbma option" where
  "nbma_at w b = (if b < length (nbma_heap w) then Some (nbma_heap w ! b) else None)"

definition upd_nbr :: "ptr \<Rightarrow> (ospf_neighbor \<Rightarrow> ospf_neighbor) \<Rightarrow> ospf_world \<Rightarrow> ospf_world option" where
  "upd_nbr n f w =
     (case nbr_at w n of None \<Rightarrow> None | Some nb \<Rightarrow> Some (w\<lparr>nbr_heap := (nbr_heap w)[n := Some (f nb)]\<rparr>))"

definition upd_if :: "ptr \<Rightarrow> (ospf_interface \<Rightarrow> ospf_interface) \<Rightarrow> ospf_world \<Rightarrow> ospf_world option" where
  "upd_if i f w =
     (case if_at w i of None \<Rightarrow> None | Some oi \<Rightarrow> Some (w\<lparr>if_heap := (if_heap w)[i := f oi]\<rparr>))"

definition upd_area :: "ptr \<Rightarrow> (ospf_area \<Rightarrow> ospf_area) \<Rightarrow> ospf_world \<Rightarrow> ospf_world option" where
  "upd_area a f w =
     (case area_at w a of None \<Rightarrow> None | Some ar \<Rightarrow> Some (w\<lparr>area_heap := (area_heap w)[a := f ar]\<rparr>))"

definition upd_nbma :: "ptr \<Rightarrow> (ospf_nbr_nbma \<Rightarrow> ospf_nbr_nbma) \<Rightarrow> ospf_world \<Rightarrow> ospf_world option" where
  "upd_nbma b f w =
     (case nbma_at w b of None \<Rightarrow> None | Some nb \<Rightarrow> Some (w\<lparr>nbma_heap := (nbma_heap w)[b := f nb]\<rparr>))"

text \<open>Apply an operation to the objects of a list in turn, stopping at a fault.\<close>

fun each :: "('a \<Rightarrow> 's \<Rightarrow> 's option) \<Rightarrow> 'a list \<Rightarrow> 's \<Rightarrow> 's option" where
  "each f [] w = Some w"
| "each f (x # xs) w = do { w \<leftarrow> f x w; each f xs w }"

definition NBR_IS_DR :: "ospf_neighbor \<Rightarrow> bool" where
  "NBR_IS_DR n \<longleftrightarrow> nbr_address n = d_router n"

definition NBR_IS_BDR :: "ospf_neighbor \<Rightarrow> bool" where
  "NBR_IS_BDR n \<longleftrightarrow> nbr_address n = bd_router n"

text \<open>\<^verbatim>\<open>DR(oi)\<close>, \<^verbatim>\<open>BDR(oi)\<close> and \<^verbatim>\<open>PRIORITY(oi)\<close> are fields of the neighbour that stands for the router itself.\<close>

definition self_of :: "ospf_world \<Rightarrow> ptr \<Rightarrow> ospf_neighbor option" where
  "self_of w i = do { oi \<leftarrow> if_at w i; s \<leftarrow> nbr_self oi; nbr_at w s }"

definition DR :: "ospf_world \<Rightarrow> ptr \<Rightarrow> u32 option" where
  "DR w i = map_option d_router (self_of w i)"

definition BDR :: "ospf_world \<Rightarrow> ptr \<Rightarrow> u32 option" where
  "BDR w i = map_option bd_router (self_of w i)"

definition PRIORITY :: "ospf_world \<Rightarrow> ptr \<Rightarrow> int option" where
  "PRIORITY w i = map_option nbr_priority (self_of w i)"

definition ospf_if_is_enable :: "ospf_interface \<Rightarrow> bool" where
  "ospf_if_is_enable oi \<longleftrightarrow> \<not> (ifp_loopback oi \<or> ifp_vrf oi) \<and> ifp_up oi"

definition ospf_if_exists :: "ospf_world \<Rightarrow> ptr option \<Rightarrow> ptr option" where
  "ospf_if_exists w oic =
     (case oic of None \<Rightarrow> None | Some i \<Rightarrow> if i \<in> set (ospf_oiflist (top w)) then Some i else None)"

definition ospf_area_lookup_by_area_id :: "ospf_world \<Rightarrow> u32 \<Rightarrow> ptr option" where
  "ospf_area_lookup_by_area_id w aid =
     find (\<lambda>a. map_option area_id (area_at w a) = Some aid) (ospf_areas (top w))"

text \<open>Starting a timer whose thread pointer is set does nothing.\<close>

definition timer_on :: "nat \<Rightarrow> timer \<Rightarrow> timer" where
  "timer_on msec t = (case t of None \<Rightarrow> Some msec | Some _ \<Rightarrow> t)"

section \<open>Insertion points for plugins\<close>

text \<open>
  A pluglet is what running its bytecode on the argument of the insertion point does to the daemon
  and the value it returns; \<open>None\<close> if it does not return.  \<open>None\<close> in the table is a NULL plugin.
\<close>

datatype plugin_arg =
    Arg_Dr_Election ptr
  | Arg_Ism_Change_State ptr int
  | Arg_Lsa_Flood ptr ptr "ptr option"

type_synonym pluglet = "plugin_arg \<Rightarrow> ospf_world \<Rightarrow> (u64 \<times> ospf_world) option"

record plugin_hooks =
  hooks_PRE :: "pluglet list"
  hook_REP :: "pluglet option"
  hooks_POST :: "pluglet list"

type_synonym plugin_table = "nat \<Rightarrow> plugin_hooks option"

definition LSA_FLOOD :: nat where "LSA_FLOOD = 10"
definition ISM_CHANGE_STATE :: nat where "ISM_CHANGE_STATE = 2"
definition DR_ELECTION :: nat where "DR_ELECTION = 16"

fun run_pluglets :: "pluglet list \<Rightarrow> plugin_arg \<Rightarrow> ospf_world \<Rightarrow> ospf_world option" where
  "run_pluglets [] arg w = Some w"
| "run_pluglets (p # ps) arg w = do { (_, w) \<leftarrow> p arg w; run_pluglets ps arg w }"

text \<open>The code at an insertion point: the PRE pluglets, the REP pluglet or else the original body, the POST pluglets.\<close>

definition with_plugins ::
    "plugin_hooks option \<Rightarrow> plugin_arg \<Rightarrow> (ospf_world \<Rightarrow> (u64 \<times> ospf_world) option) \<Rightarrow>
     ospf_world \<Rightarrow> (u64 \<times> ospf_world) option" where
  "with_plugins pl arg body w =
     (case pl of
        None \<Rightarrow> body w
      | Some h \<Rightarrow> do {
          w \<leftarrow> run_pluglets (hooks_PRE h) arg w;
          (r, w) \<leftarrow> (case hook_REP h of Some p \<Rightarrow> p arg w | None \<Rightarrow> body w);
          w \<leftarrow> run_pluglets (hooks_POST h) arg w;
          Some (r, w) })"

end
