(* ===== verification/Flood.thy ===== *)
theory Flood
  imports Ospf_State
begin

text \<open>
  Flooding, \<^verbatim>\<open>ospfd/ospf_flood.c\<close>: the link state request and retransmission lists of a
  neighbour, and the procedure that decides to which neighbours an LSA goes.
\<close>

section \<open>The lists of a neighbour\<close>

type_synonym db_op = "ospf_lsdb \<Rightarrow> ospf_world \<Rightarrow> (ospf_lsdb \<times> ospf_world) option"

text \<open>A database operation on a list that is part of the neighbour.\<close>

definition on_list ::
    "(ospf_neighbor \<Rightarrow> ospf_lsdb) \<Rightarrow> (ospf_lsdb \<Rightarrow> ospf_neighbor \<Rightarrow> ospf_neighbor) \<Rightarrow>
     ptr \<Rightarrow> db_op \<Rightarrow> ospf_world \<Rightarrow> ospf_world option" where
  "on_list get put n f w = do {
     nb \<leftarrow> nbr_at w n;
     (d, w) \<leftarrow> f (get nb) w;
     upd_nbr n (put d) w }"

definition set_ls_req :: "ospf_lsdb \<Rightarrow> ospf_neighbor \<Rightarrow> ospf_neighbor" where
  "set_ls_req d nb = nb\<lparr>ls_req := d\<rparr>"

definition set_ls_rxmt :: "ospf_lsdb \<Rightarrow> ospf_neighbor \<Rightarrow> ospf_neighbor" where
  "set_ls_rxmt d nb = nb\<lparr>ls_rxmt := d\<rparr>"

definition set_db_sum :: "ospf_lsdb \<Rightarrow> ospf_neighbor \<Rightarrow> ospf_neighbor" where
  "set_db_sum d nb = nb\<lparr>db_sum := d\<rparr>"

abbreviation on_ls_req :: "ptr \<Rightarrow> db_op \<Rightarrow> ospf_world \<Rightarrow> ospf_world option" where
  "on_ls_req \<equiv> on_list ls_req set_ls_req"

abbreviation on_ls_rxmt :: "ptr \<Rightarrow> db_op \<Rightarrow> ospf_world \<Rightarrow> ospf_world option" where
  "on_ls_rxmt \<equiv> on_list ls_rxmt set_ls_rxmt"

abbreviation on_db_sum :: "ptr \<Rightarrow> db_op \<Rightarrow> ospf_world \<Rightarrow> ospf_world option" where
  "on_db_sum \<equiv> on_list db_sum set_db_sum"

text \<open>\<^verbatim>\<open>ospf_lsa_unlock(&nbr->ls_req_last); nbr->ls_req_last = NULL;\<close>\<close>

definition drop_ls_req_last :: "ptr \<Rightarrow> ospf_world \<Rightarrow> ospf_world option" where
  "drop_ls_req_last n w = do {
     nb \<leftarrow> nbr_at w n;
     (_, w) \<leftarrow> ospf_lsa_unlock (ls_req_last nb) w;
     upd_nbr n (\<lambda>nb. nb\<lparr>ls_req_last := None\<rparr>) w }"

definition ospf_ls_request_add :: "ptr \<Rightarrow> ptr \<Rightarrow> ospf_world \<Rightarrow> ospf_world option" where
  "ospf_ls_request_add n p w = on_ls_req n (\<lambda>d. ospf_lsdb_add d p) w"

definition ospf_ls_request_count :: "ospf_neighbor \<Rightarrow> u64" where
  "ospf_ls_request_count nb = ospf_lsdb_count_all (ls_req nb)"

definition ospf_ls_request_isempty :: "ospf_neighbor \<Rightarrow> bool" where
  "ospf_ls_request_isempty nb = ospf_lsdb_isempty (ls_req nb)"

definition ospf_ls_request_delete :: "ptr \<Rightarrow> ptr \<Rightarrow> ospf_world \<Rightarrow> ospf_world option" where
  "ospf_ls_request_delete n p w = do {
     nb \<leftarrow> nbr_at w n;
     w \<leftarrow> (if ls_req_last nb = Some p then drop_ls_req_last n w else Some w);
     on_ls_req n (\<lambda>d. ospf_lsdb_delete d (Some p)) w }"

definition ospf_ls_request_delete_all :: "ptr \<Rightarrow> ospf_world \<Rightarrow> ospf_world option" where
  "ospf_ls_request_delete_all n w = do {
     w \<leftarrow> drop_ls_req_last n w;
     on_ls_req n ospf_lsdb_delete_all w }"

definition ospf_ls_request_lookup :: "ptr \<Rightarrow> ptr \<Rightarrow> ospf_world \<Rightarrow> ptr option option" where
  "ospf_ls_request_lookup n p w = do { nb \<leftarrow> nbr_at w n; ospf_lsdb_lookup (ls_req nb) p w }"

definition ospf_ls_request_new :: "lsa_header \<Rightarrow> ospf_world \<Rightarrow> (ptr \<times> ospf_world) option" where
  "ospf_ls_request_new lsah w = do {
     (p, w) \<leftarrow> ospf_lsa_new_and_data OSPF_LSA_HEADER_SIZE w;
     w \<leftarrow> upd_lsa p (\<lambda>l. l\<lparr>lsa_data := Some (lsah\<lparr>ls_body := []\<rparr>)\<rparr>) w;
     Some (p, w) }"

definition ospf_ls_retransmit_count :: "ospf_neighbor \<Rightarrow> u64" where
  "ospf_ls_retransmit_count nb = ospf_lsdb_count_all (ls_rxmt nb)"

definition ospf_ls_retransmit_count_self :: "ospf_neighbor \<Rightarrow> nat \<Rightarrow> u64 option" where
  "ospf_ls_retransmit_count_self nb lsa_type = ospf_lsdb_count_self (ls_rxmt nb) lsa_type"

definition ospf_ls_retransmit_isempty :: "ospf_neighbor \<Rightarrow> bool" where
  "ospf_ls_retransmit_isempty nb = ospf_lsdb_isempty (ls_rxmt nb)"

definition ospf_ls_retransmit_lookup :: "ptr \<Rightarrow> ptr \<Rightarrow> ospf_world \<Rightarrow> ptr option option" where
  "ospf_ls_retransmit_lookup n p w = do { nb \<leftarrow> nbr_at w n; ospf_lsdb_lookup (ls_rxmt nb) p w }"

definition count_retransmit :: "ptr \<Rightarrow> int \<Rightarrow> ospf_world \<Rightarrow> ospf_world option" where
  "count_retransmit p c w = upd_lsa p (\<lambda>l. l\<lparr>retransmit_counter := retransmit_counter l + c\<rparr>) w"

definition ospf_ls_retransmit_add :: "ptr \<Rightarrow> ptr \<Rightarrow> ospf_world \<Rightarrow> ospf_world option" where
  "ospf_ls_retransmit_add n p w = do {
     old \<leftarrow> ospf_ls_retransmit_lookup n p w;
     r \<leftarrow> ospf_lsa_more_recent w old (Some p);
     if r < 0 then do {
       w \<leftarrow> (case old of
               None \<Rightarrow> Some w
             | Some q \<Rightarrow> do {
                 w \<leftarrow> count_retransmit q (- 1) w;
                 on_ls_rxmt n (\<lambda>d. ospf_lsdb_delete d (Some q)) w });
       w \<leftarrow> count_retransmit p 1 w;
       on_ls_rxmt n (\<lambda>d. ospf_lsdb_add d p) w }
     else Some w }"

definition ospf_ls_retransmit_delete :: "ptr \<Rightarrow> ptr \<Rightarrow> ospf_world \<Rightarrow> ospf_world option" where
  "ospf_ls_retransmit_delete n p w = do {
     found \<leftarrow> ospf_ls_retransmit_lookup n p w;
     case found of
       None \<Rightarrow> Some w
     | Some _ \<Rightarrow> do {
         w \<leftarrow> count_retransmit p (- 1) w;
         on_ls_rxmt n (\<lambda>d. ospf_lsdb_delete d (Some p)) w } }"

definition rxmt_clear_type :: "ptr \<Rightarrow> nat \<Rightarrow> ospf_world \<Rightarrow> ospf_world option" where
  "rxmt_clear_type n i w = do {
     nb \<leftarrow> nbr_at w n;
     t \<leftarrow> lsdb_table (ls_rxmt nb) i;
     each (ospf_ls_retransmit_delete n) (map snd t) w }"

definition ospf_ls_retransmit_clear :: "ptr \<Rightarrow> ospf_world \<Rightarrow> ospf_world option" where
  "ospf_ls_retransmit_clear n w = do {
     w \<leftarrow> each (rxmt_clear_type n) [OSPF_MIN_LSA..<OSPF_MAX_LSA] w;
     drop_ls_req_last n w }"

definition rxmt_delete_nbr :: "ptr \<Rightarrow> ptr \<Rightarrow> ospf_world \<Rightarrow> ospf_world option" where
  "rxmt_delete_nbr p n w = do {
     lsr \<leftarrow> ospf_ls_retransmit_lookup n p w;
     case lsr of
       None \<Rightarrow> Some w
     | Some q \<Rightarrow> do {
         hq \<leftarrow> data_of w q;
         h \<leftarrow> data_of w p;
         if ls_seqnum hq = ls_seqnum h then ospf_ls_retransmit_delete n q w else Some w } }"

definition ospf_ls_retransmit_delete_nbr_if :: "ptr \<Rightarrow> ptr \<Rightarrow> ospf_world \<Rightarrow> ospf_world option" where
  "ospf_ls_retransmit_delete_nbr_if p i w = do {
     oi \<leftarrow> if_at w i;
     if ospf_if_is_enable oi then each (rxmt_delete_nbr p) (map snd (oi_nbrs oi)) w
     else Some w }"

definition ospf_ls_retransmit_delete_nbr_area :: "ptr \<Rightarrow> ptr \<Rightarrow> ospf_world \<Rightarrow> ospf_world option" where
  "ospf_ls_retransmit_delete_nbr_area a p w = do {
     ar \<leftarrow> area_at w a;
     each (ospf_ls_retransmit_delete_nbr_if p) (area_oiflist ar) w }"

definition ospf_ls_retransmit_delete_nbr_as :: "ptr \<Rightarrow> ospf_world \<Rightarrow> ospf_world option" where
  "ospf_ls_retransmit_delete_nbr_as p w = each (ospf_ls_retransmit_delete_nbr_if p) (ospf_oiflist (top w)) w"

section \<open>Flooding through an interface\<close>

definition NSM_LoadingDone :: nat where "NSM_LoadingDone = 7"

definition ospf_check_nbr_loading :: "ptr \<Rightarrow> ospf_world \<Rightarrow> ospf_world option" where
  "ospf_check_nbr_loading n w = do {
     nb \<leftarrow> nbr_at w n;
     Some (if nbr_state nb = NSM_Loading then
             if ospf_ls_request_isempty nb then call (Nsm_Event_Schedule n NSM_LoadingDone) w
             else if ls_req_last nb = None then call (Ls_Req_Event n) w
             else w
           else w) }"

text \<open>
  The examination of the request list of a neighbour that is not yet fully adjacent; the result
  tells whether the neighbour is done with.
\<close>

definition flood_check_request :: "ptr \<Rightarrow> ptr \<Rightarrow> ospf_world \<Rightarrow> (bool \<times> ospf_world) option" where
  "flood_check_request n p w = do {
     req \<leftarrow> ospf_ls_request_lookup n p w;
     case req of
       None \<Rightarrow> Some (False, w)
     | Some q \<Rightarrow> do {
         r \<leftarrow> ospf_lsa_more_recent w (Some q) (Some p);
         if r > 0 then Some (True, w)
         else do {
           w \<leftarrow> ospf_ls_request_delete n q w;
           w \<leftarrow> ospf_check_nbr_loading n w;
           Some (r = 0, w) } } }"

text \<open>
  One turn of the loop over the neighbours; the result tells whether the LSA was put on the
  retransmission list (\<^verbatim>\<open>retx_flag\<close>).
\<close>

definition flood_nbr :: "ptr option \<Rightarrow> ptr \<Rightarrow> ptr \<Rightarrow> ospf_world \<Rightarrow> (bool \<times> ospf_world) option" where
  "flood_nbr inbr p n w = do {
     h \<leftarrow> data_of w p;
     onbr \<leftarrow> nbr_at w n;
     if nbr_state onbr < NSM_Exchange then
       if ls_type h = 13 then do { w \<leftarrow> ospf_ls_retransmit_add n p w; Some (False, w) }
       else Some (False, w)
     else do {
       (skip, w) \<leftarrow> (if nbr_state onbr < NSM_Full then flood_check_request n p w else Some (False, w));
       if skip then Some (False, w)
       else if IS_OPAQUE_LSA (ls_type h) \<and> \<not> CHECK_FLAG (nbr_options onbr) OSPF_OPTION_O then Some (False, w)
       else do {
         from \<leftarrow> (case inbr of Some b \<Rightarrow> map_option nbr_router_id (nbr_at w b) | None \<Rightarrow> Some (ls_adv_router h));
         if from = nbr_router_id onbr then Some (False, w)
         else do { w \<leftarrow> ospf_ls_retransmit_add n p w; Some (True, w) } } } }"

fun flood_nbrs :: "ptr option \<Rightarrow> ptr \<Rightarrow> ptr list \<Rightarrow> ospf_world \<Rightarrow> (bool \<times> ospf_world) option" where
  "flood_nbrs inbr p [] w = Some (False, w)"
| "flood_nbrs inbr p (n # ns) w = do {
     (r, w) \<leftarrow> flood_nbr inbr p n w;
     (rs, w) \<leftarrow> flood_nbrs inbr p ns w;
     Some (r \<or> rs, w) }"

definition flood_send_nbma :: "ptr option \<Rightarrow> ptr \<Rightarrow> ptr \<Rightarrow> ospf_world \<Rightarrow> ospf_world option" where
  "flood_send_nbma self p n w = do {
     nb \<leftarrow> nbr_at w n;
     Some (if self \<noteq> Some n \<and> nbr_state nb \<ge> NSM_Exchange then call (Ls_Upd_Send_Lsa n p True) w else w) }"

definition ospf_flood_through_interface ::
    "ptr \<Rightarrow> ptr option \<Rightarrow> ptr \<Rightarrow> ospf_world \<Rightarrow> (bool \<times> ospf_world) option" where
  "ospf_flood_through_interface i inbr p w = do {
     oi \<leftarrow> if_at w i;
     if \<not> ospf_if_is_enable oi then Some (False, w)
     else do {
       (retx_flag, w) \<leftarrow> flood_nbrs inbr p (map snd (oi_nbrs oi)) w;
       inb \<leftarrow> (case inbr of None \<Rightarrow> Some None | Some b \<Rightarrow> map_option Some (nbr_at w b));
       let here = (case inb of None \<Rightarrow> False | Some nb \<Rightarrow> nbr_oi nb = i);
       if \<not> retx_flag then Some (here, w)
       else if here \<and> (case inb of None \<Rightarrow> False | Some nb \<Rightarrow> NBR_IS_DR nb \<or> NBR_IS_BDR nb) then Some (True, w)
       else if here \<and> oi_state oi = ISM_Backup then Some (True, w)
       else if oi_type oi = OSPF_IFTYPE_NBMA then do {
         w \<leftarrow> each (flood_send_nbma (nbr_self oi) p) (map snd (oi_nbrs oi)) w;
         Some (False, w) }
       else do {
         self \<leftarrow> nbr_self oi;
         Some (False, call (Ls_Upd_Send_Lsa self p False) w) } } }"

section \<open>Flooding through an area and through the AS\<close>

fun flood_ifs ::
    "(ptr \<Rightarrow> ospf_interface \<Rightarrow> bool) \<Rightarrow> ptr option \<Rightarrow> ptr \<Rightarrow> ptr list \<Rightarrow> ospf_world \<Rightarrow> (bool \<times> ospf_world) option" where
  "flood_ifs skip inbr p [] w = Some (False, w)"
| "flood_ifs skip inbr p (i # is) w = do {
     oi \<leftarrow> if_at w i;
     (r, w) \<leftarrow> (if skip i oi then Some (False, w) else ospf_flood_through_interface i inbr p w);
     (rs, w) \<leftarrow> flood_ifs skip inbr p is w;
     Some (r \<or> rs, w) }"

definition skip_in_area :: "ospf_area \<Rightarrow> ospf_lsa \<Rightarrow> lsa_header \<Rightarrow> ptr \<Rightarrow> ospf_interface \<Rightarrow> bool" where
  "skip_in_area ar l h i oi \<longleftrightarrow>
     area_id ar \<noteq> OSPF_AREA_BACKBONE \<and> oi_type oi = OSPF_IFTYPE_VIRTUALLINK \<or>
     ls_type h = OSPF_OPAQUE_LINK_LSA \<and> lsa_oi l \<noteq> Some i"

text \<open>No call of the loop changes the fields of the LSA or the area that the tests read.\<close>

definition ospf_flood_through_area :: "ptr option \<Rightarrow> ptr option \<Rightarrow> ptr \<Rightarrow> ospf_world \<Rightarrow> (bool \<times> ospf_world) option" where
  "ospf_flood_through_area area inbr p w = do {
     a \<leftarrow> area;
     ar \<leftarrow> area_at w a;
     l \<leftarrow> lsas w p;
     h \<leftarrow> lsa_data l;
     flood_ifs (skip_in_area ar l h) inbr p (area_oiflist ar) w }"

definition area_takes :: "u8 \<Rightarrow> ptr option \<Rightarrow> ptr \<Rightarrow> ospf_area \<Rightarrow> bool" where
  "area_takes ty larea a ar =
     (if external_routing ar = OSPF_AREA_NSSA then ty = OSPF_AS_NSSA_LSA \<and> larea = Some a
      else if external_routing ar = OSPF_AREA_TYPE_MAX \<or> external_routing ar = OSPF_AREA_STUB then False
      else ty \<noteq> OSPF_AS_NSSA_LSA)"

definition is_virtual :: "ptr \<Rightarrow> ospf_interface \<Rightarrow> bool" where
  "is_virtual i oi \<longleftrightarrow> oi_type oi = OSPF_IFTYPE_VIRTUALLINK"

fun flood_areas :: "ptr option \<Rightarrow> ptr \<Rightarrow> ptr list \<Rightarrow> ospf_world \<Rightarrow> (bool \<times> ospf_world) option" where
  "flood_areas inbr p [] w = Some (False, w)"
| "flood_areas inbr p (a # as) w = do {
     l \<leftarrow> lsas w p;
     h \<leftarrow> lsa_data l;
     ar \<leftarrow> area_at w a;
     (r, w) \<leftarrow> (if area_takes (ls_type h) (lsa_area l) a ar
                  then flood_ifs is_virtual inbr p (area_oiflist ar) w
                  else Some (False, w));
     (rs, w) \<leftarrow> flood_areas inbr p as w;
     Some (r \<or> rs, w) }"

definition ospf_flood_through_as :: "ptr option \<Rightarrow> ptr \<Rightarrow> ospf_world \<Rightarrow> (bool \<times> ospf_world) option" where
  "ospf_flood_through_as inbr p w = flood_areas inbr p (ospf_areas (top w)) w"

definition ospf_flood_through :: "ptr option \<Rightarrow> ptr \<Rightarrow> ospf_world \<Rightarrow> (bool \<times> ospf_world) option" where
  "ospf_flood_through inbr p w = do {
     l \<leftarrow> lsas w p;
     h \<leftarrow> lsa_data l;
     if ls_type h = OSPF_AS_EXTERNAL_LSA \<or> ls_type h = OSPF_OPAQUE_AS_LSA then ospf_flood_through_as inbr p w
     else ospf_flood_through_area (lsa_area l) inbr p w }"

section \<open>Flushing\<close>

definition ospf_lsa_maxage :: "ptr \<Rightarrow> ospf_world \<Rightarrow> ospf_world option" where
  "ospf_lsa_maxage p w = do {
     l \<leftarrow> lsas w p;
     if CHECK_FLAG (lsa_flags l) OSPF_LSA_IN_MAXAGE then Some w
     else do {
       w \<leftarrow> (if p \<in> set (maxage_lsa (top w)) then Some w
             else do {
               w \<leftarrow> ospf_lsa_lock p w;
               w \<leftarrow> upd_lsa p (\<lambda>l. l\<lparr>lsa_flags := SET_FLAG (lsa_flags l) OSPF_LSA_IN_MAXAGE\<rparr>) w;
               Some (w\<lparr>top := (top w)\<lparr>maxage_lsa := maxage_lsa (top w) @ [p]\<rparr>\<rparr>) });
       Some (w\<lparr>top := (top w)\<lparr>t_maxage := timer_on (unat (maxage_delay (top w)) * 1000) (t_maxage (top w))\<rparr>\<rparr>) } }"

definition set_maxage :: "int option \<Rightarrow> ospf_lsa \<Rightarrow> ospf_lsa" where
  "set_maxage stamp l =
     (let l = l\<lparr>lsa_data := map_option (\<lambda>h. h\<lparr>ls_age := of_int OSPF_LSA_MAXAGE\<rparr>) (lsa_data l)\<rparr>
      in case stamp of None \<Rightarrow> l | Some t \<Rightarrow> l\<lparr>tv_recv := t, tv_orig := t\<rparr>)"

definition ospf_lsa_flush_area :: "ptr \<Rightarrow> ptr option \<Rightarrow> ospf_world \<Rightarrow> ospf_world option" where
  "ospf_lsa_flush_area p area w = do {
     _ \<leftarrow> data_of w p;
     w \<leftarrow> upd_lsa p (set_maxage (Some (now w))) w;
     (_, w) \<leftarrow> ospf_flood_through_area area None p w;
     ospf_lsa_maxage p w }"

definition ospf_lsa_flush_as :: "ptr \<Rightarrow> ospf_world \<Rightarrow> ospf_world option" where
  "ospf_lsa_flush_as p w = do {
     _ \<leftarrow> data_of w p;
     w \<leftarrow> upd_lsa p (set_maxage (Some (now w))) w;
     (_, w) \<leftarrow> ospf_flood_through_as None p w;
     ospf_lsa_maxage p w }"

definition ospf_lsa_flush :: "ptr \<Rightarrow> ospf_world \<Rightarrow> ospf_world option" where
  "ospf_lsa_flush p w = do {
     h \<leftarrow> data_of w p;
     w \<leftarrow> upd_lsa p (set_maxage None) w;
     l \<leftarrow> lsas w p;
     if ls_type h \<in> {OSPF_ROUTER_LSA, OSPF_NETWORK_LSA, OSPF_SUMMARY_LSA, OSPF_ASBR_SUMMARY_LSA,
                     OSPF_AS_NSSA_LSA, OSPF_OPAQUE_LINK_LSA, OSPF_OPAQUE_AREA_LSA}
     then ospf_lsa_flush_area p (lsa_area l) w
     else if ls_type h \<in> {OSPF_AS_EXTERNAL_LSA, OSPF_OPAQUE_AS_LSA} then ospf_lsa_flush_as p w
     else Some w }"

section \<open>Receiving an LSA\<close>

definition ospf_lsa_is_self_originated :: "ptr \<Rightarrow> ospf_world \<Rightarrow> (bool \<times> ospf_world) option" where
  "ospf_lsa_is_self_originated p w = do {
     l \<leftarrow> lsas w p;
     if CHECK_FLAG (lsa_flags l) OSPF_LSA_SELF_CHECKED then Some (IS_LSA_SELF l, w)
     else do {
       w \<leftarrow> upd_lsa p (\<lambda>l. l\<lparr>lsa_flags := SET_FLAG (lsa_flags l) OSPF_LSA_SELF_CHECKED\<rparr>) w;
       h \<leftarrow> lsa_data l;
       let mine = (\<exists>i \<in> set (ospf_oiflist (top w)).
         case if_at w i of
           Some oi \<Rightarrow> oi_type oi \<noteq> OSPF_IFTYPE_VIRTUALLINK \<and> ls_id h = oi_address oi
         | None \<Rightarrow> False);
       w \<leftarrow> (if ls_adv_router h = ospf_router_id (top w) \<or>
                 (if ls_type h = OSPF_ROUTER_LSA then ls_id h = ospf_router_id (top w)
                  else ls_type h = OSPF_NETWORK_LSA \<and> mine)
             then upd_lsa p (\<lambda>l. l\<lparr>lsa_flags := SET_FLAG (lsa_flags l) OSPF_LSA_SELF\<rparr>) w
             else Some w);
       l \<leftarrow> lsas w p;
       Some (IS_LSA_SELF l, w) } }"

definition ospf_flood_delayed_lsa_ack :: "ptr \<Rightarrow> ptr \<Rightarrow> ospf_world \<Rightarrow> ospf_world option" where
  "ospf_flood_delayed_lsa_ack inbr p w = do {
     nb \<leftarrow> nbr_at w inbr;
     oi \<leftarrow> if_at w (nbr_oi nb);
     if oi_state oi = ISM_Backup \<and> \<not> NBR_IS_DR nb then Some w
     else do {
       w \<leftarrow> ospf_lsa_lock p w;
       upd_if (nbr_oi nb) (\<lambda>oi. oi\<lparr>ls_ack := ls_ack oi @ [p]\<rparr>) w } }"

text \<open>\<^verbatim>\<open>self->data->ls_seqnum = new->data->ls_seqnum\<close> for a self-originated LSA that may be NULL.\<close>

definition take_seqnum :: "ptr option \<Rightarrow> lsa_header \<Rightarrow> ospf_world \<Rightarrow> ospf_world option" where
  "take_seqnum self h w =
     (case self of
        None \<Rightarrow> Some w
      | Some s \<Rightarrow> do {
          _ \<leftarrow> data_of w s;
          upd_lsa s (\<lambda>l. l\<lparr>lsa_data := map_option (\<lambda>g. g\<lparr>ls_seqnum := ls_seqnum h\<rparr>) (lsa_data l)\<rparr>) w })"

fun process_self_network :: "ptr \<Rightarrow> ptr \<Rightarrow> lsa_header \<Rightarrow> ptr list \<Rightarrow> ospf_world \<Rightarrow> ospf_world option" where
  "process_self_network new a h [] w = Some w"
| "process_self_network new a h (i # is) w = do {
     oi \<leftarrow> if_at w i;
     if oi_address oi = ls_id h then
       if oi_area oi \<noteq> a \<or> oi_type oi \<noteq> OSPF_IFTYPE_BROADCAST
       then Some (call (Schedule_Lsa_Flush_Area a new) w)
       else do {
         dr \<leftarrow> DR w i;
         if oi_address oi \<noteq> dr then Some (call (Schedule_Lsa_Flush_Area a new) w)
         else if ls_type h = OSPF_OPAQUE_LINK_LSA then Some (call (Opaque_Lsa_Refresh new) w)
         else do {
           w \<leftarrow> take_seqnum (network_lsa_self oi) h w;
           Some (call (Network_Lsa_Update i) w) } }
     else process_self_network new a h is w }"

text \<open>
  \<open>external_info\<close> is \<^verbatim>\<open>ospf_external_info_check\<close>: whether the prefix of an AS-external-LSA is one
  that is redistributed, which is known to the client of the zebra daemon.
\<close>

definition ospf_process_self_originated_lsa ::
    "(lsa_header \<Rightarrow> bool) \<Rightarrow> ptr \<Rightarrow> ptr \<Rightarrow> ospf_world \<Rightarrow> ospf_world option" where
  "ospf_process_self_originated_lsa external_info new a w = do {
     l \<leftarrow> lsas w new;
     h \<leftarrow> lsa_data l;
     let ty = ls_type h;
     if ty = OSPF_ROUTER_LSA then do {
       ar \<leftarrow> area_at w a;
       w \<leftarrow> take_seqnum (router_lsa_self ar) h w;
       Some (call (Router_Lsa_Update_Area a) w) }
     else if ty = OSPF_NETWORK_LSA \<or> ty = OSPF_OPAQUE_LINK_LSA then
       process_self_network new a h (ospf_oiflist (top w)) w
     else if ty = OSPF_SUMMARY_LSA \<or> ty = OSPF_ASBR_SUMMARY_LSA then Some (call Schedule_Abr_Task w)
     else if ty = OSPF_AS_EXTERNAL_LSA \<or> ty = OSPF_AS_NSSA_LSA then
       if ty = OSPF_AS_EXTERNAL_LSA \<and> CHECK_FLAG (lsa_flags l) OSPF_LSA_LOCAL_XLT
       then Some (call (Translated_Nssa_Refresh new) w)
       else if external_info h then Some (call (External_Lsa_Refresh new) w)
       else ospf_lsa_flush_as new w
     else if ty = OSPF_OPAQUE_AREA_LSA \<or> ty = OSPF_OPAQUE_AS_LSA then Some (call (Opaque_Lsa_Refresh new) w)
     else Some w }"

text \<open>
  The test for the time since the current copy was received is in microseconds on the left and
  multiplied by 1000 on the right.
\<close>

definition flood_too_early :: "ptr option \<Rightarrow> ospf_world \<Rightarrow> bool option" where
  "flood_too_early current w =
     (case current of
        None \<Rightarrow> Some False
      | Some c \<Rightarrow> do {
          l \<leftarrow> lsas w c;
          h \<leftarrow> lsa_data l;
          Some (\<not> (IS_LSA_SELF l \<and> ls_age h = 0 \<and> ls_seqnum h = OSPF_INITIAL_SEQUENCE_NUMBER) \<and>
                now w - tv_recv l < int (unat (min_ls_arrival (top w))) * 1000) })"

text \<open>
  The original body of \<^verbatim>\<open>ospf_flood\<close>; \<open>False\<close> is the return of -1, which leaves the function before
  the POST pluglets.  \<open>install\<close> is \<^verbatim>\<open>ospf_lsa_install\<close>, the installation of an LSA in its database.
\<close>

definition flood_body ::
    "(ptr \<Rightarrow> ptr \<Rightarrow> ospf_world \<Rightarrow> (ptr option \<times> ospf_world) option) \<Rightarrow> (lsa_header \<Rightarrow> bool) \<Rightarrow>
     ptr \<Rightarrow> ptr option \<Rightarrow> ptr \<Rightarrow> ospf_world \<Rightarrow> (bool \<times> ospf_world) option" where
  "flood_body install external_info n current new w = do {
     nb \<leftarrow> nbr_at w n;
     early \<leftarrow> flood_too_early current w;
     if early then Some (False, w)
     else do {
       (lsa_ack_flag, w) \<leftarrow> ospf_flood_through (Some n) new w;
       oi \<leftarrow> if_at w (nbr_oi nb);
       w \<leftarrow> (case current of
               None \<Rightarrow> Some w
             | Some c \<Rightarrow> do {
                 h \<leftarrow> data_of w c;
                 if ls_type h = OSPF_AS_EXTERNAL_LSA \<or> ls_type h = OSPF_OPAQUE_AS_LSA
                 then ospf_ls_retransmit_delete_nbr_as c w
                 else ospf_ls_retransmit_delete_nbr_area (oi_area oi) c w });
       w \<leftarrow> upd_lsa new (\<lambda>l. l\<lparr>lsa_flags := SET_FLAG (lsa_flags l) OSPF_LSA_RECEIVED\<rparr>) w;
       (_, w) \<leftarrow> ospf_lsa_is_self_originated new w;
       (installed, w) \<leftarrow> install (nbr_oi nb) new w;
       case installed of
         None \<Rightarrow> Some (False, w)
       | Some new \<Rightarrow> do {
           w \<leftarrow> (if lsa_ack_flag then ospf_flood_delayed_lsa_ack n new w else Some w);
           (self, w) \<leftarrow> ospf_lsa_is_self_originated new w;
           w \<leftarrow> (if self then ospf_process_self_originated_lsa external_info new (oi_area oi) w
                 else Some (w\<lparr>top := (top w)\<lparr>rx_lsa_count := rx_lsa_count (top w) + 1\<rparr>\<rparr>));
           Some (True, w) } } }"

definition ospf_flood ::
    "plugin_table \<Rightarrow> (ptr \<Rightarrow> ptr \<Rightarrow> ospf_world \<Rightarrow> (ptr option \<times> ospf_world) option) \<Rightarrow> (lsa_header \<Rightarrow> bool) \<Rightarrow>
     ptr \<Rightarrow> ptr option \<Rightarrow> ptr \<Rightarrow> ospf_world \<Rightarrow> (int \<times> ospf_world) option" where
  "ospf_flood plugins install external_info n current new w = do {
     let arg = Arg_Lsa_Flood n new current;
     let hooks = plugins LSA_FLOOD;
     w \<leftarrow> (case hooks of None \<Rightarrow> Some w | Some h \<Rightarrow> run_pluglets (hooks_PRE h) arg w);
     (go_on, w) \<leftarrow> (case hooks \<bind> hook_REP of
                      Some p \<Rightarrow> map_option (\<lambda>(_, w). (True, w)) (p arg w)
                    | None \<Rightarrow> flood_body install external_info n current new w);
     if \<not> go_on then Some (- 1, w)
     else do {
       w \<leftarrow> (case hooks of None \<Rightarrow> Some w | Some h \<Rightarrow> run_pluglets (hooks_POST h) arg w);
       Some (0, w) } }"

end
