(* ===== verification/World_Inv.thy ===== *)
theory World_Inv
  imports Lsdb_Correct Flood
begin

text \<open>
  The invariant of the daemon's state that the reference counts of the LSAs rest on: every database
  of every live neighbour, of every area and of the instance is well-formed, and the lock of every LSA
  counts the references to it.
\<close>

section \<open>References\<close>

definition nbr_dbs :: "ospf_neighbor \<Rightarrow> ospf_lsdb list" where
  "nbr_dbs nb = [ls_rxmt nb, db_sum nb, ls_req nb]"

definition opt_dbs :: "ospf_neighbor option \<Rightarrow> ospf_lsdb list" where
  "opt_dbs v = (case v of None \<Rightarrow> [] | Some nb \<Rightarrow> nbr_dbs nb)"

definition world_dbs :: "ospf_world \<Rightarrow> ospf_lsdb list" where
  "world_dbs w = concat (map opt_dbs (nbr_heap w)) @ map area_lsdb (area_heap w) @ [as_lsdb (top w)]"

definition ptr_refs :: "ptr option \<Rightarrow> ptr \<Rightarrow> nat" where
  "ptr_refs v p = (if v = Some p then 1 else 0)"

definition opt_last :: "ospf_neighbor option \<Rightarrow> ptr \<Rightarrow> nat" where
  "opt_last v p = (case v of None \<Rightarrow> 0 | Some nb \<Rightarrow> ptr_refs (ls_req_last nb) p)"

definition if_refs :: "ospf_interface \<Rightarrow> ptr \<Rightarrow> nat" where
  "if_refs oi p = count_list (ls_ack oi) p + ptr_refs (network_lsa_self oi) p"

text \<open>The references held by the objects of the state outside the databases.\<close>

definition obj_refs :: "ospf_world \<Rightarrow> ptr \<Rightarrow> nat" where
  "obj_refs w p =
     (\<Sum>v\<leftarrow>nbr_heap w. opt_last v p) + (\<Sum>oi\<leftarrow>if_heap w. if_refs oi p) +
     (\<Sum>ar\<leftarrow>area_heap w. ptr_refs (router_lsa_self ar) p) + count_list (maxage_lsa (top w)) p"

text \<open>\<open>X\<close> counts the references held by the rest of the daemon, the refresh lists among them.\<close>

definition world_inv :: "(ptr \<Rightarrow> nat) \<Rightarrow> ospf_world \<Rightarrow> bool" where
  "world_inv X w \<longleftrightarrow>
     (\<forall>d \<in> set (world_dbs w). lsdb_ok w d) \<and>
     counted w (sys_refs (world_dbs w)) (\<lambda>p. obj_refs w p + X p) \<and>
     (\<forall>p l. lsas w p = Some l \<and> 0 \<le> refresh_list l \<longrightarrow> 0 < X p)"

section \<open>Lemmas on sums\<close>

lemma sum_list_update_plus:
  fixes f :: "'a \<Rightarrow> nat"
  shows "i < length xs \<Longrightarrow> (\<Sum>x\<leftarrow>xs[i := y]. f x) + f (xs ! i) = (\<Sum>x\<leftarrow>xs. f x) + f y"
  by (induction xs arbitrary: i) (auto split: nat.split)

lemma sys_refs_append [simp]: "sys_refs (xs @ ys) p = sys_refs xs p + sys_refs ys p"
  by (simp add: sys_refs_def)

lemma sys_refs_concat: "sys_refs (concat xss) p = (\<Sum>xs\<leftarrow>xss. sys_refs xs p)"
  by (induction xss) (simp_all add: sys_refs_def)

lemma sys_refs_nbrs:
  assumes "n < length (nbr_heap w)"
  shows "sys_refs (world_dbs (w\<lparr>nbr_heap := (nbr_heap w)[n := v]\<rparr>)) p + sys_refs (opt_dbs (nbr_heap w ! n)) p =
         sys_refs (world_dbs w) p + sys_refs (opt_dbs v) p"
  using sum_list_update_plus [OF assms, of "\<lambda>v. sys_refs (opt_dbs v) p" v]
  by (simp add: world_dbs_def sys_refs_concat comp_def)

lemma nbr_atD: "nbr_at w n = Some nb \<Longrightarrow> n < length (nbr_heap w) \<and> nbr_heap w ! n = Some nb"
  by (simp add: nbr_at_def split: if_splits)

lemma nbr_at_update:
  "n < length (nbr_heap w) \<Longrightarrow>
   nbr_at (w\<lparr>nbr_heap := (nbr_heap w)[n := v]\<rparr>) m = (if m = n then v else nbr_at w m)"
  by (simp add: nbr_at_def)

lemma world_dbs_nbr: "nbr_at w n = Some nb \<Longrightarrow> set (nbr_dbs nb) \<subseteq> set (world_dbs w)"
proof -
  assume "nbr_at w n = Some nb"
  then have "Some nb \<in> set (nbr_heap w)" using nbr_atD [of w n nb] nth_mem [of n "nbr_heap w"] by simp
  then show ?thesis by (fastforce simp: world_dbs_def opt_dbs_def)
qed

lemma world_dbs_upd:
  assumes "n < length (nbr_heap w)"
  shows "set (world_dbs (w\<lparr>nbr_heap := (nbr_heap w)[n := v]\<rparr>)) \<subseteq> set (opt_dbs v) \<union> set (world_dbs w)"
  using set_update_subset_insert [of "nbr_heap w" n v] by (fastforce simp: world_dbs_def)

section \<open>What an operation on one neighbour leaves alone\<close>

definition nbr_frame :: "ptr \<Rightarrow> ospf_world \<Rightarrow> ospf_world \<Rightarrow> bool" where
  "nbr_frame n w w' \<longleftrightarrow> next_lsa w' = next_lsa w \<and> now w' = now w \<and>
     (\<forall>p. kept_at (lsas w p) (lsas w' p)) \<and> length (nbr_heap w') = length (nbr_heap w) \<and>
     (\<forall>m. m \<noteq> n \<longrightarrow> nbr_at w' m = nbr_at w m) \<and>
     if_heap w' = if_heap w \<and> area_heap w' = area_heap w \<and> nbma_heap w' = nbma_heap w \<and> top w' = top w"

lemma nbr_frame_refl [simp]: "nbr_frame n w w"
  by (simp add: nbr_frame_def)

lemma nbr_frame_trans: "nbr_frame n u v \<Longrightarrow> nbr_frame n v w \<Longrightarrow> nbr_frame n u w"
  using kept_at_trans by (auto simp: nbr_frame_def) blast

lemma kept_world:
  "kept w w' \<Longrightarrow> nbr_heap w' = nbr_heap w \<and> if_heap w' = if_heap w \<and> area_heap w' = area_heap w \<and>
     nbma_heap w' = nbma_heap w \<and> top w' = top w \<and> calls w' = calls w \<and> random w' = random w \<and> random_pos w' = random_pos w"
  by (cases w; cases w') (simp add: kept_def)

lemma kept_nbr_at: "kept w w' \<Longrightarrow> nbr_at w' n = nbr_at w n"
  using kept_world [of w w'] by (simp add: nbr_at_def)

lemma counted_world:
  "counted (w\<lparr>nbr_heap := h\<rparr>) = counted w" "lsdb_ok (w\<lparr>nbr_heap := h\<rparr>) = lsdb_ok w"
  by (auto simp: counted_def fun_eq_iff lsa_view_def intro!: lsdb_ok_cong)

lemma world_inv_counted: "world_inv X w \<Longrightarrow> counted w (sys_refs (world_dbs w)) (\<lambda>p. obj_refs w p + X p)"
  by (simp add: world_inv_def)

lemma kept_refresh:
  assumes "kept w w'" "\<forall>p l. lsas w p = Some l \<and> 0 \<le> refresh_list l \<longrightarrow> 0 < X p"
  shows "\<forall>p l. lsas w' p = Some l \<and> 0 \<le> refresh_list l \<longrightarrow> 0 < (X p :: nat)"
proof (intro allI impI)
  fix p l assume l: "lsas w' p = Some l \<and> 0 \<le> refresh_list l"
  have "kept_at (lsas w p) (lsas w' p)" using assms(1) by (simp add: kept_def)
  with l obtain l' where "lsas w p = Some l'" "refresh_list l = refresh_list l'"
    by (auto simp: kept_at_def split: option.splits)
  with assms(2) l show "0 < X p" by auto
qed

lemma lsdb_ok_lsas: "lsas w' = lsas w \<Longrightarrow> lsdb_ok w' = lsdb_ok w"
  by (auto simp: fun_eq_iff lsa_view_def intro!: lsdb_ok_cong)

lemma counted_lsas: "lsas w' = lsas w \<Longrightarrow> next_lsa w' = next_lsa w \<Longrightarrow> counted w' = counted w"
  by (simp add: counted_def fun_eq_iff)

text \<open>How the invariant is carried over an operation that changes the databases in \<open>D\<close>.\<close>

lemma world_inv_change:
  assumes inv: "world_inv X w" and k: "kept w w1" "lsas w' = lsas w1" "next_lsa w' = next_lsa w1"
    and c: "counted w1 (sys_refs (world_dbs w')) (\<lambda>p. obj_refs w' p + X p)"
    and dbs: "set (world_dbs w') \<subseteq> D \<union> set (world_dbs w)" "\<forall>d\<in>D. lsdb_ok w1 d"
  shows "world_inv X w'"
proof -
  have "lsdb_ok w1 e" if e: "e \<in> set (world_dbs w')" for e
  proof (cases "e \<in> D")
    case False
    with e dbs(1) inv have "lsdb_ok w e" by (auto simp: world_inv_def)
    with c k(1) show ?thesis by (rule lsdb_ok_beside) (rule sys_refs_member [OF e])
  qed (use dbs(2) in simp)
  then show ?thesis
    using c kept_refresh [OF k(1), of X] inv k(2,3)
    by (simp add: world_inv_def lsdb_ok_lsas [OF k(2)] counted_lsas [OF k(2,3)])
qed

section \<open>The lists of a neighbour\<close>

text \<open>The interface of a list that is part of a neighbour: how to read and replace it.\<close>

locale nbr_list =
  fixes get :: "ospf_neighbor \<Rightarrow> ospf_lsdb"
    and put :: "ospf_lsdb \<Rightarrow> ospf_neighbor \<Rightarrow> ospf_neighbor"
  assumes get_put: "get (put d nb) = d"
    and refs_put: "sys_refs (nbr_dbs (put d nb)) p + lsdb_refs (get nb) p = sys_refs (nbr_dbs nb) p + lsdb_refs d p"
    and dbs_put: "set (nbr_dbs (put d nb)) \<subseteq> insert d (set (nbr_dbs nb))"
    and get_dbs: "get nb \<in> set (nbr_dbs nb)"
    and last_put: "ls_req_last (put d nb) = ls_req_last nb"
begin

lemma on_list_ok:
  assumes inv: "world_inv X w" and n: "nbr_at w n = Some nb"
    and f: "\<And>E Y. db_inv w (get nb) E Y \<Longrightarrow> \<exists>d w1. f (get nb) w = Some (d, w1) \<and> db_inv w1 d E Y \<and> kept w w1 \<and> P d"
  shows "\<exists>w' d. on_list get put n f w = Some w' \<and> world_inv X w' \<and> nbr_frame n w w' \<and>
           nbr_at w' n = Some (put d nb) \<and> P d"
proof -
  let ?T = "sys_refs (world_dbs w)" and ?Y = "\<lambda>p. obj_refs w p + X p"
  let ?E = "\<lambda>p. ?T p - lsdb_refs (get nb) p"
  note len = nbr_atD [OF n]
  have get: "get nb \<in> set (world_dbs w)" using world_dbs_nbr [OF n] get_dbs by blast
  have le: "lsdb_refs (get nb) p \<le> ?T p" for p by (rule sys_refs_member [OF get])
  have "db_inv w (get nb) ?E ?Y" using inv get le by (simp add: db_inv_def world_inv_def)
  from f [OF this] obtain d w1 where d: "f (get nb) w = Some (d, w1)" "db_inv w1 d ?E ?Y" "kept w w1" "P d" by blast
  note same = kept_world [OF d(3)]
  define w' where "w' = w1\<lparr>nbr_heap := (nbr_heap w1)[n := Some (put d nb)]\<rparr>"
  have on: "on_list get put n f w = Some w'"
    using n d(1) kept_nbr_at [OF d(3), of n] by (simp add: on_list_def upd_nbr_def w'_def)
  have refs: "sys_refs (world_dbs w') p = lsdb_refs d p + ?E p" for p
  proof -
    have "world_dbs w' = world_dbs (w\<lparr>nbr_heap := (nbr_heap w)[n := Some (put d nb)]\<rparr>)"
      using same by (simp add: world_dbs_def w'_def)
    then show ?thesis
      using sys_refs_nbrs [of n w "Some (put d nb)" p] len refs_put [of d nb p] le [of p] by (simp add: opt_dbs_def)
  qed
  have "(\<Sum>v\<leftarrow>(nbr_heap w)[n := Some (put d nb)]. opt_last v p) = (\<Sum>v\<leftarrow>nbr_heap w. opt_last v p)" for p
    using sum_list_update_plus [of n "nbr_heap w" "\<lambda>v. opt_last v p" "Some (put d nb)"] len
    by (simp add: opt_last_def last_put)
  then have obj: "obj_refs w' = obj_refs w"
    using same by (auto simp: obj_refs_def w'_def fun_eq_iff)
  from refs have "sys_refs (world_dbs w') = (\<lambda>p. lsdb_refs d p + ?E p)" by (intro ext)
  with d(2) have c: "counted w1 (sys_refs (world_dbs w')) ?Y" by (simp add: db_inv_def)
  have "world_dbs w1 = world_dbs w" using same by (simp add: world_dbs_def)
  then have dbs: "set (world_dbs w') \<subseteq> {d} \<union> set (world_dbs w)"
    using world_dbs_upd [of n w1 "Some (put d nb)"] dbs_put [of d nb] world_dbs_nbr [OF n] same len
    by (auto simp: w'_def opt_dbs_def)
  have "world_inv X w'"
    by (rule world_inv_change [OF inv d(3) _ _ _ dbs]) (use c obj d(2) in \<open>simp_all add: w'_def db_inv_def\<close>)
  moreover have "nbr_frame n w w'"
    using d(3) same len by (auto simp: nbr_frame_def w'_def kept_def nbr_at_def)
  moreover have "nbr_at w' n = Some (put d nb)" using len same by (simp add: w'_def nbr_at_def)
  ultimately show ?thesis using on d(4) by blast
qed

end

interpretation rxmt: nbr_list ls_rxmt set_ls_rxmt
  by unfold_locales (auto simp: set_ls_rxmt_def nbr_dbs_def sys_refs_def)

interpretation req: nbr_list ls_req set_ls_req
  by unfold_locales (auto simp: set_ls_req_def nbr_dbs_def sys_refs_def)

interpretation dbsum: nbr_list db_sum set_db_sum
  by unfold_locales (auto simp: set_db_sum_def nbr_dbs_def sys_refs_def)

end
