(* ===== verification/Sample_Router.thy ===== *)
theory Sample_Router
  imports Ospf_State
begin

text \<open>A concrete router, on which the properties of the daemon are evaluated.\<close>

text \<open>A router with one interface and, besides itself, one fully adjacent neighbour.\<close>

definition sample_nbr :: "u8 \<Rightarrow> u32 \<Rightarrow> ospf_neighbor" where
  "sample_nbr st rid = \<lparr>nbr_oi = 0, nbr_state = st, dd_flags = 0, dd_seqnum = 0, nbr_address = rid, nbr_src = rid,
     nbr_router_id = rid, nbr_options = 2, nbr_priority = 1, d_router = 1, bd_router = 0, last_send = False,
     ls_rxmt = ospf_lsdb_new, db_sum = ospf_lsdb_new, ls_req = ospf_lsdb_new, ls_req_last = None,
     nbr_crypt_seqnum = 0, v_inactivity = 40, v_db_desc = 5, v_ls_req = 5, v_ls_upd = 5, t_inactivity = None,
     t_db_desc = None, t_ls_req = None, t_ls_upd = None, t_hello_reply = None, nbr_nbma = None,
     ts_last_progress = 0, ts_last_regress = 0, last_regress_str = None, nbr_state_change = 0\<rparr>"

definition sample_if :: ospf_interface where
  "sample_if = \<lparr>oi_area = 0, oi_type = OSPF_IFTYPE_BROADCAST, oi_state = ISM_DR, oi_address = 1, ifp_loopback = False,
     ifp_vrf = False, ifp_up = True, vl_area_id = 0, oi_nbrs = [(1, 0), (2, 1)], nbr_self = Some 0, oi_nbr_nbma = [],
     network_lsa_self = None, ls_ack = [], oi_crypt_seqnum = 0, param_priority = 1, param_retransmit_interval = 5,
     param_v_hello = 10, param_v_wait = 40, param_fast_hello = 0, v_ls_ack = 1, t_hello = None, t_wait = None,
     t_ls_ack = None, oi_state_change = 0, oi_full_nbrs = 1\<rparr>"

definition sample_area :: ospf_area where
  "sample_area = \<lparr>area_oiflist = [0], area_id = 0, external_routing = OSPF_AREA_DEFAULT, area_lsdb = ospf_lsdb_new,
     router_lsa_self = None, act_ints = 1, area_full_nbrs = 1, full_vls = 0\<rparr>"

definition sample_header :: lsa_header where
  "sample_header = (ospf_lsa_data_new 20)\<lparr>ls_type := OSPF_ROUTER_LSA, ls_id := 9, ls_adv_router := 9\<rparr>"

definition sample_lsa :: ospf_lsa where
  "sample_lsa = \<lparr>lsa_flags = 0, lsa_data = Some sample_header, tv_recv = 0, tv_orig = 0, lsa_lock = 1, lsa_stat = 0,
     retransmit_counter = 0, lsa_area = Some 0, refresh_list = - 1, lsa_oi = None, lsa_vrf_id = 0\<rparr>"

definition sample_ospf :: ospf where
  "sample_ospf = \<lparr>ospf_router_id = 1, ospf_areas = [0], ospf_oiflist = [0], as_lsdb = ospf_lsdb_new, min_ls_arrival = 1000,
     rx_lsa_count = 0, redist = [], maxage_lsa = [], maxage_delay = 60, t_maxage = None\<rparr>"

definition sample_world :: ospf_world where
  "sample_world = \<lparr>lsas = [0 \<mapsto> sample_lsa], next_lsa = 1, now = 0, lsa_calls = [],
     nbr_heap = [Some (sample_nbr NSM_TwoWay 1), Some (sample_nbr NSM_Full 2)], if_heap = [sample_if],
     area_heap = [sample_area], nbma_heap = [], top = sample_ospf, random = (\<lambda>i. 0), random_pos = 0, calls = []\<rparr>"

end
