(* ===== verification/Flood_Correct.thy ===== *)
theory Flood_Correct
  imports World_Inv Sample_Router
begin

text \<open>
  Flooding keeps the references of the state counted and reaches the neighbours: for the lists of a
  neighbour, for one neighbour, for an interface and for an area.
\<close>

section \<open>Operations on the lists\<close>

definition in_use :: "'a lsa_world_scheme \<Rightarrow> ptr \<Rightarrow> lsa_header \<Rightarrow> bool" where
  "in_use w p h \<longleftrightarrow> unat (ls_type h) \<in> set lsa_types \<and>
     (case lsas w p of None \<Rightarrow> False | Some l \<Rightarrow> lsa_data l = Some h \<and> \<not> discarded l)"

lemma in_use_kept:
  assumes "in_use w p h" "kept_at (lsas w p) (lsas w' p)"
  shows "in_use w' p h"
  using assms by (auto simp: in_use_def kept_at_def discarded_def split: option.splits)

lemma in_use_frame: "in_use w p h \<Longrightarrow> nbr_frame n w w' \<Longrightarrow> in_use w' p h"
  by (erule in_use_kept) (simp add: nbr_frame_def)

lemma in_use_data: "in_use w p h \<Longrightarrow> data_of w p = Some h"
  by (auto simp: in_use_def data_of_def split: option.splits)

lemma in_use_type: "in_use w p h \<Longrightarrow> unat (ls_type h) \<in> set lsa_types"
  by (simp add: in_use_def)

lemma world_inv_db: "world_inv X w \<Longrightarrow> nbr_at w n = Some nb \<Longrightarrow> d \<in> set (nbr_dbs nb) \<Longrightarrow> lsdb_ok w d"
  using world_dbs_nbr [of w n nb] by (auto simp: world_inv_def)

lemma lsdb_lookup_map:
  assumes "lsdb_ok w d" "data_of w p = Some h" "unat (ls_type h) \<in> set lsa_types"
  shows "ospf_lsdb_lookup d p w = Some (lsdb_map d (unat (ls_type h), ls_prefix_set h))"
  by (rule lsdb_tableE [OF assms(1,3)]) (simp add: ospf_lsdb_lookup_def lsdb_map_def assms(2))

lemma nbr_frame_kept: "nbr_frame n w w' \<Longrightarrow> kept_at (lsas w p) (lsas w' p)"
  by (simp add: nbr_frame_def)

lemma upd_lsa_ok:
  assumes inv: "world_inv X w" and l: "lsas w p = Some l"
    and f: "lsa_flags (f l) = lsa_flags l" "lsa_data (f l) = lsa_data l" "lsa_lock (f l) = lsa_lock l"
      "refresh_list (f l) = refresh_list l" "tv_recv (f l) = tv_recv l"
  shows "\<exists>w'. upd_lsa p f w = Some w' \<and> world_inv X w' \<and> kept w w'"
proof -
  let ?w = "w\<lparr>lsas := (lsas w)(p \<mapsto> f l)\<rparr>"
  note c = world_inv_counted [OF inv]
  have k: "kept w ?w" by (rule kept_upd) (simp add: kept_at_def l f)
  have "ref_ok (Some (f l)) (sys_refs (world_dbs w) p) (obj_refs w p + X p)"
    using counted_ref [OF c, of p] l f by (simp add: ref_ok_def discarded_def)
  then have "counted ?w (sys_refs (world_dbs w)) (\<lambda>p. obj_refs w p + X p)"
    by (intro counted_upd [OF c counted_live [OF c l]]) simp_all
  then have "world_inv X ?w"
    by (intro world_inv_change [OF inv k, where D = "{}"]) (simp_all add: world_dbs_def obj_refs_def)
  with k l show ?thesis by (auto simp: upd_lsa_def)
qed

lemma kept_frame: "kept w w' \<Longrightarrow> nbr_frame n w w'"
  using kept_world [of w w'] by (simp add: nbr_frame_def kept_def nbr_at_def)

lemma count_retransmit_ok:
  assumes "world_inv X w" "lsas w p = Some l"
  shows "\<exists>w'. count_retransmit p c w = Some w' \<and> world_inv X w' \<and> kept w w'"
  unfolding count_retransmit_def by (rule upd_lsa_ok [OF assms]) simp_all

lemma rxmt_insert_ok:
  assumes inv: "world_inv X w" and n: "nbr_at w n = Some nb" and p: "in_use w p h"
  shows "\<exists>w' d. on_ls_rxmt n (\<lambda>d. ospf_lsdb_add d p) w = Some w' \<and> world_inv X w' \<and> nbr_frame n w w' \<and>
     nbr_at w' n = Some (set_ls_rxmt d nb) \<and>
     lsdb_map d = (lsdb_map (ls_rxmt nb))((unat (ls_type h), ls_prefix_set h) \<mapsto> p)"
  by (rule rxmt.on_list_ok [OF inv n]) (rule lsdb_add_ok [OF _ in_use_data [OF p] in_use_type [OF p]])

lemma rxmt_remove_ok:
  assumes inv: "world_inv X w" and n: "nbr_at w n = Some nb"
    and h: "data_of w q = Some h" "unat (ls_type h) \<in> set lsa_types"
  shows "\<exists>w' d. on_ls_rxmt n (\<lambda>d. ospf_lsdb_delete d (Some q)) w = Some w' \<and> world_inv X w' \<and> nbr_frame n w w' \<and>
     nbr_at w' n = Some (set_ls_rxmt d nb) \<and>
     lsdb_map d = (if lsdb_map (ls_rxmt nb) (unat (ls_type h), ls_prefix_set h) = Some q
                   then (lsdb_map (ls_rxmt nb))((unat (ls_type h), ls_prefix_set h) := None) else lsdb_map (ls_rxmt nb))"
  by (rule rxmt.on_list_ok [OF inv n]) (rule lsdb_delete_ok [OF _ h])

lemma req_remove_ok:
  assumes inv: "world_inv X w" and n: "nbr_at w n = Some nb"
    and h: "data_of w q = Some h" "unat (ls_type h) \<in> set lsa_types"
  shows "\<exists>w' d. on_ls_req n (\<lambda>d. ospf_lsdb_delete d (Some q)) w = Some w' \<and> world_inv X w' \<and> nbr_frame n w w' \<and>
     nbr_at w' n = Some (set_ls_req d nb)"
  using req.on_list_ok [OF inv n, of "\<lambda>d. ospf_lsdb_delete d (Some q)" "\<lambda>_. True"] lsdb_delete_ok [OF _ h] by blast

lemma set_lists [simp]:
  "set_ls_rxmt d (set_ls_rxmt d' nb) = set_ls_rxmt d nb" "ls_rxmt (set_ls_rxmt d nb) = d"
  "ls_rxmt (set_ls_req d nb) = ls_rxmt nb"
  "nbr_state (set_ls_rxmt d nb) = nbr_state nb" "nbr_state (set_ls_req d nb) = nbr_state nb"
  "nbr_options (set_ls_rxmt d nb) = nbr_options nb" "nbr_options (set_ls_req d nb) = nbr_options nb"
  "nbr_router_id (set_ls_rxmt d nb) = nbr_router_id nb" "nbr_router_id (set_ls_req d nb) = nbr_router_id nb"
  "nbr_oi (set_ls_rxmt d nb) = nbr_oi nb" "nbr_oi (set_ls_req d nb) = nbr_oi nb"
  "nbr_address (set_ls_rxmt d nb) = nbr_address nb" "nbr_address (set_ls_req d nb) = nbr_address nb"
  "nbr_src (set_ls_rxmt d nb) = nbr_src nb" "nbr_src (set_ls_req d nb) = nbr_src nb"
  "nbr_nbma (set_ls_rxmt d nb) = nbr_nbma nb" "nbr_nbma (set_ls_req d nb) = nbr_nbma nb"
  by (simp_all add: set_ls_rxmt_def set_ls_req_def)

text \<open>The retransmission list of a neighbour has an instance of the LSA that is not older than it.\<close>

definition queued :: "ospf_world \<Rightarrow> ptr \<Rightarrow> lsa_header \<Rightarrow> ospf_neighbor \<Rightarrow> bool" where
  "queued w p h nb =
     (case lsdb_map (ls_rxmt nb) (unat (ls_type h), ls_prefix_set h) of
        None \<Rightarrow> False
      | Some q \<Rightarrow> q = p \<or> (case ospf_lsa_more_recent w (Some q) (Some p) of None \<Rightarrow> False | Some r \<Rightarrow> 0 \<le> r))"

lemma more_recent_live:
  assumes "data_of w p = Some h" "data_of w q = Some g"
  shows "\<exists>r. ospf_lsa_more_recent w (Some p) (Some q) = Some r"
  using assms more_recent_sgn [of w p _ h q _ g] by (auto simp: data_of_def split: bind_splits)

lemma rxmt_enqueue_ok:
  assumes inv: "world_inv X w" and n: "nbr_at w n = Some nb" and p: "in_use w p h"
  shows "\<exists>w' d. (do { w \<leftarrow> count_retransmit p 1 w; on_ls_rxmt n (\<lambda>d. ospf_lsdb_add d p) w }) = Some w' \<and>
     world_inv X w' \<and> nbr_frame n w w' \<and> nbr_at w' n = Some (set_ls_rxmt d nb) \<and>
     lsdb_map d = (lsdb_map (ls_rxmt nb))((unat (ls_type h), ls_prefix_set h) \<mapsto> p)"
proof -
  obtain lp where lp: "lsas w p = Some lp" using p by (auto simp: in_use_def split: option.splits)
  obtain w1 where w1: "count_retransmit p 1 w = Some w1" "world_inv X w1" "kept w w1"
    using count_retransmit_ok [OF inv lp] by blast
  have "in_use w1 p h" by (rule in_use_kept [OF p]) (use w1(3) in \<open>simp add: kept_def\<close>)
  moreover have "nbr_at w1 n = Some nb" using kept_nbr_at [OF w1(3)] n by simp
  ultimately show ?thesis
    using rxmt_insert_ok [OF w1(2)] w1(1) nbr_frame_trans [OF kept_frame [OF w1(3)]] by fastforce
qed

lemma rxmt_dequeue_ok:
  assumes inv: "world_inv X w" and n: "nbr_at w n = Some nb"
    and q: "data_of w q = Some g" "unat (ls_type g) \<in> set lsa_types"
  shows "\<exists>w' d. (do { w \<leftarrow> count_retransmit q (- 1) w; on_ls_rxmt n (\<lambda>d. ospf_lsdb_delete d (Some q)) w }) = Some w' \<and>
     world_inv X w' \<and> nbr_frame n w w' \<and> nbr_at w' n = Some (set_ls_rxmt d nb) \<and>
     lsdb_map d = (if lsdb_map (ls_rxmt nb) (unat (ls_type g), ls_prefix_set g) = Some q
                   then (lsdb_map (ls_rxmt nb))((unat (ls_type g), ls_prefix_set g) := None) else lsdb_map (ls_rxmt nb))"
proof -
  obtain l where l: "lsas w q = Some l" "lsa_data l = Some g" using q(1) by (auto simp: data_of_def split: bind_splits)
  obtain w1 where w1: "count_retransmit q (- 1) w = Some w1" "world_inv X w1" "kept w w1" "data_of w1 q = Some g"
    using count_retransmit_ok [OF inv l(1), of "- 1"] l
    by (auto simp: count_retransmit_def upd_lsa_def data_of_def)
  moreover have "nbr_at w1 n = Some nb" using kept_nbr_at [OF w1(3)] n by simp
  ultimately show ?thesis
    using rxmt_remove_ok [OF w1(2) _ w1(4) q(2)] w1(1) nbr_frame_trans [OF kept_frame [OF w1(3)]] by fastforce
qed

lemma retransmit_add_ok:
  assumes inv: "world_inv X w" and n: "nbr_at w n = Some nb" and p: "in_use w p h"
  shows "\<exists>w' d. ospf_ls_retransmit_add n p w = Some w' \<and> world_inv X w' \<and> nbr_frame n w w' \<and>
     nbr_at w' n = Some (set_ls_rxmt d nb) \<and> queued w p h (set_ls_rxmt d nb)"
proof -
  let ?e = "(unat (ls_type h), ls_prefix_set h)"
  have ok: "lsdb_ok w (ls_rxmt nb)" by (rule world_inv_db [OF inv n]) (simp add: nbr_dbs_def)
  note look = lsdb_lookup_map [OF ok in_use_data [OF p] in_use_type [OF p]]
  show ?thesis
  proof (cases "lsdb_map (ls_rxmt nb) ?e")
    case None
    with rxmt_enqueue_ok [OF inv n p] n look show ?thesis
      by (fastforce simp: ospf_ls_retransmit_add_def ospf_ls_retransmit_lookup_def ospf_lsa_more_recent_def queued_def)
  next
    case (Some q)
    then obtain g where g: "data_of w q = Some g" "unat (ls_type g) = fst ?e" "ls_prefix_set g = snd ?e"
      using lsdb_map_live [OF ok, of "fst ?e" "snd ?e" q] by auto
    then obtain r where r: "ospf_lsa_more_recent w (Some q) (Some p) = Some r"
      using more_recent_live [OF g(1) in_use_data [OF p]] by blast
    show ?thesis
    proof (cases "r < 0")
      case False
      have "nb = set_ls_rxmt (ls_rxmt nb) nb" by (simp add: set_ls_rxmt_def)
      then show ?thesis
        using n look Some r False inv
        by (auto simp: ospf_ls_retransmit_add_def ospf_ls_retransmit_lookup_def queued_def
            intro!: exI [of _ "ls_rxmt nb"])
    next
      case True
      obtain w1 d1 where w1: "(do { w \<leftarrow> count_retransmit q (- 1) w; on_ls_rxmt n (\<lambda>d. ospf_lsdb_delete d (Some q)) w }) = Some w1"
        "world_inv X w1" "nbr_frame n w w1" "nbr_at w1 n = Some (set_ls_rxmt d1 nb)"
        using rxmt_dequeue_ok [OF inv n g(1)] g(2) in_use_type [OF p] by auto
      obtain w2 d2 where w2: "(do { w \<leftarrow> count_retransmit p 1 w1; on_ls_rxmt n (\<lambda>d. ospf_lsdb_add d p) w }) = Some w2"
        "world_inv X w2" "nbr_frame n w1 w2" "nbr_at w2 n = Some (set_ls_rxmt d2 nb)" "lsdb_map d2 ?e = Some p"
        using rxmt_enqueue_ok [OF w1(2,4) in_use_frame [OF p w1(3)]] by auto
      have "ospf_ls_retransmit_add n p w = Some w2"
        using n look Some r True w1(1) w2(1)
        by (simp add: ospf_ls_retransmit_add_def ospf_ls_retransmit_lookup_def)
      with w2 nbr_frame_trans [OF w1(3) w2(3)] show ?thesis by (auto simp: queued_def)
    qed
  qed
qed

section \<open>The request list\<close>

text \<open>What stays of a neighbour when its request list is worked on.\<close>

definition same_rxmt :: "ospf_neighbor \<Rightarrow> ospf_neighbor \<Rightarrow> bool" where
  "same_rxmt nb nb' \<longleftrightarrow> ls_rxmt nb' = ls_rxmt nb \<and> nbr_state nb' = nbr_state nb \<and>
     nbr_options nb' = nbr_options nb \<and> nbr_router_id nb' = nbr_router_id nb \<and> nbr_oi nb' = nbr_oi nb \<and>
     nbr_address nb' = nbr_address nb \<and> nbr_src nb' = nbr_src nb \<and> nbr_nbma nb' = nbr_nbma nb"

lemma obj_refs_nbr:
  assumes "n < length (nbr_heap w)"
  shows "obj_refs (w\<lparr>nbr_heap := (nbr_heap w)[n := v]\<rparr>) p + opt_last (nbr_heap w ! n) p = obj_refs w p + opt_last v p"
  using sum_list_update_plus [OF assms, of "\<lambda>v. opt_last v p" v] by (simp add: obj_refs_def)

lemma drop_last_ok:
  assumes inv: "world_inv X w" and n: "nbr_at w n = Some nb"
  shows "\<exists>w'. drop_ls_req_last n w = Some w' \<and> world_inv X w' \<and> nbr_frame n w w' \<and>
           nbr_at w' n = Some (nb\<lparr>ls_req_last := None\<rparr>)"
proof -
  let ?nb = "nb\<lparr>ls_req_last := None\<rparr>"
  let ?w = "\<lambda>w. w\<lparr>nbr_heap := (nbr_heap w)[n := Some ?nb]\<rparr>"
  note len = nbr_atD [OF n] and c = world_inv_counted [OF inv]
  have dbs: "sys_refs (world_dbs (?w w)) = sys_refs (world_dbs w)"
    using sys_refs_nbrs [of n w "Some ?nb"] len by (auto simp: opt_dbs_def nbr_dbs_def fun_eq_iff)
  have sub: "set (world_dbs (?w w)) \<subseteq> {} \<union> set (world_dbs w)"
    using world_dbs_upd [of n w "Some ?nb"] len world_dbs_nbr [OF n] by (auto simp: opt_dbs_def nbr_dbs_def)
  have obj: "obj_refs (?w w) p + ptr_refs (ls_req_last nb) p = obj_refs w p" for p
    using obj_refs_nbr [of n w "Some ?nb" p] len by (simp add: opt_last_def ptr_refs_def)
  have "\<exists>r w1. ospf_lsa_unlock (ls_req_last nb) w = Some (r, w1) \<and> kept w w1 \<and>
          counted w1 (sys_refs (world_dbs w)) (\<lambda>p. obj_refs (?w w) p + X p)"
  proof (cases "ls_req_last nb")
    case None
    then have "obj_refs (?w w) = obj_refs w" using obj by (auto simp: ptr_refs_def fun_eq_iff)
    with None c show ?thesis by (simp add: ospf_lsa_unlock_def)
  next
    case (Some p)
    have "obj_refs w q = obj_refs (?w w) q + (if q = p then 1 else 0)" for q
      using obj [of q] Some by (auto simp: ptr_refs_def)
    then have "\<exists>r w'. ospf_lsa_unlock (Some p) w = Some (r, w') \<and>
        counted w' (sys_refs (world_dbs w)) (\<lambda>q. obj_refs (?w w) q + X q) \<and> kept w w' \<and> (\<forall>q. q \<noteq> p \<longrightarrow> lsas w' q = lsas w q)"
      using inv by (intro release [OF c]) (auto simp: world_inv_def)
    then show ?thesis unfolding Some by blast
  qed
  then obtain r w1 where w1: "ospf_lsa_unlock (ls_req_last nb) w = Some (r, w1)" "kept w w1"
    "counted w1 (sys_refs (world_dbs w)) (\<lambda>p. obj_refs (?w w) p + X p)" by blast
  have same: "world_dbs (?w w1) = world_dbs (?w w)" "obj_refs (?w w1) = obj_refs (?w w)"
    using kept_world [OF w1(2)] by (simp_all add: world_dbs_def obj_refs_def fun_eq_iff)
  have "world_inv X (?w w1)"
    by (rule world_inv_change [OF inv w1(2), where D = "{}"]) (use w1(3) same dbs sub in simp_all)
  moreover have "drop_ls_req_last n w = Some (?w w1)"
    using n w1(1) kept_nbr_at [OF w1(2), of n] by (simp add: drop_ls_req_last_def upd_nbr_def)
  moreover have "nbr_frame n w (?w w1)" "nbr_at (?w w1) n = Some ?nb"
    using w1(2) kept_world [OF w1(2)] len by (auto simp: nbr_frame_def kept_def nbr_at_def)
  ultimately show ?thesis by blast
qed

lemma request_delete_ok:
  assumes inv: "world_inv X w" and n: "nbr_at w n = Some nb"
    and q: "lsdb_map (ls_req nb) (i, k) = Some q"
  shows "\<exists>w' nb'. ospf_ls_request_delete n q w = Some w' \<and> world_inv X w' \<and> nbr_frame n w w' \<and>
           nbr_at w' n = Some nb' \<and> same_rxmt nb nb'"
proof -
  obtain w1 nb1 where w1: "(if ls_req_last nb = Some q then drop_ls_req_last n w else Some w) = Some w1"
    "world_inv X w1" "nbr_frame n w w1" "nbr_at w1 n = Some nb1" "same_rxmt nb nb1" "ls_req nb1 = ls_req nb"
  proof (cases "ls_req_last nb = Some q")
    case True
    from drop_last_ok [OF inv n] obtain w1 where "drop_ls_req_last n w = Some w1" "world_inv X w1" "nbr_frame n w w1"
      "nbr_at w1 n = Some (nb\<lparr>ls_req_last := None\<rparr>)" by blast
    with True that [of w1 "nb\<lparr>ls_req_last := None\<rparr>"] show ?thesis by (simp add: same_rxmt_def)
  next
    case False
    with that [of w nb] inv n show ?thesis by (simp add: same_rxmt_def)
  qed
  have "lsdb_ok w1 (ls_req nb1)" by (rule world_inv_db [OF w1(2,4)]) (simp add: nbr_dbs_def)
  from lsdb_map_live [OF this, of i k q] obtain h where h: "data_of w1 q = Some h" "unat (ls_type h) = i"
    using q w1(6) by auto
  have "i \<in> set lsa_types"
    using lsdb_map_type [of w "ls_req nb" "(i, k)"] world_inv_db [OF inv n, of "ls_req nb"] q by (auto simp: nbr_dbs_def)
  then obtain w2 d where w2: "on_ls_req n (\<lambda>d. ospf_lsdb_delete d (Some q)) w1 = Some w2" "world_inv X w2"
    "nbr_frame n w1 w2" "nbr_at w2 n = Some (set_ls_req d nb1)"
    using req_remove_ok [OF w1(2,4) h(1)] h(2) by blast
  have "ospf_ls_request_delete n q w = Some w2" using n w1(1) w2(1) by (simp add: ospf_ls_request_delete_def)
  moreover have "same_rxmt nb (set_ls_req d nb1)" using w1(5) by (simp add: same_rxmt_def)
  ultimately show ?thesis using w2(2,4) nbr_frame_trans [OF w1(3) w2(3)] by blast
qed

lemma call_inv [simp]:
  "world_inv X (call c w) = world_inv X w" "nbr_at (call c w) n = nbr_at w n" "nbr_frame n w (call c w)"
proof -
  have "world_dbs (call c w) = world_dbs w" "obj_refs (call c w) = obj_refs w" "lsas (call c w) = lsas w" "next_lsa (call c w) = next_lsa w"
    by (simp_all add: call_def world_dbs_def obj_refs_def fun_eq_iff)
  then show "world_inv X (call c w) = world_inv X w"
    using lsdb_ok_lsas [of "call c w" w] counted_lsas [of "call c w" w] by (simp add: world_inv_def)
  show "nbr_at (call c w) n = nbr_at w n" "nbr_frame n w (call c w)"
    by (simp_all add: call_def nbr_at_def nbr_frame_def)
qed

lemma check_loading_ok:
  assumes "nbr_at w n = Some nb"
  shows "\<exists>c. ospf_check_nbr_loading n w = Some c \<and> (c = w \<or> (\<exists>x. c = call x w))"
  using assms by (auto simp: ospf_check_nbr_loading_def)

lemma check_request_ok:
  assumes inv: "world_inv X w" and n: "nbr_at w n = Some nb" and p: "in_use w p h"
  shows "\<exists>w' nb' b. flood_check_request n p w = Some (b, w') \<and> world_inv X w' \<and> nbr_frame n w w' \<and>
           nbr_at w' n = Some nb' \<and> same_rxmt nb nb'"
proof -
  let ?e = "(unat (ls_type h), ls_prefix_set h)"
  have ok: "lsdb_ok w (ls_req nb)" by (rule world_inv_db [OF inv n]) (simp add: nbr_dbs_def)
  note look = lsdb_lookup_map [OF ok in_use_data [OF p] in_use_type [OF p]]
  have refl: "same_rxmt nb nb" "nbr_frame n w w" by (simp_all add: same_rxmt_def)
  show ?thesis
  proof (cases "lsdb_map (ls_req nb) ?e")
    case None
    with n look have "flood_check_request n p w = Some (False, w)"
      by (simp add: flood_check_request_def ospf_ls_request_lookup_def)
    with inv n refl show ?thesis by blast
  next
    case (Some q)
    then obtain g where g: "data_of w q = Some g" using lsdb_map_live [OF ok, of "fst ?e" "snd ?e" q] by auto
    obtain r where r: "ospf_lsa_more_recent w (Some q) (Some p) = Some r"
      using more_recent_live [OF g in_use_data [OF p]] by blast
    obtain w1 nb1 where w1: "ospf_ls_request_delete n q w = Some w1" "world_inv X w1" "nbr_frame n w w1"
      "nbr_at w1 n = Some nb1" "same_rxmt nb nb1" using request_delete_ok [OF inv n Some] by blast
    from check_loading_ok [OF w1(4)] obtain c where c: "ospf_check_nbr_loading n w1 = Some c" "c = w1 \<or> (\<exists>x. c = call x w1)"
      by blast
    then have c': "world_inv X c" "nbr_at c n = Some nb1" "nbr_frame n w c"
      using w1(2,3,4) nbr_frame_trans [OF w1(3)] by auto
    show ?thesis
    proof (cases "r > 0")
      case True
      with n look Some r have "flood_check_request n p w = Some (True, w)"
        by (simp add: flood_check_request_def ospf_ls_request_lookup_def)
      with inv n refl show ?thesis by blast
    next
      case False
      with n look Some r w1(1) c(1) have "flood_check_request n p w = Some (r = 0, c)"
        by (simp add: flood_check_request_def ospf_ls_request_lookup_def)
      with c' w1(5) show ?thesis by blast
    qed
  qed
qed

section \<open>Flooding\<close>

lemma more_recent_kept:
  assumes "kept_at (lsas w p) (lsas w' p)" "kept_at (lsas w q) (lsas w' q)" "now w' = now w"
    and "lsas w' p \<noteq> None" "lsas w' q \<noteq> None"
  shows "ospf_lsa_more_recent w' (Some p) (Some q) = ospf_lsa_more_recent w (Some p) (Some q)"
proof -
  have "\<exists>l l'. lsas w x = Some l \<and> lsas w' x = Some l' \<and> lsa_data l' = lsa_data l \<and> tv_recv l' = tv_recv l"
    if "x = p \<or> x = q" for x
    using that assms by (auto simp: kept_at_def split: option.splits)
  from this [of p] this [of q] obtain l l' k k' where l:
    "lsas w p = Some l" "lsas w' p = Some l'" "lsa_data l' = lsa_data l" "tv_recv l' = tv_recv l"
    "lsas w q = Some k" "lsas w' q = Some k'" "lsa_data k' = lsa_data k" "tv_recv k' = tv_recv k" by auto
  then have "LS_AGE w' l' h = LS_AGE w l h" "LS_AGE w' k' h = LS_AGE w k h" for h
    using assms(3) by (simp_all add: LS_AGE_def get_age_def)
  with l show ?thesis by (simp add: ospf_lsa_more_recent_def IS_LSA_MAXAGE_def Let_def cong: if_cong)
qed

lemma queued_kept:
  assumes "queued w p h nb" "\<And>x. kept_at (lsas w x) (lsas w' x)" "now w' = now w"
    and "in_use w' p h" "lsdb_ok w' (ls_rxmt nb)"
  shows "queued w' p h nb"
proof -
  let ?e = "(unat (ls_type h), ls_prefix_set h)"
  obtain q where q: "lsdb_map (ls_rxmt nb) ?e = Some q" using assms(1) by (auto simp: queued_def split: option.splits)
  have "lsas w' q \<noteq> None" using lsdb_map_live [OF assms(5), of "fst ?e" "snd ?e" q] q by (auto simp: data_of_def split: bind_splits)
  moreover have "lsas w' p \<noteq> None" using assms(4) by (auto simp: in_use_def split: option.splits)
  ultimately have "ospf_lsa_more_recent w' (Some q) (Some p) = ospf_lsa_more_recent w (Some q) (Some p)"
    by (intro more_recent_kept assms(2,3))
  with assms(1) q show ?thesis by (simp add: queued_def)
qed

text \<open>The neighbours an LSA is due to: fully adjacent, able to take it, and not the one it came from.\<close>

definition flood_from :: "ospf_world \<Rightarrow> ptr option \<Rightarrow> lsa_header \<Rightarrow> u32 option" where
  "flood_from w inbr h = (case inbr of Some b \<Rightarrow> map_option nbr_router_id (nbr_at w b) | None \<Rightarrow> Some (ls_adv_router h))"

definition due :: "u32 \<Rightarrow> lsa_header \<Rightarrow> ospf_neighbor \<Rightarrow> bool" where
  "due src h nb \<longleftrightarrow> nbr_state nb = NSM_Full \<and>
     (IS_OPAQUE_LSA (ls_type h) \<longrightarrow> CHECK_FLAG (nbr_options nb) OSPF_OPTION_O) \<and> src \<noteq> nbr_router_id nb"

definition same_nbr :: "ospf_neighbor \<Rightarrow> ospf_neighbor \<Rightarrow> bool" where
  "same_nbr nb nb' \<longleftrightarrow> nbr_state nb' = nbr_state nb \<and> nbr_options nb' = nbr_options nb \<and>
     nbr_router_id nb' = nbr_router_id nb \<and> nbr_oi nb' = nbr_oi nb \<and>
     nbr_address nb' = nbr_address nb \<and> nbr_src nb' = nbr_src nb \<and> nbr_nbma nb' = nbr_nbma nb"

lemma same_nbr_lists [simp]:
  "same_nbr nb nb" "same_nbr nb (set_ls_rxmt d nb') = same_nbr nb nb'" "same_rxmt nb nb' \<Longrightarrow> same_nbr nb nb'"
  by (simp_all add: same_nbr_def same_rxmt_def)

lemma due_same: "same_nbr nb nb' \<Longrightarrow> due src h nb' = due src h nb"
  by (simp add: same_nbr_def due_def)

lemma flood_from_frame:
  assumes "nbr_frame n w w'" "nbr_at w n = Some nb" "nbr_at w' n = Some nb'" "same_nbr nb nb'"
  shows "flood_from w' inbr h = flood_from w inbr h"
proof (cases inbr)
  case (Some b)
  with assms show ?thesis by (cases "b = n") (simp_all add: flood_from_def nbr_frame_def same_nbr_def)
qed (simp add: flood_from_def)

lemma flood_add_ok:
  assumes inv: "world_inv X w" and n: "nbr_at w n = Some nb" and p: "in_use w p h"
  shows "\<exists>w' nb'. ospf_ls_retransmit_add n p w = Some w' \<and> world_inv X w' \<and> nbr_frame n w w' \<and>
     nbr_at w' n = Some nb' \<and> same_nbr nb nb' \<and> queued w' p h nb'"
proof -
  obtain w' d where w': "ospf_ls_retransmit_add n p w = Some w'" "world_inv X w'" "nbr_frame n w w'"
    "nbr_at w' n = Some (set_ls_rxmt d nb)" "queued w p h (set_ls_rxmt d nb)"
    using retransmit_add_ok [OF inv n p] by blast
  have "lsdb_ok w' (ls_rxmt (set_ls_rxmt d nb))" by (rule world_inv_db [OF w'(2,4)]) (simp add: nbr_dbs_def)
  with w'(5) in_use_frame [OF p w'(3)] have "queued w' p h (set_ls_rxmt d nb)"
    using w'(3) by (intro queued_kept [OF w'(5)]) (simp_all add: nbr_frame_def)
  with w' show ?thesis by auto
qed

lemma flood_nbr_ok:
  assumes inv: "world_inv X w" and n: "nbr_at w n = Some nb" and p: "in_use w p h"
    and src: "flood_from w inbr h = Some src"
  shows "\<exists>r w' nb'. flood_nbr inbr p n w = Some (r, w') \<and> world_inv X w' \<and> nbr_frame n w w' \<and>
     nbr_at w' n = Some nb' \<and> same_nbr nb nb' \<and> (due src h nb \<longrightarrow> r \<and> queued w' p h nb')"
proof -
  note data = in_use_data [OF p]
  obtain wa nba where wa: "ospf_ls_retransmit_add n p w = Some wa" "world_inv X wa" "nbr_frame n w wa"
    "nbr_at wa n = Some nba" "same_nbr nb nba" "queued wa p h nba" using flood_add_ok [OF inv n p] by blast
  show ?thesis
  proof (cases "nbr_state nb < NSM_Exchange")
    case True
    then have "\<not> due src h nb" by (auto simp: due_def nsm_states)
    moreover have "flood_nbr inbr p n w = (if ls_type h = 13 then Some (False, wa) else Some (False, w))"
      using True n data wa(1) by (simp add: flood_nbr_def)
    ultimately show ?thesis using wa inv n nbr_frame_refl [of n w] same_nbr_lists(1) by (cases "ls_type h = 13") auto
  next
    case False
    obtain b w1 nb1 where w1: "(if nbr_state nb < NSM_Full then flood_check_request n p w else Some (False, w)) = Some (b, w1)"
      "world_inv X w1" "nbr_frame n w w1" "nbr_at w1 n = Some nb1" "same_nbr nb nb1" "nbr_state nb = NSM_Full \<longrightarrow> \<not> b"
      using check_request_ok [OF inv n p] inv n by (cases "nbr_state nb < NSM_Full") (fastforce simp: nsm_states)+
    obtain w2 nb2 where w2: "ospf_ls_retransmit_add n p w1 = Some w2" "world_inv X w2" "nbr_frame n w1 w2"
      "nbr_at w2 n = Some nb2" "same_nbr nb1 nb2" "queued w2 p h nb2"
      using flood_add_ok [OF w1(2,4) in_use_frame [OF p w1(3)]] by blast
    let ?skip = "b \<or> (IS_OPAQUE_LSA (ls_type h) \<and> \<not> CHECK_FLAG (nbr_options nb) OSPF_OPTION_O) \<or> src = nbr_router_id nb"
    have "flood_from w1 inbr h = Some src"
      using flood_from_frame [OF w1(3) n w1(4,5)] src by simp
    then have "flood_nbr inbr p n w = (if ?skip then Some (False, w1) else Some (True, w2))"
      using False n data w1(1) w2(1) by (simp add: flood_nbr_def flood_from_def)
    moreover have "due src h nb \<Longrightarrow> \<not> ?skip" using w1(6) by (auto simp: due_def)
    moreover have "same_nbr nb nb2" using w1(5) w2(5) by (simp add: same_nbr_def)
    ultimately show ?thesis
      using w1(2-5) w2(2,4,6) nbr_frame_trans [OF w1(3) w2(3)] by (cases ?skip) (fastforce)+
  qed
qed

text \<open>What flooding leaves of the state: LSAs in use, who the neighbours are, interfaces and areas.\<close>

definition flood_frame :: "ospf_world \<Rightarrow> ospf_world \<Rightarrow> bool" where
  "flood_frame w w' \<longleftrightarrow> now w' = now w \<and> (\<forall>p. kept_at (lsas w p) (lsas w' p)) \<and>
     (\<forall>m nb. nbr_at w m = Some nb \<longrightarrow> (\<exists>nb'. nbr_at w' m = Some nb' \<and> same_nbr nb nb')) \<and>
     (\<forall>m. nbr_at w m = None \<longrightarrow> nbr_at w' m = None) \<and> length (nbr_heap w') = length (nbr_heap w) \<and>
     if_heap w' = if_heap w \<and> area_heap w' = area_heap w \<and> nbma_heap w' = nbma_heap w \<and> top w' = top w"

lemma flood_frame_refl [simp]: "flood_frame w w"
  by (auto simp: flood_frame_def)

lemma same_nbr_trans: "same_nbr a b \<Longrightarrow> same_nbr b c \<Longrightarrow> same_nbr a c"
  by (simp add: same_nbr_def)

lemma flood_frame_trans:
  assumes "flood_frame u v" "flood_frame v w"
  shows "flood_frame u w"
proof -
  have "\<exists>nb'. nbr_at w m = Some nb' \<and> same_nbr nb nb'" if "nbr_at u m = Some nb" for m nb
    using assms that same_nbr_trans unfolding flood_frame_def by metis
  moreover have "\<forall>p. kept_at (lsas u p) (lsas w p)"
    using assms kept_at_trans unfolding flood_frame_def by blast
  ultimately show ?thesis using assms by (simp add: flood_frame_def)
qed

lemma nbr_flood_frame:
  assumes "nbr_frame n w w'" "nbr_at w n = Some nb" "nbr_at w' n = Some nb'" "same_nbr nb nb'"
  shows "flood_frame w w'"
proof -
  have "\<exists>k'. nbr_at w' m = Some k' \<and> same_nbr k k'" if "nbr_at w m = Some k" for m k
    using assms that by (cases "m = n") (auto simp: nbr_frame_def)
  moreover have "nbr_at w' m = None" if "nbr_at w m = None" for m
    using assms that by (cases "m = n") (auto simp: nbr_frame_def)
  ultimately show ?thesis using assms(1) by (simp add: flood_frame_def nbr_frame_def)
qed

lemma flood_from_world: "flood_frame w w' \<Longrightarrow> flood_from w inbr h = Some src \<Longrightarrow> flood_from w' inbr h = Some src"
  by (cases inbr) (auto simp: flood_from_def flood_frame_def same_nbr_def, metis)

lemma flood_nbrs_ok:
  assumes "world_inv X w" "in_use w p h" "flood_from w inbr h = Some src"
    and "distinct ns" "\<forall>n\<in>set ns. nbr_at w n \<noteq> None"
  shows "\<exists>rs w'. flood_nbrs inbr p ns w = Some (rs, w') \<and> world_inv X w' \<and> flood_frame w w' \<and>
     (\<forall>m. m \<notin> set ns \<longrightarrow> nbr_at w' m = nbr_at w m) \<and>
     (\<forall>n\<in>set ns. \<forall>nb. nbr_at w n = Some nb \<and> due src h nb \<longrightarrow>
        rs \<and> (\<exists>nb'. nbr_at w' n = Some nb' \<and> queued w' p h nb'))"
  using assms
proof (induction ns arbitrary: w)
  case (Cons n ns)
  then obtain nb where n: "nbr_at w n = Some nb" by auto
  obtain r w1 nb1 where 1: "flood_nbr inbr p n w = Some (r, w1)" "world_inv X w1" "nbr_frame n w w1"
    "nbr_at w1 n = Some nb1" "same_nbr nb nb1" "due src h nb \<longrightarrow> r \<and> queued w1 p h nb1"
    using flood_nbr_ok [OF Cons.prems(1) n Cons.prems(2,3)] by blast
  note f1 = nbr_flood_frame [OF 1(3) n 1(4,5)]
  have same: "\<And>m. m \<noteq> n \<Longrightarrow> nbr_at w1 m = nbr_at w m" using 1(3) by (simp add: nbr_frame_def)
  have live: "\<forall>m\<in>set ns. nbr_at w1 m \<noteq> None" "distinct ns" using Cons.prems(4,5) same by (metis distinct.simps(2) list.set_intros(2), simp)
  obtain rs w2 where 2: "flood_nbrs inbr p ns w1 = Some (rs, w2)" "world_inv X w2" "flood_frame w1 w2"
    "\<forall>m. m \<notin> set ns \<longrightarrow> nbr_at w2 m = nbr_at w1 m"
    "\<forall>n\<in>set ns. \<forall>nb. nbr_at w1 n = Some nb \<and> due src h nb \<longrightarrow>
        rs \<and> (\<exists>nb'. nbr_at w2 n = Some nb' \<and> queued w2 p h nb')"
    using Cons.IH [OF 1(2) in_use_frame [OF Cons.prems(2) 1(3)] flood_from_world [OF f1 Cons.prems(3)] live(2,1)] by blast
  have n2: "nbr_at w2 n = Some nb1" using 2(4) Cons.prems(4) 1(4) by simp
  have q: "queued w2 p h nb1" if "queued w1 p h nb1"
  proof (rule queued_kept [OF that])
    show "lsdb_ok w2 (ls_rxmt nb1)" by (rule world_inv_db [OF 2(2) n2]) (simp add: nbr_dbs_def)
    show "in_use w2 p h"
      by (rule in_use_kept [OF in_use_frame [OF Cons.prems(2) 1(3)]]) (use 2(3) in \<open>simp add: flood_frame_def\<close>)
  qed (use 2(3) in \<open>simp_all add: flood_frame_def\<close>)
  have "flood_nbrs inbr p (n # ns) w = Some (r \<or> rs, w2)" using 1(1) 2(1) by simp
  moreover have "\<forall>m\<in>set (n # ns). \<forall>k. nbr_at w m = Some k \<and> due src h k \<longrightarrow>
      (r \<or> rs) \<and> (\<exists>nb'. nbr_at w2 m = Some nb' \<and> queued w2 p h nb')"
  proof (intro ballI allI impI)
    fix m k assume m: "m \<in> set (n # ns)" "nbr_at w m = Some k \<and> due src h k"
    show "(r \<or> rs) \<and> (\<exists>nb'. nbr_at w2 m = Some nb' \<and> queued w2 p h nb')"
    proof (cases "m = n")
      case True
      with m n n2 q 1(6) show ?thesis by auto
    next
      case False
      with m same [of m] have "m \<in> set ns" "nbr_at w1 m = Some k \<and> due src h k" by auto
      with 2(5) show ?thesis by blast
    qed
  qed
  moreover have "\<forall>m. m \<notin> set (n # ns) \<longrightarrow> nbr_at w2 m = nbr_at w m" using 2(4) same by auto
  ultimately show ?case using 2(2) flood_frame_trans [OF f1 2(3)] by blast
qed auto

lemma flood_send_ok:
  assumes "\<forall>n\<in>set ns. nbr_at w n \<noteq> None"
  shows "\<exists>cs. each (flood_send_nbma self p) ns w = Some (w\<lparr>calls := calls w @ cs\<rparr>)"
  using assms
proof (induction ns arbitrary: w)
  case (Cons n ns)
  then obtain nb where n: "nbr_at w n = Some nb" by auto
  let ?w = "if self \<noteq> Some n \<and> nbr_state nb \<ge> NSM_Exchange then call (Ls_Upd_Send_Lsa n p True) w else w"
  have "\<forall>m\<in>set ns. nbr_at ?w m \<noteq> None" using Cons.prems by auto
  from Cons.IH [OF this] obtain cs where "each (flood_send_nbma self p) ns ?w = Some (?w\<lparr>calls := calls ?w @ cs\<rparr>)" by blast
  moreover have "flood_send_nbma self p n w = Some ?w" using n by (simp add: flood_send_nbma_def)
  ultimately show ?case by (auto simp: call_def)
next
  case Nil
  have "w = w\<lparr>calls := calls w @ []\<rparr>" by simp
  then show ?case by (metis each.simps(1))
qed

lemma lsdb_ok_calls [simp]: "lsdb_ok (w\<lparr>calls := cs\<rparr>) = lsdb_ok w"
  by (rule lsdb_ok_lsas) simp

lemma world_calls [simp]: "world_dbs (w\<lparr>calls := cs\<rparr>) = world_dbs w" "obj_refs (w\<lparr>calls := cs\<rparr>) = obj_refs w"
  by (simp_all add: world_dbs_def obj_refs_def fun_eq_iff)

lemma calls_inv [simp]: "world_inv X (w\<lparr>calls := cs\<rparr>) = world_inv X w"
  using counted_lsas [of "w\<lparr>calls := cs\<rparr>" w] by (simp add: world_inv_def)

lemma age_calls [simp]: "LS_AGE (w\<lparr>calls := cs\<rparr>) = LS_AGE w" "IS_LSA_MAXAGE (w\<lparr>calls := cs\<rparr>) = IS_LSA_MAXAGE w"
  by (simp_all add: fun_eq_iff LS_AGE_def get_age_def IS_LSA_MAXAGE_def)

lemma nbr_at_calls [simp]: "nbr_at (w\<lparr>calls := cs\<rparr>) = nbr_at w"
  by (simp add: fun_eq_iff nbr_at_def)

lemma more_recent_calls [simp]: "ospf_lsa_more_recent (w\<lparr>calls := cs\<rparr>) p q = ospf_lsa_more_recent w p q"
  by (cases p; cases q) (simp_all add: ospf_lsa_more_recent_def Let_def cong: if_cong)

lemma queued_calls [simp]: "queued (w\<lparr>calls := cs\<rparr>) p h nb = queued w p h nb"
  unfolding queued_def more_recent_calls ..

text \<open>What the code relies on of an interface: its neighbours are live, distinct and belong to it.\<close>

definition if_ready :: "ospf_world \<Rightarrow> ptr \<Rightarrow> bool" where
  "if_ready w i \<longleftrightarrow> (case if_at w i of None \<Rightarrow> False | Some oi \<Rightarrow>
     distinct (map snd (oi_nbrs oi)) \<and> nbr_self oi \<noteq> None \<and>
     list_all (\<lambda>n. map_option nbr_oi (nbr_at w n) = Some i) (map snd (oi_nbrs oi)))"

text \<open>If the LSA is due to the neighbour in the first state, it is queued for it in the second.\<close>

definition reached :: "ospf_world \<Rightarrow> ospf_world \<Rightarrow> u32 \<Rightarrow> ptr \<Rightarrow> lsa_header \<Rightarrow> ptr \<Rightarrow> bool" where
  "reached w w' src p h n \<longleftrightarrow>
     (case nbr_at w n of None \<Rightarrow> False | Some nb \<Rightarrow> due src h nb \<longrightarrow>
        (case nbr_at w' n of None \<Rightarrow> False | Some nb' \<Rightarrow> queued w' p h nb'))"

lemma in_use_flood: "in_use w p h \<Longrightarrow> flood_frame w w' \<Longrightarrow> in_use w' p h"
  by (rule in_use_kept) (auto simp: flood_frame_def)

lemma if_ready_flood:
  assumes "flood_frame w w'" "if_ready w i"
  shows "if_ready w' i"
proof -
  obtain oi where oi: "if_at w i = Some oi" using assms(2) by (auto simp: if_ready_def split: option.splits)
  then have "if_at w' i = Some oi" using assms(1) by (simp add: flood_frame_def if_at_def split: if_splits)
  moreover have "map_option nbr_oi (nbr_at w' n) = Some i" if "map_option nbr_oi (nbr_at w n) = Some i" for n
    using that assms(1) by (fastforce simp: flood_frame_def same_nbr_def)
  ultimately show ?thesis using assms(2) oi by (auto simp: if_ready_def list_all_iff)
qed

lemma reached_later:
  assumes "reached w w1 src p h n" "nbr_at w2 n = nbr_at w1 n" "flood_frame w1 w2" "world_inv X w2" "in_use w2 p h"
  shows "reached w w2 src p h n"
proof -
  have "queued w2 p h nb" if "nbr_at w1 n = Some nb" "queued w1 p h nb" for nb
  proof (rule queued_kept [OF that(2)])
    show "lsdb_ok w2 (ls_rxmt nb)"
      by (rule world_inv_db [OF assms(4), of n nb]) (use that assms(2) in \<open>simp_all add: nbr_dbs_def\<close>)
  qed (use assms(3,5) in \<open>simp_all add: flood_frame_def\<close>)
  with assms(1,2) show ?thesis by (auto simp: reached_def split: option.splits)
qed

lemma reached_earlier: "reached w1 w2 src p h n \<Longrightarrow> nbr_at w1 n = nbr_at w n \<Longrightarrow> reached w w2 src p h n"
  by (simp add: reached_def)

definition if_members :: "ospf_world \<Rightarrow> ptr \<Rightarrow> ptr list" where
  "if_members w i = (case if_at w i of None \<Rightarrow> [] | Some oi \<Rightarrow> if ospf_if_is_enable oi then map snd (oi_nbrs oi) else [])"

lemma flood_interface_ok:
  assumes inv: "world_inv X w" and i: "if_ready w i" and p: "in_use w p h"
    and src: "flood_from w inbr h = Some src"
  shows "\<exists>ack w'. ospf_flood_through_interface i inbr p w = Some (ack, w') \<and> world_inv X w' \<and> flood_frame w w' \<and>
     (\<forall>m. m \<notin> set (if_members w i) \<longrightarrow> nbr_at w' m = nbr_at w m) \<and>
     (\<forall>n\<in>set (if_members w i). reached w w' src p h n)"
proof -
  obtain oi where oi: "if_at w i = Some oi" using i by (auto simp: if_ready_def split: option.splits)
  let ?ns = "map snd (oi_nbrs oi)"
  show ?thesis
  proof (cases "ospf_if_is_enable oi")
    case True
    have ns: "distinct ?ns" "\<forall>n\<in>set ?ns. nbr_at w n \<noteq> None" "nbr_self oi \<noteq> None"
      using i oi by (auto simp: if_ready_def list_all_iff)
    obtain rs w1 where 1: "flood_nbrs inbr p ?ns w = Some (rs, w1)" "world_inv X w1" "flood_frame w w1"
      "\<forall>m. m \<notin> set ?ns \<longrightarrow> nbr_at w1 m = nbr_at w m"
      "\<forall>n\<in>set ?ns. \<forall>nb. nbr_at w n = Some nb \<and> due src h nb \<longrightarrow> rs \<and> (\<exists>nb'. nbr_at w1 n = Some nb' \<and> queued w1 p h nb')"
      using flood_nbrs_ok [OF inv p src ns(1,2)] by blast
    obtain inb where inb: "(case inbr of None \<Rightarrow> Some None | Some b \<Rightarrow> map_option Some (nbr_at w1 b)) = Some inb"
      using flood_from_world [OF 1(3) src] by (cases inbr) (auto simp: flood_from_def)
    obtain self where self: "nbr_self oi = Some self" using ns(3) by auto
    have "\<forall>n\<in>set ?ns. nbr_at w1 n \<noteq> None" using ns(2) 1(3) by (fastforce simp: flood_frame_def)
    then obtain cs where cs: "each (flood_send_nbma (nbr_self oi) p) ?ns w1 = Some (w1\<lparr>calls := calls w1 @ cs\<rparr>)"
      using flood_send_ok by blast
    have "\<exists>ack ds. ospf_flood_through_interface i inbr p w = Some (ack, w1\<lparr>calls := ds\<rparr>)"
      using oi True 1(1) inb self cs
      by (cases w1) (auto simp: ospf_flood_through_interface_def Let_def call_def)
    then obtain ack ds where r: "ospf_flood_through_interface i inbr p w = Some (ack, w1\<lparr>calls := ds\<rparr>)" by blast
    have "reached w (w1\<lparr>calls := ds\<rparr>) src p h n" if "n \<in> set ?ns" for n
      using 1(5) that ns(2) by (fastforce simp: reached_def split: option.splits)
    moreover have "flood_frame w (w1\<lparr>calls := ds\<rparr>)" using 1(3) by (simp add: flood_frame_def)
    ultimately show ?thesis using r 1(2,4) oi True by (auto simp: if_members_def)
  qed (use inv oi in \<open>auto simp: ospf_flood_through_interface_def if_members_def\<close>)
qed

lemma if_members_apart:
  assumes "if_ready w i" "if_ready w j" "n \<in> set (if_members w i)" "n \<in> set (if_members w j)"
  shows "i = j"
proof -
  have "map_option nbr_oi (nbr_at w n) = Some k" if "if_ready w k" "n \<in> set (if_members w k)" for k
    using that by (auto simp: if_ready_def if_members_def list_all_iff split: option.splits if_splits)
  from this [OF assms(1,3)] this [OF assms(2,4)] show ?thesis by simp
qed

lemma flood_ifs_ok:
  assumes "world_inv X w" "in_use w p h" "flood_from w inbr h = Some src" "distinct is" "\<forall>i\<in>set is. if_ready w i"
  shows "\<exists>ack w'. flood_ifs skip inbr p is w = Some (ack, w') \<and> world_inv X w' \<and> flood_frame w w' \<and>
     (\<forall>m. m \<notin> (\<Union>i\<in>set is. set (if_members w i)) \<longrightarrow> nbr_at w' m = nbr_at w m) \<and>
     (\<forall>i\<in>set is. \<not> skip i (if_heap w ! i) \<longrightarrow> (\<forall>n\<in>set (if_members w i). reached w w' src p h n))"
  using assms
proof (induction "is" arbitrary: w)
  case (Cons i "is")
  then have i: "if_ready w i" by simp
  then obtain oi where oi: "if_at w i = Some oi" "if_heap w ! i = oi"
    by (auto simp: if_ready_def if_at_def split: option.splits if_splits)
  have "\<exists>r w1. (if skip i oi then Some (False, w) else ospf_flood_through_interface i inbr p w) = Some (r, w1) \<and>
      world_inv X w1 \<and> flood_frame w w1 \<and> (\<forall>m. m \<notin> set (if_members w i) \<longrightarrow> nbr_at w1 m = nbr_at w m) \<and>
      (\<not> skip i oi \<longrightarrow> (\<forall>n\<in>set (if_members w i). reached w w1 src p h n))"
    using flood_interface_ok [OF Cons.prems(1) i Cons.prems(2,3)] Cons.prems(1) by (cases "skip i oi") auto
  then obtain r w1 where 1: "(if skip i oi then Some (False, w) else ospf_flood_through_interface i inbr p w) = Some (r, w1)"
    "world_inv X w1" "flood_frame w w1" "\<forall>m. m \<notin> set (if_members w i) \<longrightarrow> nbr_at w1 m = nbr_at w m"
    "\<not> skip i oi \<longrightarrow> (\<forall>n\<in>set (if_members w i). reached w w1 src p h n)" by blast
  have heap: "if_heap w1 = if_heap w" using 1(3) by (simp add: flood_frame_def)
  then have members: "if_members w1 = if_members w" by (simp add: fun_eq_iff if_members_def if_at_def)
  have "distinct is" "\<forall>i\<in>set is. if_ready w1 i" using Cons.prems(4,5) if_ready_flood [OF 1(3)] by auto
  from Cons.IH [OF 1(2) in_use_flood [OF Cons.prems(2) 1(3)] flood_from_world [OF 1(3) Cons.prems(3)] this]
  obtain rs w2 where 2: "flood_ifs skip inbr p is w1 = Some (rs, w2)" "world_inv X w2" "flood_frame w1 w2"
    "\<forall>m. m \<notin> (\<Union>i\<in>set is. set (if_members w i)) \<longrightarrow> nbr_at w2 m = nbr_at w1 m"
    "\<forall>i\<in>set is. \<not> skip i (if_heap w ! i) \<longrightarrow> (\<forall>n\<in>set (if_members w i). reached w1 w2 src p h n)"
    unfolding members heap by blast
  have apart: "n \<notin> set (if_members w j)" if "j \<in> set is" "n \<in> set (if_members w i)" for j n
    using if_members_apart [of w i j n] i that Cons.prems(4,5) by auto
  have "reached w w2 src p h n" if "j \<in> set (i # is)" "\<not> skip j (if_heap w ! j)" "n \<in> set (if_members w j)" for j n
  proof (cases "j = i")
    case True
    with that oi 1(5) have "reached w w1 src p h n" by simp
    then show ?thesis
      by (rule reached_later [OF _ _ 2(3,2) in_use_flood [OF in_use_flood [OF Cons.prems(2) 1(3)] 2(3)]])
         (use 2(4) apart that True in blast)
  next
    case False
    with that 2(5) have "reached w1 w2 src p h n" by auto
    with that False 1(4) apart [of j n] show ?thesis by (metis reached_earlier set_ConsD)
  qed
  moreover have "flood_ifs skip inbr p (i # is) w = Some (r \<or> rs, w2)" using oi 1(1) 2(1) by simp
  ultimately show ?case using 2(2) flood_frame_trans [OF 1(3) 2(3)] 1(4) 2(4) by auto
qed auto

section \<open>The property\<close>

text \<open>
  C32. Flooding an LSA through an area terminates without a fault, keeps every reference count of the
  state equal to the number of references, and afterwards every fully adjacent neighbour, on an enabled
  interface of the area over which the LSA may go, that can take the LSA and did not send it, has this LSA or
  one that is not older on its retransmission list.
\<close>

theorem flood_through_area_reaches:
  assumes "world_inv X w" "area_at w a = Some ar" "lsas w p = Some l" "in_use w p h" "flood_from w inbr h = Some src"
    and "distinct (area_oiflist ar)" "list_all (if_ready w) (area_oiflist ar)"
  shows "\<exists>ack w'. ospf_flood_through_area (Some a) inbr p w = Some (ack, w') \<and> world_inv X w' \<and> flood_frame w w' \<and>
     (\<forall>i\<in>set (area_oiflist ar). \<not> skip_in_area ar l h i (if_heap w ! i) \<longrightarrow>
        (\<forall>n\<in>set (if_members w i). reached w w' src p h n))"
proof -
  have "lsa_data l = Some h" using assms(3,4) by (simp add: in_use_def)
  then show ?thesis
    using flood_ifs_ok [OF assms(1,4,5,6), of "skip_in_area ar l h"] assms(2,3,7)
    by (auto simp: ospf_flood_through_area_def list_all_iff)
qed

lemma sample_world_inv: "world_inv (\<lambda>p. 0) sample_world"
proof -
  have "set (world_dbs sample_world) = {ospf_lsdb_new}" "sys_refs (world_dbs sample_world) p = 0" for p
    by (auto simp: world_dbs_def sample_world_def opt_dbs_def nbr_dbs_def sample_nbr_def sample_area_def sample_ospf_def
        sys_refs_def lsdb_new_ok)
  moreover have "obj_refs sample_world p = 0" for p
    by (simp add: obj_refs_def sample_world_def opt_last_def ptr_refs_def sample_nbr_def if_refs_def sample_if_def
        sample_area_def sample_ospf_def)
  ultimately show ?thesis
    by (simp add: world_inv_def lsdb_new_ok counted_def ref_ok_def)
       (simp add: sample_world_def sample_lsa_def discarded_def CHECK_FLAG_def)
qed

theorem flood_through_area_reaches_witness:
  "\<exists>ack w' nb. ospf_flood_through_area (Some 0) None 0 sample_world = Some (ack, w') \<and>
     nbr_at w' 1 = Some nb \<and> queued w' 0 sample_header nb"
proof -
  let ?w = sample_world
  have "area_at ?w 0 = Some sample_area" "lsas ?w 0 = Some sample_lsa" "in_use ?w 0 sample_header"
    "flood_from ?w None sample_header = Some 9" "distinct (area_oiflist sample_area)"
    "list_all (if_ready ?w) (area_oiflist sample_area)"
    by (simp_all add: area_at_def in_use_def lsa_types_set flood_from_def if_ready_def if_at_def nbr_at_def sample_world_def
        sample_area_def sample_lsa_def sample_header_def sample_if_def sample_nbr_def discarded_def CHECK_FLAG_def OSPF_ROUTER_LSA_def)
  from flood_through_area_reaches [OF sample_world_inv this]
  obtain ack w' where w': "ospf_flood_through_area (Some 0) None 0 ?w = Some (ack, w')"
    "\<forall>i\<in>set (area_oiflist sample_area). \<not> skip_in_area sample_area sample_lsa sample_header i (if_heap ?w ! i) \<longrightarrow>
        (\<forall>n\<in>set (if_members ?w i). reached ?w w' 9 0 sample_header n)" by blast
  have "\<not> skip_in_area sample_area sample_lsa sample_header 0 (if_heap ?w ! 0)"
    by (simp add: skip_in_area_def sample_area_def sample_header_def OSPF_AREA_BACKBONE_def OSPF_ROUTER_LSA_def OSPF_OPAQUE_LINK_LSA_def)
  moreover have "1 \<in> set (if_members ?w 0)"
    by (simp add: if_members_def if_at_def sample_world_def sample_if_def ospf_if_is_enable_def)
  moreover have "0 \<in> set (area_oiflist sample_area)" by (simp add: sample_area_def)
  ultimately have r: "reached ?w w' 9 0 sample_header 1" using w'(2) by blast
  have "nbr_at ?w 1 = Some (sample_nbr NSM_Full 2)" "due 9 sample_header (sample_nbr NSM_Full 2)"
    by (simp_all add: nbr_at_def sample_world_def due_def sample_nbr_def sample_header_def IS_OPAQUE_LSA_def OSPF_ROUTER_LSA_def
        OSPF_OPAQUE_LINK_LSA_def OSPF_OPAQUE_AREA_LSA_def OSPF_OPAQUE_AS_LSA_def)
  with r w'(1) show ?thesis by (auto simp: reached_def split: option.splits)
qed

end
