(* ===== verification/Ism.thy ===== *)
theory Ism
  imports Flood
begin

text \<open>
  The interface state machine, \<^verbatim>\<open>ospfd/ospf_ism.c\<close>: the election of the designated router, the
  timers of an interface, the change of its state and the table of transitions.  Values of type
  \<^verbatim>\<open>int\<close> that hold a state are 32-bit words.
\<close>

section \<open>Election of the designated router\<close>

definition NSM_AdjOK :: nat where "NSM_AdjOK = 8"

text \<open>The objects a list of neighbours points to.\<close>

definition read_nbrs :: "ospf_world \<Rightarrow> ptr list \<Rightarrow> (ptr \<times> ospf_neighbor) list option" where
  "read_nbrs w ns = those (map (\<lambda>n. map_option (Pair n) (nbr_at w n)) ns)"

definition beats :: "ospf_neighbor \<Rightarrow> ospf_neighbor \<Rightarrow> bool" where
  "beats nbr mx \<longleftrightarrow> nbr_priority mx < nbr_priority nbr \<or>
     nbr_priority mx = nbr_priority nbr \<and> nbr_router_id mx < nbr_router_id nbr"

fun election_loop :: "(ptr \<times> ospf_neighbor) option \<Rightarrow> (ptr \<times> ospf_neighbor) list \<Rightarrow> (ptr \<times> ospf_neighbor) option" where
  "election_loop mx [] = mx"
| "election_loop mx (x # xs) =
     election_loop (case mx of None \<Rightarrow> Some x | Some m \<Rightarrow> if beats (snd x) (snd m) then Some x else Some m) xs"

definition ospf_dr_election_sub :: "(ptr \<times> ospf_neighbor) list \<Rightarrow> (ptr \<times> ospf_neighbor) option" where
  "ospf_dr_election_sub routers = election_loop None routers"

text \<open>\<^verbatim>\<open>dr->address.u.prefix4\<close>, or 0 for no router.\<close>

definition address_of :: "(ptr \<times> ospf_neighbor) option \<Rightarrow> u32" where
  "address_of r = (case r of None \<Rightarrow> 0 | Some x \<Rightarrow> nbr_address (snd x))"

definition set_self :: "ptr \<Rightarrow> (ospf_neighbor \<Rightarrow> ospf_neighbor) \<Rightarrow> ospf_world \<Rightarrow> ospf_world option" where
  "set_self i f w = do { oi \<leftarrow> if_at w i; s \<leftarrow> nbr_self oi; upd_nbr s f w }"

definition dr_candidate :: "u32 \<Rightarrow> (ptr \<times> ospf_neighbor) list \<Rightarrow> (ptr \<times> ospf_neighbor) option" where
  "dr_candidate bdr routers =
     (let dr_list = filter (NBR_IS_DR \<circ> snd) routers
      in if dr_list \<noteq> [] then ospf_dr_election_sub dr_list
         else find (\<lambda>x. bdr = nbr_address (snd x)) (rev routers))"

definition ospf_elect_dr :: "ptr \<Rightarrow> ptr list \<Rightarrow> ospf_world \<Rightarrow> ospf_world option" where
  "ospf_elect_dr i el_list w = do {
     routers \<leftarrow> read_nbrs w el_list;
     bdr \<leftarrow> BDR w i;
     set_self i (\<lambda>s. s\<lparr>d_router := address_of (dr_candidate bdr routers)\<rparr>) w }"

definition bdr_candidate :: "(ptr \<times> ospf_neighbor) list \<Rightarrow> (ptr \<times> ospf_neighbor) option" where
  "bdr_candidate routers =
     (let no_dr_list = filter (\<lambda>x. \<not> NBR_IS_DR (snd x)) routers;
          bdr_list = filter (NBR_IS_BDR \<circ> snd) no_dr_list
      in if bdr_list \<noteq> [] then ospf_dr_election_sub bdr_list else ospf_dr_election_sub no_dr_list)"

definition ospf_elect_bdr :: "ptr \<Rightarrow> ptr list \<Rightarrow> ospf_world \<Rightarrow> ospf_world option" where
  "ospf_elect_bdr i el_list w = do {
     routers \<leftarrow> read_nbrs w el_list;
     set_self i (\<lambda>s. s\<lparr>bd_router := address_of (bdr_candidate routers)\<rparr>) w }"

definition ospf_ism_state :: "ptr \<Rightarrow> ospf_world \<Rightarrow> u8 option" where
  "ospf_ism_state i w = do {
     oi \<leftarrow> if_at w i;
     s \<leftarrow> self_of w i;
     Some (if d_router s = oi_address oi then ISM_DR
           else if bd_router s = oi_address oi then ISM_Backup
           else ISM_DROther) }"

definition eligible :: "ospf_neighbor \<Rightarrow> bool" where
  "eligible nbr \<longleftrightarrow> nbr_router_id nbr \<noteq> 0 \<and> nbr_priority nbr > 0 \<and> nbr_state nbr \<ge> NSM_TwoWay"

definition ospf_dr_eligible_routers :: "ospf_world \<Rightarrow> ptr list \<Rightarrow> ptr list option" where
  "ospf_dr_eligible_routers w nbrs = map_option (\<lambda>rs. map fst (filter (eligible \<circ> snd) rs)) (read_nbrs w nbrs)"

definition adj_ok_due :: "ospf_world \<Rightarrow> ospf_neighbor \<Rightarrow> bool" where
  "adj_ok_due w nbr \<longleftrightarrow> nbr_router_id nbr \<noteq> 0 \<and> nbr_state nbr \<ge> NSM_TwoWay \<and> nbr_router_id nbr \<noteq> ospf_router_id (top w)"

definition ospf_dr_change :: "ptr list \<Rightarrow> ospf_world \<Rightarrow> ospf_world option" where
  "ospf_dr_change nbrs w = each (\<lambda>n w. do {
     nbr \<leftarrow> nbr_at w n;
     Some (if adj_ok_due w nbr then call (Nsm_Event_Schedule n NSM_AdjOK) w else w) }) nbrs w"

text \<open>The original body of \<^verbatim>\<open>ospf_dr_election\<close>.\<close>

definition elect_once :: "ptr \<Rightarrow> ptr list \<Rightarrow> ospf_world \<Rightarrow> (u8 \<times> ospf_world) option" where
  "elect_once i el_list w = do {
     w \<leftarrow> ospf_elect_bdr i el_list w;
     w \<leftarrow> ospf_elect_dr i el_list w;
     new_state \<leftarrow> ospf_ism_state i w;
     Some (new_state, w) }"

definition dr_election_body :: "ptr \<Rightarrow> ospf_world \<Rightarrow> (u64 \<times> ospf_world) option" where
  "dr_election_body i w = do {
     old_dr \<leftarrow> DR w i;
     old_bdr \<leftarrow> BDR w i;
     oi \<leftarrow> if_at w i;
     let old_state = oi_state oi;
     el_list \<leftarrow> ospf_dr_eligible_routers w (map snd (oi_nbrs oi));
     (new_state, w) \<leftarrow> elect_once i el_list w;
     (new_state, w) \<leftarrow> (if new_state \<noteq> old_state \<and> \<not> (new_state = ISM_DROther \<and> old_state < ISM_DROther)
                        then elect_once i el_list w else Some (new_state, w));
     dr \<leftarrow> DR w i;
     bdr \<leftarrow> BDR w i;
     w \<leftarrow> (if old_dr \<noteq> dr \<or> old_bdr \<noteq> bdr then ospf_dr_change (map snd (oi_nbrs oi)) w else Some w);
     Some (ucast new_state, w) }"

definition ospf_dr_election :: "plugin_table \<Rightarrow> ptr \<Rightarrow> ospf_world \<Rightarrow> (u32 \<times> ospf_world) option" where
  "ospf_dr_election plugins i w =
     map_option (\<lambda>(ret, w). (ucast ret, w)) (with_plugins (plugins DR_ELECTION) (Arg_Dr_Election i) (dr_election_body i) w)"

section \<open>Timers\<close>

definition ISM_WaitTimer :: nat where "ISM_WaitTimer = 2"

definition OSPF_HELLO_TIMER_ON :: "ospf_interface \<Rightarrow> ospf_interface" where
  "OSPF_HELLO_TIMER_ON oi =
     (if param_fast_hello oi \<noteq> 0 then oi\<lparr>t_hello := timer_on (1000 div unat (param_fast_hello oi)) (t_hello oi)\<rparr>
      else oi\<lparr>t_hello := timer_on (unat (param_v_hello oi) * 1000) (t_hello oi)\<rparr>)"

definition ospf_hello_timer :: "ptr \<Rightarrow> ospf_world \<Rightarrow> ospf_world option" where
  "ospf_hello_timer i w = do {
     w \<leftarrow> upd_if i (\<lambda>oi. oi\<lparr>t_hello := None\<rparr>) w;
     upd_if i OSPF_HELLO_TIMER_ON (call (Hello_Send i) w) }"

definition ospf_wait_timer :: "ptr \<Rightarrow> ospf_world \<Rightarrow> ospf_world option" where
  "ospf_wait_timer i w = do {
     w \<leftarrow> upd_if i (\<lambda>oi. oi\<lparr>t_wait := None\<rparr>) w;
     Some (call (Ism_Event_Schedule i ISM_WaitTimer) w) }"

definition ism_timers :: "ospf_interface \<Rightarrow> ospf_interface" where
  "ism_timers oi =
     (if oi_state oi = ISM_Down \<or> oi_state oi = ISM_Loopback then oi\<lparr>t_hello := None, t_wait := None, t_ls_ack := None\<rparr>
      else if oi_state oi = ISM_Waiting then
        oi\<lparr>t_hello := timer_on 1 (t_hello oi), t_wait := timer_on (unat (param_v_wait oi) * 1000) (t_wait oi), t_ls_ack := None\<rparr>
      else if oi_state oi = ISM_PointToPoint then
        oi\<lparr>t_hello := timer_on 1 (t_hello oi), t_wait := None, t_ls_ack := timer_on (unat (v_ls_ack oi) * 1000) (t_ls_ack oi)\<rparr>
      else if oi_state oi = ISM_DROther \<or> oi_state oi = ISM_Backup \<or> oi_state oi = ISM_DR then
        (OSPF_HELLO_TIMER_ON oi)\<lparr>t_wait := None, t_ls_ack := timer_on (unat (v_ls_ack oi) * 1000) (t_ls_ack oi)\<rparr>
      else oi)"

definition ism_timer_set :: "ptr \<Rightarrow> ospf_world \<Rightarrow> ospf_world option" where
  "ism_timer_set i w = upd_if i ism_timers w"

section \<open>Change of state\<close>

text \<open>\<^verbatim>\<open>ospf_lsa_unlock(&oi->network_lsa_self); oi->network_lsa_self = NULL;\<close>\<close>

definition drop_network_lsa :: "ptr \<Rightarrow> ospf_world \<Rightarrow> ospf_world option" where
  "drop_network_lsa i w = do {
     oi \<leftarrow> if_at w i;
     (_, w) \<leftarrow> ospf_lsa_unlock (network_lsa_self oi) w;
     upd_if i (\<lambda>oi. oi\<lparr>network_lsa_self := None\<rparr>) w }"

definition count_act_ints :: "u8 \<Rightarrow> u32 \<Rightarrow> ospf_area \<Rightarrow> ospf_area" where
  "count_act_ints old_state state ar =
     (if state = ucast ISM_Down then if act_ints ar > 0 then ar\<lparr>act_ints := act_ints ar - 1\<rparr> else ar
      else if old_state = ISM_Down then ar\<lparr>act_ints := act_ints ar + 1\<rparr> else ar)"

definition change_network_lsa :: "ptr \<Rightarrow> u8 \<Rightarrow> u32 \<Rightarrow> ospf_world \<Rightarrow> ospf_world option" where
  "change_network_lsa i old_state state w = do {
     oi \<leftarrow> if_at w i;
     if old_state \<noteq> ISM_DR \<and> state = ucast ISM_DR then Some (call (Network_Lsa_Update i) w)
     else if old_state = ISM_DR \<and> state \<noteq> ucast ISM_DR then do {
       w \<leftarrow> (case network_lsa_self oi of None \<Rightarrow> Some w | Some p \<Rightarrow> ospf_lsa_flush_area p (Some (oi_area oi)) w);
       drop_network_lsa i w }
     else Some w }"

definition ism_change_body :: "ptr \<Rightarrow> u32 \<Rightarrow> ospf_world \<Rightarrow> ospf_world option" where
  "ism_change_body i state w = do {
     oi \<leftarrow> if_at w i;
     let old_state = oi_state oi;
     w \<leftarrow> upd_if i (\<lambda>oi. oi\<lparr>oi_state := ucast state, oi_state_change := oi_state_change oi + 1\<rparr>) w;
     let w = call (Ism_Change_Hook i state old_state) w;
     let w = call (Set_Multicast i) w;
     let w = (if old_state = ISM_Down \<or> state = ucast ISM_Down then call Check_Abr_Status w else w);
     w \<leftarrow> upd_area (oi_area oi) (count_act_ints old_state state) w;
     let w = call (Router_Lsa_Update_Area (oi_area oi)) w;
     w \<leftarrow> change_network_lsa i old_state state w;
     let w = call (Opaque_Ism_Change i old_state) w;
     Some (call Check_Abr_Status w) }"

definition ism_change_state :: "plugin_table \<Rightarrow> ptr \<Rightarrow> u32 \<Rightarrow> ospf_world \<Rightarrow> ospf_world option" where
  "ism_change_state plugins i state w =
     map_option snd (with_plugins (plugins ISM_CHANGE_STATE) (Arg_Ism_Change_State i (sint state))
       (\<lambda>w. map_option (Pair 0) (ism_change_body i state w)) w)"

section \<open>Events\<close>

definition ism_interface_up :: "ptr \<Rightarrow> ospf_world \<Rightarrow> (u32 \<times> ospf_world) option" where
  "ism_interface_up i w = do {
     oi \<leftarrow> if_at w i;
     next_state \<leftarrow>
       (if oi_type oi = OSPF_IFTYPE_POINTOPOINT \<or> oi_type oi = OSPF_IFTYPE_POINTOMULTIPOINT \<or> oi_type oi = OSPF_IFTYPE_VIRTUALLINK
        then Some ISM_PointToPoint
        else map_option (\<lambda>p. if p = 0 then ISM_DROther else ISM_Waiting) (PRIORITY w i));
     Some (ucast next_state, if oi_type oi = OSPF_IFTYPE_NBMA then call (Nbma_If_Update i) w else w) }"

datatype ism_func =
    Ism_ignore
  | Ism_interface_up
  | Ism_loop_ind
  | Ism_interface_down
  | Ism_backup_seen
  | Ism_wait_timer
  | Ism_neighbor_change

text \<open>The function the table names; \<open>cleanup\<close> is \<^verbatim>\<open>ospf_if_cleanup\<close>, which calls the neighbour state machine.\<close>

definition ism_call ::
    "(ptr \<Rightarrow> ospf_world \<Rightarrow> ospf_world option) \<Rightarrow> plugin_table \<Rightarrow> ism_func \<Rightarrow> ptr \<Rightarrow> ospf_world \<Rightarrow> (u32 \<times> ospf_world) option" where
  "ism_call cleanup plugins f i w =
     (case f of
        Ism_ignore \<Rightarrow> Some (0, w)
      | Ism_loop_ind \<Rightarrow> Some (0, w)
      | Ism_interface_up \<Rightarrow> ism_interface_up i w
      | Ism_interface_down \<Rightarrow> map_option (Pair 0) (cleanup i w)
      | Ism_backup_seen \<Rightarrow> ospf_dr_election plugins i w
      | Ism_wait_timer \<Rightarrow> ospf_dr_election plugins i w
      | Ism_neighbor_change \<Rightarrow> ospf_dr_election plugins i w)"

text \<open>One row per state, one column per event.\<close>

definition ISM :: "(ism_func \<times> u8) list list" where
  "ISM =
    [replicate 8 (Ism_ignore, ISM_DependUpon),
     [(Ism_ignore, ISM_DependUpon), (Ism_interface_up, ISM_DependUpon), (Ism_ignore, ISM_Down), (Ism_ignore, ISM_Down),
      (Ism_ignore, ISM_Down), (Ism_loop_ind, ISM_Loopback), (Ism_ignore, ISM_Down), (Ism_interface_down, ISM_Down)],
     [(Ism_ignore, ISM_DependUpon), (Ism_ignore, ISM_Loopback), (Ism_ignore, ISM_Loopback), (Ism_ignore, ISM_Loopback),
      (Ism_ignore, ISM_Loopback), (Ism_ignore, ISM_Loopback), (Ism_ignore, ISM_Down), (Ism_interface_down, ISM_Down)],
     [(Ism_ignore, ISM_DependUpon), (Ism_ignore, ISM_Waiting), (Ism_wait_timer, ISM_DependUpon), (Ism_backup_seen, ISM_DependUpon),
      (Ism_ignore, ISM_Waiting), (Ism_loop_ind, ISM_Loopback), (Ism_ignore, ISM_Waiting), (Ism_interface_down, ISM_Down)],
     [(Ism_ignore, ISM_DependUpon), (Ism_ignore, ISM_PointToPoint), (Ism_ignore, ISM_PointToPoint), (Ism_ignore, ISM_PointToPoint),
      (Ism_ignore, ISM_PointToPoint), (Ism_loop_ind, ISM_Loopback), (Ism_ignore, ISM_PointToPoint), (Ism_interface_down, ISM_Down)],
     [(Ism_ignore, ISM_DependUpon), (Ism_ignore, ISM_DROther), (Ism_ignore, ISM_DROther), (Ism_ignore, ISM_DROther),
      (Ism_neighbor_change, ISM_DependUpon), (Ism_loop_ind, ISM_Loopback), (Ism_ignore, ISM_DROther), (Ism_interface_down, ISM_Down)],
     [(Ism_ignore, ISM_DependUpon), (Ism_ignore, ISM_Backup), (Ism_ignore, ISM_Backup), (Ism_ignore, ISM_Backup),
      (Ism_neighbor_change, ISM_DependUpon), (Ism_loop_ind, ISM_Loopback), (Ism_ignore, ISM_Backup), (Ism_interface_down, ISM_Down)],
     [(Ism_ignore, ISM_DependUpon), (Ism_ignore, ISM_DR), (Ism_ignore, ISM_DR), (Ism_ignore, ISM_DR),
      (Ism_neighbor_change, ISM_DependUpon), (Ism_loop_ind, ISM_Loopback), (Ism_ignore, ISM_DR), (Ism_interface_down, ISM_Down)]]"

definition ism_entry :: "u8 \<Rightarrow> nat \<Rightarrow> (ism_func \<times> u8) option" where
  "ism_entry state event =
     (if unat state < length ISM \<and> event < length (ISM ! unat state) then Some (ISM ! unat state ! event) else None)"

text \<open>The body of \<^verbatim>\<open>ospf_ism_event\<close>.\<close>

definition ism_event ::
    "(ptr \<Rightarrow> ospf_world \<Rightarrow> ospf_world option) \<Rightarrow> plugin_table \<Rightarrow> ptr \<Rightarrow> nat \<Rightarrow> ospf_world \<Rightarrow> ospf_world option" where
  "ism_event cleanup plugins i event w = do {
     oi \<leftarrow> if_at w i;
     (func, _) \<leftarrow> ism_entry (oi_state oi) event;
     (next_state, w) \<leftarrow> ism_call cleanup plugins func i w;
     oi \<leftarrow> if_at w i;
     next_state \<leftarrow> (if next_state = 0 then map_option (ucast \<circ> snd) (ism_entry (oi_state oi) event) else Some next_state);
     w \<leftarrow> (if next_state \<noteq> ucast (oi_state oi) then ism_change_state plugins i next_state w else Some w);
     ism_timer_set i w }"

definition ISM_NeighborChange :: nat where "ISM_NeighborChange = 4"

text \<open>
  The event NeighborChange runs to its end inside the neighbour state machine.  No row of the table
  calls \<^verbatim>\<open>ism_interface_down\<close> for it, so that what the interface does when it goes down plays no role.
\<close>

definition ism_neighbor_change :: "plugin_table \<Rightarrow> ptr \<Rightarrow> ospf_world \<Rightarrow> ospf_world option" where
  "ism_neighbor_change plugins i w = ism_event (\<lambda>_ _. None) plugins i ISM_NeighborChange w"

end
