(* ===== verification/Neighbor.thy ===== *)
theory Neighbor
  imports Flood
begin

unbundle bit_operations_syntax

text \<open>
  Neighbours, \<^verbatim>\<open>ospfd/ospf_neighbor.c\<close>: creation, deletion and the table of the neighbours of an
  interface; and the database summary list, from \<^verbatim>\<open>ospfd/ospf_nsm.c\<close>.
\<close>

section \<open>The database summary list\<close>

definition ospf_db_summary_count :: "ospf_neighbor \<Rightarrow> u32" where
  "ospf_db_summary_count nbr = ucast (ospf_lsdb_count_all (db_sum nbr))"

definition ospf_db_summary_isempty :: "ospf_neighbor \<Rightarrow> bool" where
  "ospf_db_summary_isempty nbr = ospf_lsdb_isempty (db_sum nbr)"

definition ospf_db_summary_add :: "ptr \<Rightarrow> ptr \<Rightarrow> ospf_world \<Rightarrow> ospf_world option" where
  "ospf_db_summary_add n p w = do {
     l \<leftarrow> lsas w p;
     h \<leftarrow> lsa_data l;
     nbr \<leftarrow> nbr_at w n;
     if ls_type h = OSPF_OPAQUE_LINK_LSA \<and> ospf_if_exists w (lsa_oi l) \<noteq> Some (nbr_oi nbr) then Some w
     else if CHECK_FLAG (lsa_flags l) OSPF_LSA_LOCAL_XLT then Some w
     else if IS_LSA_MAXAGE w l h then ospf_ls_retransmit_add n p w
     else on_db_sum n (\<lambda>d. ospf_lsdb_add d p) w }"

definition db_sum_clear_type :: "ptr \<Rightarrow> nat \<Rightarrow> ospf_world \<Rightarrow> ospf_world option" where
  "db_sum_clear_type n i w = do {
     nb \<leftarrow> nbr_at w n;
     t \<leftarrow> lsdb_table (db_sum nb) i;
     each (\<lambda>p. on_db_sum n (\<lambda>d. ospf_lsdb_delete d (Some p))) (map snd t) w }"

definition ospf_db_summary_clear :: "ptr \<Rightarrow> ospf_world \<Rightarrow> ospf_world option" where
  "ospf_db_summary_clear n w = each (db_sum_clear_type n) [OSPF_MIN_LSA..<OSPF_MAX_LSA] w"

section \<open>Creation\<close>

definition by_router_id :: "ospf_interface \<Rightarrow> bool" where
  "by_router_id oi \<longleftrightarrow> oi_type oi = OSPF_IFTYPE_VIRTUALLINK \<or> oi_type oi = OSPF_IFTYPE_POINTOPOINT"

definition ospf_nbr_key :: "ospf_interface \<Rightarrow> ospf_neighbor \<Rightarrow> u32" where
  "ospf_nbr_key oi nbr =
     (if by_router_id oi then nbr_router_id nbr else nbr_src nbr)"

text \<open>A neighbour as \<^verbatim>\<open>XCALLOC\<close> returns it, with the fields then set; \<^verbatim>\<open>ospf_lsdb_init\<close> acts on the zeroed lists.\<close>

definition ospf_nbr_init :: "ptr \<Rightarrow> ospf_interface \<Rightarrow> ospf_neighbor" where
  "ospf_nbr_init i oi =
     \<lparr>nbr_oi = i, nbr_state = NSM_Down, dd_flags = OSPF_DD_FLAG_MS OR OSPF_DD_FLAG_M OR OSPF_DD_FLAG_I, dd_seqnum = 0,
      nbr_address = 0, nbr_src = 0, nbr_router_id = 0, nbr_options = 0, nbr_priority = - 1, d_router = 0, bd_router = 0,
      last_send = False, ls_rxmt = ospf_lsdb_new, db_sum = ospf_lsdb_new, ls_req = ospf_lsdb_new, ls_req_last = None,
      nbr_crypt_seqnum = 0, v_inactivity = param_v_wait oi, v_db_desc = param_retransmit_interval oi,
      v_ls_req = param_retransmit_interval oi, v_ls_upd = param_retransmit_interval oi, t_inactivity = None,
      t_db_desc = None, t_ls_req = None, t_ls_upd = None, t_hello_reply = None, nbr_nbma = None,
      ts_last_progress = 0, ts_last_regress = 0, last_regress_str = None, nbr_state_change = 0\<rparr>"

definition ospf_nbr_new :: "ptr \<Rightarrow> ospf_world \<Rightarrow> (ptr \<times> ospf_world) option" where
  "ospf_nbr_new i w = do {
     oi \<leftarrow> if_at w i;
     let n = length (nbr_heap w);
     let w = w\<lparr>nbr_heap := nbr_heap w @ [Some (ospf_nbr_init i oi)]\<rparr>;
     Some (n, call (Bfd_Info_Create n) w) }"

section \<open>Deletion\<close>

definition ospf_nbr_free :: "ptr \<Rightarrow> ospf_world \<Rightarrow> ospf_world option" where
  "ospf_nbr_free n w = do {
     nbr \<leftarrow> nbr_at w n;
     w \<leftarrow> (if ospf_db_summary_count nbr \<noteq> 0 then ospf_db_summary_clear n w else Some w);
     nbr \<leftarrow> nbr_at w n;
     w \<leftarrow> (if ospf_ls_request_count nbr \<noteq> 0 then ospf_ls_request_delete_all n w else Some w);
     nbr \<leftarrow> nbr_at w n;
     w \<leftarrow> (if ospf_ls_retransmit_count nbr \<noteq> 0 then ospf_ls_retransmit_clear n w else Some w);
     w \<leftarrow> on_db_sum n ospf_lsdb_cleanup w;
     w \<leftarrow> on_ls_req n ospf_lsdb_cleanup w;
     w \<leftarrow> on_ls_rxmt n ospf_lsdb_cleanup w;
     nbr \<leftarrow> nbr_at w n;
     w \<leftarrow> (case nbr_nbma nbr of None \<Rightarrow> Some w | Some b \<Rightarrow> upd_nbma b (\<lambda>x. x\<lparr>nbma_nbr := None\<rparr>) w);
     let w = call (Cancel_Events n) w;
     Some (w\<lparr>nbr_heap := (nbr_heap w)[n := None]\<rparr>) }"

text \<open>
  A node of the table that a lookup returns has an entry.  The entry of the regular key is removed
  whichever neighbour it is; the one of the other key only if it is the neighbour itself.
\<close>

definition ospf_nbr_delete :: "ptr \<Rightarrow> ospf_world \<Rightarrow> ospf_world option" where
  "ospf_nbr_delete n w = do {
     nbr \<leftarrow> nbr_at w n;
     oi \<leftarrow> if_at w (nbr_oi nbr);
     let p = ospf_nbr_key oi nbr;
     let q = (if by_router_id oi then nbr_src nbr else nbr_router_id nbr);
     w \<leftarrow> (if map_of (oi_nbrs oi) p \<noteq> None then upd_if (nbr_oi nbr) (\<lambda>oi. oi\<lparr>oi_nbrs := tab_del p (oi_nbrs oi)\<rparr>) w
           else if map_of (oi_nbrs oi) q = Some n then upd_if (nbr_oi nbr) (\<lambda>oi. oi\<lparr>oi_nbrs := tab_del q (oi_nbrs oi)\<rparr>) w
           else Some w);
     ospf_nbr_free n w }"

section \<open>The neighbour that stands for the router itself\<close>

definition self_options :: "int \<Rightarrow> u8 \<Rightarrow> u8" where
  "self_options routing opts =
     (if routing = OSPF_AREA_DEFAULT then SET_FLAG opts OSPF_OPTION_E
      else if routing = OSPF_AREA_STUB then UNSET_FLAG opts OSPF_OPTION_E
      else if routing = OSPF_AREA_NSSA then SET_FLAG (UNSET_FLAG opts OSPF_OPTION_E) OSPF_OPTION_NP
      else opts)"

definition ospf_nbr_add_self :: "ptr \<Rightarrow> u32 \<Rightarrow> ospf_world \<Rightarrow> ospf_world option" where
  "ospf_nbr_add_self i router_id w = do {
     oi \<leftarrow> if_at w i;
     (s, w) \<leftarrow> (case nbr_self oi of
                  Some s \<Rightarrow> Some (s, w)
                | None \<Rightarrow> do {
                    (s, w) \<leftarrow> ospf_nbr_new i w;
                    w \<leftarrow> upd_if i (\<lambda>oi. oi\<lparr>nbr_self := Some s\<rparr>) w;
                    Some (s, w) });
     ar \<leftarrow> area_at w (oi_area oi);
     w \<leftarrow> upd_nbr s (\<lambda>nb. nb\<lparr>nbr_address := oi_address oi, nbr_priority := int (unat (param_priority oi)),
            nbr_router_id := router_id, nbr_src := oi_address oi, nbr_state := NSM_TwoWay,
            nbr_options := self_options (external_routing ar) (nbr_options nb)\<rparr>) w;
     self \<leftarrow> nbr_at w s;
     let p = ospf_nbr_key oi self;
     if map_of (oi_nbrs oi) p \<noteq> None then Some w
     else upd_if i (\<lambda>oi. oi\<lparr>oi_nbrs := tab_put p s (oi_nbrs oi)\<rparr>) w }"

definition ospf_nbr_self_reset :: "ptr \<Rightarrow> u32 \<Rightarrow> ospf_world \<Rightarrow> ospf_world option" where
  "ospf_nbr_self_reset i router_id w = do {
     oi \<leftarrow> if_at w i;
     w \<leftarrow> (case nbr_self oi of None \<Rightarrow> Some w | Some s \<Rightarrow> ospf_nbr_delete s w);
     (s, w) \<leftarrow> ospf_nbr_new i w;
     w \<leftarrow> upd_if i (\<lambda>oi. oi\<lparr>nbr_self := Some s\<rparr>) w;
     ospf_nbr_add_self i router_id w }"

section \<open>Queries\<close>

definition ospf_nbr_bidirectional :: "u32 \<Rightarrow> u32 list \<Rightarrow> bool" where
  "ospf_nbr_bidirectional router_id neighbors \<longleftrightarrow> router_id \<in> set neighbors"

definition nbr_counted :: "(ospf_neighbor \<Rightarrow> bool) \<Rightarrow> ptr \<Rightarrow> ospf_world \<Rightarrow> nat option" where
  "nbr_counted P i w = do {
     oi \<leftarrow> if_at w i;
     nbs \<leftarrow> those (map (nbr_at w) (map snd (oi_nbrs oi)));
     Some (length (filter (\<lambda>nb. nbr_router_id nb \<noteq> ospf_router_id (top w) \<and> P nb) nbs)) }"

definition ospf_nbr_count :: "ptr \<Rightarrow> u8 \<Rightarrow> ospf_world \<Rightarrow> nat option" where
  "ospf_nbr_count i state w = nbr_counted (\<lambda>nb. state = 0 \<or> nbr_state nb = state) i w"

definition ospf_nbr_count_opaque_capable :: "ptr \<Rightarrow> ospf_world \<Rightarrow> nat option" where
  "ospf_nbr_count_opaque_capable i w =
     nbr_counted (\<lambda>nb. nbr_state nb = NSM_Full \<and> CHECK_FLAG (nbr_options nb) OSPF_OPTION_O) i w"

section \<open>Lookup\<close>

text \<open>What the functions read of a packet: the header of OSPF and the source address of IP.\<close>

record ospf_header =
  hdr_router_id :: u32
  hdr_auth_type :: u16
  hdr_crypt_seqnum :: u32

definition OSPF_AUTH_CRYPTOGRAPHIC :: u16 where "OSPF_AUTH_CRYPTOGRAPHIC = 2"
definition NSM_SeqNumberMismatch :: nat where "NSM_SeqNumberMismatch = 9"

definition ospf_nbr_lookup_by_addr :: "(u32 \<times> ptr) list \<Rightarrow> u32 \<Rightarrow> ptr option" where
  "ospf_nbr_lookup_by_addr nbrs addr = map_of nbrs addr"

text \<open>The outer \<open>option\<close> is the fault, the inner one the pointer.\<close>

fun ospf_nbr_lookup_by_routerid :: "ptr list \<Rightarrow> u32 \<Rightarrow> ospf_world \<Rightarrow> ptr option option" where
  "ospf_nbr_lookup_by_routerid [] rid w = Some None"
| "ospf_nbr_lookup_by_routerid (n # ns) rid w = do {
     nbr \<leftarrow> nbr_at w n;
     if nbr_router_id nbr = rid then Some (Some n) else ospf_nbr_lookup_by_routerid ns rid w }"

definition ospf_nbr_lookup :: "ptr \<Rightarrow> u32 \<Rightarrow> ospf_header \<Rightarrow> ospf_world \<Rightarrow> ptr option option" where
  "ospf_nbr_lookup i ip_src ospfh w = do {
     oi \<leftarrow> if_at w i;
     if by_router_id oi then ospf_nbr_lookup_by_routerid (map snd (oi_nbrs oi)) (hdr_router_id ospfh) w
     else Some (ospf_nbr_lookup_by_addr (oi_nbrs oi) ip_src) }"

definition renegotiate_nbr :: "ptr option \<Rightarrow> ptr \<Rightarrow> ospf_world \<Rightarrow> ospf_world option" where
  "renegotiate_nbr self n w = do {
     nbr \<leftarrow> nbr_at w n;
     Some (if self = Some n \<or> nbr_state nbr < NSM_ExStart then w else call (Nsm_Event_Schedule n NSM_SeqNumberMismatch) w) }"

definition ospf_renegotiate_optional_capabilities :: "ospf_world \<Rightarrow> ospf_world option" where
  "ospf_renegotiate_optional_capabilities w =
     each (\<lambda>i w. do { oi \<leftarrow> if_at w i; each (renegotiate_nbr (nbr_self oi)) (map snd (oi_nbrs oi)) w })
       (ospf_oiflist (top w)) (call Flush_Self_Originated_Now w)"

text \<open>One turn of the loop over the configured neighbours of a non-broadcast network.\<close>

definition nbr_add_nbma :: "ptr \<Rightarrow> ptr \<Rightarrow> ospf_world \<Rightarrow> ospf_world option" where
  "nbr_add_nbma n b w = do {
     nbr \<leftarrow> nbr_at w n;
     x \<leftarrow> nbma_at w b;
     if nbma_addr x = nbr_src nbr then do {
       w \<leftarrow> upd_nbma b (\<lambda>x. x\<lparr>nbma_nbr := Some n, t_poll := None\<rparr>) w;
       upd_nbr n (\<lambda>nbr. nbr\<lparr>nbr_nbma := Some b, nbr_state_change := nbma_state_change x + 1\<rparr>) w }
     else Some w }"

definition ospf_nbr_add :: "ptr \<Rightarrow> ospf_header \<Rightarrow> u32 \<Rightarrow> ospf_world \<Rightarrow> (ptr \<times> ospf_world) option" where
  "ospf_nbr_add i ospfh p w = do {
     oi \<leftarrow> if_at w i;
     (n, w) \<leftarrow> ospf_nbr_new i w;
     w \<leftarrow> upd_nbr n (\<lambda>nbr. nbr\<lparr>nbr_state := NSM_Down, nbr_src := p, nbr_address := p, nbr_nbma := None\<rparr>) w;
     w \<leftarrow> (if oi_type oi = OSPF_IFTYPE_NBMA then each (nbr_add_nbma n) (oi_nbr_nbma oi) w else Some w);
     w \<leftarrow> (if hdr_auth_type ospfh = OSPF_AUTH_CRYPTOGRAPHIC
           then upd_nbr n (\<lambda>nbr. nbr\<lparr>nbr_crypt_seqnum := hdr_crypt_seqnum ospfh\<rparr>) w else Some w);
     Some (n, w) }"

definition ospf_nbr_get :: "ptr \<Rightarrow> ospf_header \<Rightarrow> u32 \<Rightarrow> u32 \<Rightarrow> ospf_world \<Rightarrow> (ptr \<times> ospf_world) option" where
  "ospf_nbr_get i ospfh ip_src p w = do {
     oi \<leftarrow> if_at w i;
     let key = (if by_router_id oi then hdr_router_id ospfh else ip_src);
     (n, w) \<leftarrow> (case map_of (oi_nbrs oi) key of
         Some n \<Rightarrow> do {
           nbr \<leftarrow> nbr_at w n;
           w \<leftarrow> (if oi_type oi = OSPF_IFTYPE_NBMA \<and> nbr_state nbr = NSM_Attempt
                 then upd_nbr n (\<lambda>nbr. nbr\<lparr>nbr_src := ip_src, nbr_address := p\<rparr>) w else Some w);
           Some (n, w) }
       | None \<Rightarrow> do {
           (n, w) \<leftarrow> ospf_nbr_add i ospfh p w;
           w \<leftarrow> upd_if i (\<lambda>oi. oi\<lparr>oi_nbrs := tab_put key n (oi_nbrs oi)\<rparr>) w;
           Some (n, w) });
     w \<leftarrow> upd_nbr n (\<lambda>nbr. nbr\<lparr>nbr_router_id := hdr_router_id ospfh\<rparr>) w;
     Some (n, w) }"

end
