(* ===== verification/Nsm.thy ===== *)
theory Nsm
  imports Ism Neighbor
begin

unbundle bit_operations_syntax

text \<open>
  The neighbour state machine, \<^verbatim>\<open>ospfd/ospf_nsm.c\<close>: the actions of the transitions, the change of
  state with the election, the counters of full adjacencies and the origination of LSAs it causes,
  and the table of transitions.
\<close>

section \<open>Timers\<close>

definition NSM_InactivityTimer :: nat where "NSM_InactivityTimer = 12"

definition ospf_inactivity_timer :: "ptr \<Rightarrow> ospf_world \<Rightarrow> ospf_world option" where
  "ospf_inactivity_timer n w = do {
     w \<leftarrow> upd_nbr n (\<lambda>nbr. nbr\<lparr>t_inactivity := None\<rparr>) w;
     Some (call (Nsm_Event_Schedule n NSM_InactivityTimer) w) }"

text \<open>The assertion that a last packet exists is the fault.\<close>

definition ospf_db_desc_timer :: "ptr \<Rightarrow> ospf_world \<Rightarrow> ospf_world option" where
  "ospf_db_desc_timer n w = do {
     w \<leftarrow> upd_nbr n (\<lambda>nbr. nbr\<lparr>t_db_desc := None\<rparr>) w;
     nbr \<leftarrow> nbr_at w n;
     if \<not> last_send nbr then None
     else upd_nbr n (\<lambda>nbr. nbr\<lparr>t_db_desc := timer_on (unat (v_db_desc nbr) * 1000) (t_db_desc nbr)\<rparr>) (call (Db_Desc_Resend n) w) }"

definition IS_SET_DD_MS :: "u8 \<Rightarrow> bool" where
  "IS_SET_DD_MS flags \<longleftrightarrow> flags AND OSPF_DD_FLAG_MS \<noteq> 0"

definition nsm_timers :: "ospf_neighbor \<Rightarrow> ospf_neighbor" where
  "nsm_timers nbr =
     (let st = nbr_state nbr;
          nbr = (if st = NSM_Deleted \<or> st = NSM_Down then nbr\<lparr>t_inactivity := None, t_hello_reply := None\<rparr> else nbr)
      in if st = NSM_Deleted \<or> st = NSM_Down \<or> st = NSM_Attempt \<or> st = NSM_Init \<or> st = NSM_TwoWay
         then nbr\<lparr>t_db_desc := None, t_ls_upd := None, t_ls_req := None\<rparr>
         else if st = NSM_ExStart
         then nbr\<lparr>t_db_desc := timer_on (unat (v_db_desc nbr) * 1000) (t_db_desc nbr), t_ls_upd := None, t_ls_req := None\<rparr>
         else if st = NSM_Exchange
         then nbr\<lparr>t_ls_upd := timer_on (unat (v_ls_upd nbr) * 1000) (t_ls_upd nbr),
                  t_db_desc := (if IS_SET_DD_MS (dd_flags nbr) then t_db_desc nbr else None)\<rparr>
         else nbr\<lparr>t_db_desc := None\<rparr>)"

definition nsm_timer_set :: "ptr \<Rightarrow> ospf_world \<Rightarrow> ospf_world option" where
  "nsm_timer_set n w = upd_nbr n nsm_timers w"

section \<open>Actions\<close>

definition nsm_should_adj :: "ptr \<Rightarrow> ospf_world \<Rightarrow> bool option" where
  "nsm_should_adj n w = do {
     nbr \<leftarrow> nbr_at w n;
     oi \<leftarrow> if_at w (nbr_oi nbr);
     if oi_type oi = OSPF_IFTYPE_POINTOPOINT \<or> oi_type oi = OSPF_IFTYPE_POINTOMULTIPOINT \<or> oi_type oi = OSPF_IFTYPE_VIRTUALLINK
     then Some True
     else do {
       dr \<leftarrow> DR w (nbr_oi nbr);
       bdr \<leftarrow> BDR w (nbr_oi nbr);
       Some (oi_address oi = dr \<or> oi_address oi = bdr \<or> nbr_address nbr = dr \<or> nbr_address nbr = bdr) } }"

definition poll_timer_off :: "ptr option \<Rightarrow> ospf_world \<Rightarrow> ospf_world option" where
  "poll_timer_off nbma w = (case nbma of None \<Rightarrow> Some w | Some b \<Rightarrow> upd_nbma b (\<lambda>x. x\<lparr>t_poll := None\<rparr>) w)"

text \<open>The timer is turned off and on again.\<close>

definition restart_inactivity :: "ptr \<Rightarrow> ospf_world \<Rightarrow> ospf_world option" where
  "restart_inactivity n w = upd_nbr n (\<lambda>nbr. nbr\<lparr>t_inactivity := Some (unat (v_inactivity nbr) * 1000)\<rparr>) w"

definition nsm_packet_received :: "ptr \<Rightarrow> ospf_world \<Rightarrow> (u8 \<times> ospf_world) option" where
  "nsm_packet_received n w = do {
     w \<leftarrow> restart_inactivity n w;
     nbr \<leftarrow> nbr_at w n;
     oi \<leftarrow> if_at w (nbr_oi nbr);
     w \<leftarrow> (if oi_type oi = OSPF_IFTYPE_NBMA then poll_timer_off (nbr_nbma nbr) w else Some w);
     Some (0, if nbr_state nbr < NSM_Exchange then call (Proactively_Arp n) w else w) }"

definition nsm_start :: "ptr \<Rightarrow> ospf_world \<Rightarrow> (u8 \<times> ospf_world) option" where
  "nsm_start n w = do {
     nbr \<leftarrow> nbr_at w n;
     w \<leftarrow> poll_timer_off (nbr_nbma nbr) w;
     w \<leftarrow> restart_inactivity n w;
     Some (0, call (Proactively_Arp n) w) }"

definition nsm_twoway_received :: "ptr \<Rightarrow> ospf_world \<Rightarrow> (u8 \<times> ospf_world) option" where
  "nsm_twoway_received n w = do {
     adj \<leftarrow> nsm_should_adj n w;
     Some (if adj then (NSM_ExStart, call (Proactively_Arp n) w) else (NSM_TwoWay, w)) }"

text \<open>\<^verbatim>\<open>LSDB_LOOP\<close> over one type of a database: nothing where there is no table.\<close>

definition summary_add_type :: "ptr \<Rightarrow> ospf_lsdb \<Rightarrow> u8 \<Rightarrow> ospf_world \<Rightarrow> ospf_world option" where
  "summary_add_type n d ty w =
     (case lsdb_table d (unat ty) of None \<Rightarrow> Some w | Some t \<Rightarrow> each (ospf_db_summary_add n) (map snd t) w)"

definition nsm_negotiation_done :: "ptr \<Rightarrow> ospf_world \<Rightarrow> (u8 \<times> ospf_world) option" where
  "nsm_negotiation_done n w = do {
     nbr \<leftarrow> nbr_at w n;
     oi \<leftarrow> if_at w (nbr_oi nbr);
     ar \<leftarrow> area_at w (oi_area oi);
     let w = call (Proactively_Arp n) w;
     let opaque = CHECK_FLAG (nbr_options nbr) OSPF_OPTION_O;
     let external = (oi_type oi \<noteq> OSPF_IFTYPE_VIRTUALLINK \<and> external_routing ar = OSPF_AREA_DEFAULT);
     w \<leftarrow> each (summary_add_type n (area_lsdb ar))
           ([OSPF_ROUTER_LSA, OSPF_NETWORK_LSA, OSPF_SUMMARY_LSA, OSPF_ASBR_SUMMARY_LSA] @
            (if opaque then [OSPF_OPAQUE_LINK_LSA, OSPF_OPAQUE_AREA_LSA] else []) @
            (if CHECK_FLAG (nbr_options nbr) OSPF_OPTION_NP then [OSPF_AS_NSSA_LSA] else [])) w;
     w \<leftarrow> each (summary_add_type n (as_lsdb (top w)))
           ((if external then [OSPF_AS_EXTERNAL_LSA] else []) @ (if opaque \<and> external then [OSPF_OPAQUE_AS_LSA] else [])) w;
     Some (0, w) }"

definition nsm_exchange_done :: "ptr \<Rightarrow> ospf_world \<Rightarrow> (u8 \<times> ospf_world) option" where
  "nsm_exchange_done n w = do {
     nbr \<leftarrow> nbr_at w n;
     Some (if ospf_ls_request_isempty nbr then (NSM_Full, w)
           else (NSM_Loading, if t_ls_req nbr = None then call (Ls_Req_Send n) w else w)) }"

definition nsm_adj_ok :: "ptr \<Rightarrow> ospf_world \<Rightarrow> (u8 \<times> ospf_world) option" where
  "nsm_adj_ok n w = do {
     nbr \<leftarrow> nbr_at w n;
     adj \<leftarrow> nsm_should_adj n w;
     Some (if nbr_state nbr = NSM_TwoWay \<and> adj then (NSM_ExStart, call (Proactively_Arp n) w)
           else if nbr_state nbr \<ge> NSM_ExStart \<and> \<not> adj then (NSM_TwoWay, w)
           else (nbr_state nbr, w)) }"

definition nsm_clear_adj :: "ptr \<Rightarrow> ospf_world \<Rightarrow> ospf_world option" where
  "nsm_clear_adj n w = do {
     nbr \<leftarrow> nbr_at w n;
     w \<leftarrow> (if ospf_db_summary_isempty nbr then Some w else ospf_db_summary_clear n w);
     nbr \<leftarrow> nbr_at w n;
     w \<leftarrow> (if ospf_ls_request_isempty nbr then Some w else ospf_ls_request_delete_all n w);
     nbr \<leftarrow> nbr_at w n;
     w \<leftarrow> (if ospf_ls_retransmit_isempty nbr then Some w else ospf_ls_retransmit_clear n w);
     upd_nbr n (\<lambda>nbr. nbr\<lparr>nbr_options := UNSET_FLAG (nbr_options nbr) OSPF_OPTION_O\<rparr>) w }"

definition nsm_kill_nbr :: "ptr \<Rightarrow> ospf_world \<Rightarrow> (u8 \<times> ospf_world) option" where
  "nsm_kill_nbr n w = do {
     nbr \<leftarrow> nbr_at w n;
     oi \<leftarrow> if_at w (nbr_oi nbr);
     if nbr_self oi = Some n then None
     else if oi_type oi \<noteq> OSPF_IFTYPE_NBMA then Some (0, w)
     else case nbr_nbma nbr of
       None \<Rightarrow> Some (0, w)
     | Some b \<Rightarrow> do {
         w \<leftarrow> upd_nbma b (\<lambda>x. x\<lparr>nbma_nbr := None, nbma_state_change := nbr_state_change nbr,
                t_poll := timer_on (unat (v_poll x) * 1000) (t_poll x)\<rparr>) w;
         w \<leftarrow> upd_nbr n (\<lambda>nbr. nbr\<lparr>nbr_nbma := None\<rparr>) w;
         Some (0, w) } }"

section \<open>Change of state\<close>

text \<open>The last field is the index of the string of the event.\<close>

definition nsm_notice_state_change :: "ptr \<Rightarrow> u8 \<Rightarrow> nat \<Rightarrow> ospf_world \<Rightarrow> ospf_world option" where
  "nsm_notice_state_change n next_state event w =
     upd_nbr n (\<lambda>nbr. if next_state > nbr_state nbr then nbr\<lparr>ts_last_progress := now w\<rparr>
                      else nbr\<lparr>ts_last_regress := now w, last_regress_str := Some event\<rparr>) w"

definition vl_area_of :: "ospf_world \<Rightarrow> ospf_interface \<Rightarrow> ptr option" where
  "vl_area_of w oi =
     (if oi_type oi = OSPF_IFTYPE_VIRTUALLINK then ospf_area_lookup_by_area_id w (vl_area_id oi) else None)"

definition refresh_redist :: "ospf_world \<Rightarrow> ospf_world" where
  "refresh_redist w =
     (let w = fold call (concat (map (\<lambda>(x, is). map (External_Lsa_Refresh_Type x) is) (redist (top w)))) w
      in call External_Lsa_Refresh_Default w)"

text \<open>A neighbour of the interface has become fully adjacent.\<close>

definition nsm_full_up :: "ptr \<Rightarrow> ospf_world \<Rightarrow> ospf_world option" where
  "nsm_full_up i w = do {
     oi \<leftarrow> if_at w i;
     let vl_area = vl_area_of w oi;
     w \<leftarrow> upd_if i (\<lambda>oi. oi\<lparr>oi_full_nbrs := oi_full_nbrs oi + 1\<rparr>) w;
     w \<leftarrow> upd_area (oi_area oi) (\<lambda>ar. ar\<lparr>area_full_nbrs := area_full_nbrs ar + 1\<rparr>) w;
     let w = call Check_Abr_Status w;
     w \<leftarrow> (case vl_area of
             None \<Rightarrow> Some w
           | Some v \<Rightarrow> do {
               w \<leftarrow> upd_area v (\<lambda>ar. ar\<lparr>full_vls := full_vls ar + 1\<rparr>) w;
               va \<leftarrow> area_at w v;
               Some (if full_vls va = 1 then call Schedule_Abr_Task w else w) });
     Some (refresh_redist w) }"

text \<open>A neighbour of the interface was fully adjacent and is not any more.\<close>

definition nsm_full_down :: "ptr \<Rightarrow> ospf_world \<Rightarrow> ospf_world option" where
  "nsm_full_down i w = do {
     oi \<leftarrow> if_at w i;
     let vl_area = vl_area_of w oi;
     w \<leftarrow> upd_if i (\<lambda>oi. oi\<lparr>oi_full_nbrs := oi_full_nbrs oi - 1\<rparr>) w;
     w \<leftarrow> upd_area (oi_area oi) (\<lambda>ar. ar\<lparr>area_full_nbrs := area_full_nbrs ar - 1\<rparr>) w;
     let w = call Check_Abr_Status w;
     case vl_area of
       None \<Rightarrow> Some w
     | Some v \<Rightarrow> do {
         va \<leftarrow> area_at w v;
         if full_vls va > 0 then do {
           w \<leftarrow> upd_area v (\<lambda>ar. ar\<lparr>full_vls := full_vls ar - 1\<rparr>) w;
           Some (if full_vls va = 1 then call Schedule_Abr_Task w else w) }
         else Some w } }"

definition nsm_update_lsas :: "ptr \<Rightarrow> ospf_world \<Rightarrow> ospf_world option" where
  "nsm_update_lsas i w = do {
     oi \<leftarrow> if_at w i;
     let w = call (Router_Lsa_Update_Area (oi_area oi)) w;
     let w = (case vl_area_of w oi of None \<Rightarrow> w | Some v \<Rightarrow> call (Router_Lsa_Update_Area v) w);
     if oi_state oi = ISM_DR then
       case network_lsa_self oi of
         None \<Rightarrow> Some (call (Network_Lsa_Update i) w)
       | Some p \<Rightarrow>
           if oi_full_nbrs oi = 0 then do {
             w \<leftarrow> ospf_lsa_flush_area p (Some (oi_area oi)) w;
             drop_network_lsa i w }
           else Some (call (Network_Lsa_Update i) w)
     else Some w }"

definition take_random :: "ospf_world \<Rightarrow> u32 \<times> ospf_world" where
  "take_random w = (random w (random_pos w), w\<lparr>random_pos := random_pos w + 1\<rparr>)"

definition nsm_start_exchange :: "ptr \<Rightarrow> ospf_world \<Rightarrow> ospf_world option" where
  "nsm_start_exchange n w = do {
     nbr \<leftarrow> nbr_at w n;
     let (seq, w) = (if dd_seqnum nbr = 0 then take_random w else (dd_seqnum nbr + 1, w));
     w \<leftarrow> upd_nbr n (\<lambda>nbr. nbr\<lparr>dd_seqnum := seq, dd_flags := OSPF_DD_FLAG_I OR OSPF_DD_FLAG_M OR OSPF_DD_FLAG_MS\<rparr>) w;
     Some (call (Db_Desc_Send n) w) }"

definition crosses :: "u8 \<Rightarrow> u8 \<Rightarrow> bool" where
  "crosses old_state state \<longleftrightarrow>
     old_state < NSM_TwoWay \<and> state \<ge> NSM_TwoWay \<or> old_state \<ge> NSM_TwoWay \<and> state < NSM_TwoWay"

definition nsm_change_state :: "plugin_table \<Rightarrow> ptr \<Rightarrow> u8 \<Rightarrow> ospf_world \<Rightarrow> ospf_world option" where
  "nsm_change_state plugins n state w = do {
     nbr \<leftarrow> nbr_at w n;
     let i = nbr_oi nbr;
     let old_state = nbr_state nbr;
     w \<leftarrow> upd_nbr n (\<lambda>nbr. nbr\<lparr>nbr_state := state, nbr_state_change := nbr_state_change nbr + 1\<rparr>) w;
     oi \<leftarrow> if_at w i;
     w \<leftarrow> (if oi_state oi \<in> {ISM_DROther, ISM_Backup, ISM_DR} \<and> crosses old_state state
           then ism_neighbor_change plugins i w else Some w);
     w \<leftarrow> (if old_state \<noteq> NSM_Full \<and> state = NSM_Full then do {
             w \<leftarrow> nsm_full_up i w;
             nsm_update_lsas i w }
           else if old_state = NSM_Full \<and> state \<noteq> NSM_Full then do {
             w \<leftarrow> nsm_full_down i w;
             nsm_update_lsas i w }
           else Some w);
     let w = call (Opaque_Nsm_Change n old_state) w;
     w \<leftarrow> (if old_state > NSM_ExStart \<and> state \<le> NSM_ExStart then nsm_clear_adj n w else Some w);
     w \<leftarrow> (if state = NSM_ExStart then nsm_start_exchange n w else Some w);
     w \<leftarrow> (if state = NSM_Down then upd_nbr n (\<lambda>nbr. nbr\<lparr>nbr_crypt_seqnum := 0\<rparr>) w else Some w);
     Some (call (Bfd_Trigger_Event n old_state state) w) }"

section \<open>The table of transitions\<close>

datatype nsm_func =
    Nsm_packet_received
  | Nsm_start
  | Nsm_twoway_received
  | Nsm_negotiation_done
  | Nsm_exchange_done
  | Nsm_adj_ok
  | Nsm_kill_nbr

definition nsm_call :: "nsm_func \<Rightarrow> ptr \<Rightarrow> ospf_world \<Rightarrow> (u8 \<times> ospf_world) option" where
  "nsm_call f =
     (case f of
        Nsm_packet_received \<Rightarrow> nsm_packet_received
      | Nsm_start \<Rightarrow> nsm_start
      | Nsm_twoway_received \<Rightarrow> nsm_twoway_received
      | Nsm_negotiation_done \<Rightarrow> nsm_negotiation_done
      | Nsm_exchange_done \<Rightarrow> nsm_exchange_done
      | Nsm_adj_ok \<Rightarrow> nsm_adj_ok
      | Nsm_kill_nbr \<Rightarrow> nsm_kill_nbr)"

text \<open>The columns for KillNbr, InactivityTimer and LLDown are the same in every row.\<close>

definition kill_columns :: "(nsm_func option \<times> u8) list" where
  "kill_columns = replicate 3 (Some Nsm_kill_nbr, NSM_Deleted)"

definition NSM :: "(nsm_func option \<times> u8) list list" where
  "NSM =
    [replicate 14 (None, NSM_DependUpon),
     replicate 14 (None, NSM_Deleted),
     [(None, NSM_DependUpon), (Some Nsm_packet_received, NSM_Init), (Some Nsm_start, NSM_Attempt), (None, NSM_Down),
      (None, NSM_Down), (None, NSM_Down), (None, NSM_Down), (None, NSM_Down), (None, NSM_Down), (None, NSM_Down),
      (None, NSM_Down)] @ kill_columns,
     [(None, NSM_DependUpon), (Some Nsm_packet_received, NSM_Init), (None, NSM_Attempt), (None, NSM_Attempt),
      (None, NSM_Attempt), (None, NSM_Attempt), (None, NSM_Attempt), (None, NSM_Attempt), (None, NSM_Attempt),
      (None, NSM_Attempt), (None, NSM_Attempt)] @ kill_columns,
     [(None, NSM_DependUpon), (Some Nsm_packet_received, NSM_Init), (None, NSM_Init), (Some Nsm_twoway_received, NSM_DependUpon),
      (None, NSM_Init), (None, NSM_Init), (None, NSM_Init), (None, NSM_Init), (None, NSM_Init), (None, NSM_Init),
      (None, NSM_Init)] @ kill_columns,
     [(None, NSM_DependUpon), (Some Nsm_packet_received, NSM_TwoWay), (None, NSM_TwoWay), (None, NSM_TwoWay),
      (None, NSM_TwoWay), (None, NSM_TwoWay), (None, NSM_TwoWay), (None, NSM_TwoWay), (Some Nsm_adj_ok, NSM_DependUpon),
      (None, NSM_TwoWay), (None, NSM_Init)] @ kill_columns,
     [(None, NSM_DependUpon), (Some Nsm_packet_received, NSM_ExStart), (None, NSM_ExStart), (None, NSM_ExStart),
      (Some Nsm_negotiation_done, NSM_Exchange), (None, NSM_ExStart), (None, NSM_ExStart), (None, NSM_ExStart),
      (Some Nsm_adj_ok, NSM_DependUpon), (None, NSM_ExStart), (None, NSM_Init)] @ kill_columns,
     [(None, NSM_DependUpon), (Some Nsm_packet_received, NSM_Exchange), (None, NSM_Exchange), (None, NSM_Exchange),
      (None, NSM_Exchange), (Some Nsm_exchange_done, NSM_DependUpon), (None, NSM_ExStart), (None, NSM_Exchange),
      (Some Nsm_adj_ok, NSM_DependUpon), (None, NSM_ExStart), (None, NSM_Init)] @ kill_columns,
     [(None, NSM_DependUpon), (Some Nsm_packet_received, NSM_Loading), (None, NSM_Loading), (None, NSM_Loading),
      (None, NSM_Loading), (None, NSM_Loading), (None, NSM_ExStart), (None, NSM_Full), (Some Nsm_adj_ok, NSM_DependUpon),
      (None, NSM_ExStart), (None, NSM_Init)] @ kill_columns,
     [(None, NSM_DependUpon), (Some Nsm_packet_received, NSM_Full), (None, NSM_Full), (None, NSM_Full), (None, NSM_Full),
      (None, NSM_Full), (None, NSM_ExStart), (None, NSM_Full), (Some Nsm_adj_ok, NSM_DependUpon), (None, NSM_ExStart),
      (None, NSM_Init)] @ kill_columns]"

definition nsm_entry :: "u8 \<Rightarrow> nat \<Rightarrow> (nsm_func option \<times> u8) option" where
  "nsm_entry state event =
     (if unat state < length NSM \<and> event < length (NSM ! unat state) then Some (NSM ! unat state ! event) else None)"

text \<open>No action changes the state of the neighbour, so that the entry is the same before and after it.\<close>

definition ospf_nsm_event :: "plugin_table \<Rightarrow> ptr \<Rightarrow> nat \<Rightarrow> ospf_world \<Rightarrow> ospf_world option" where
  "ospf_nsm_event plugins n event w = do {
     nbr \<leftarrow> nbr_at w n;
     (func, next) \<leftarrow> nsm_entry (nbr_state nbr) event;
     (next_state, w) \<leftarrow> (case func of
         None \<Rightarrow> Some (next, w)
       | Some f \<Rightarrow> do {
           (func_state, w) \<leftarrow> nsm_call f n w;
           Some (if next = NSM_DependUpon then func_state else next, w) });
     if next_state = NSM_DependUpon then None
     else do {
       nbr \<leftarrow> nbr_at w n;
       let old_state = nbr_state nbr;
       w \<leftarrow> (if next_state \<noteq> old_state then do {
               w \<leftarrow> nsm_notice_state_change n next_state event w;
               w \<leftarrow> nsm_change_state plugins n next_state w;
               Some (call (Nsm_Change_Hook n next_state old_state) w) }
             else Some w);
       w \<leftarrow> nsm_timer_set n w;
       nbr \<leftarrow> nbr_at w n;
       if nbr_state nbr = NSM_Deleted then ospf_nbr_delete n w else Some w } }"

end
