(* ===== verification/Ism_Event.thy ===== *)
theory Ism_Event
  imports Nsm
begin

text \<open>
  An interface that goes down, \<^verbatim>\<open>ospf_if_cleanup\<close> of \<^verbatim>\<open>ospfd/ospf_interface.c\<close>, which kills its
  neighbours through the neighbour state machine, and with it all events of the interface state machine.
\<close>

definition NSM_KillNbr :: nat where "NSM_KillNbr = 11"
definition ISM_InterfaceDown :: nat where "ISM_InterfaceDown = 7"

definition if_drop_nbma :: "ptr \<Rightarrow> ptr \<Rightarrow> ospf_world \<Rightarrow> ospf_world option" where
  "if_drop_nbma i b w = do {
     x \<leftarrow> nbma_at w b;
     w \<leftarrow> (case nbma_nbr x of None \<Rightarrow> Some w | Some n \<Rightarrow> upd_nbr n (\<lambda>nbr. nbr\<lparr>nbr_nbma := None\<rparr>) w);
     w \<leftarrow> upd_nbma b (\<lambda>x. x\<lparr>t_poll := None, nbma_nbr := None, nbma_oi := None\<rparr>) w;
     upd_if i (\<lambda>oi. oi\<lparr>oi_nbr_nbma := remove1 b (oi_nbr_nbma oi)\<rparr>) w }"

text \<open>
  The walk over the table visits the keys in order and reads the entry of each when it comes to it.
\<close>

definition if_kill_key :: "plugin_table \<Rightarrow> ptr \<Rightarrow> u32 \<Rightarrow> ospf_world \<Rightarrow> ospf_world option" where
  "if_kill_key plugins i k w = do {
     oi \<leftarrow> if_at w i;
     case map_of (oi_nbrs oi) k of
       None \<Rightarrow> Some w
     | Some n \<Rightarrow> if nbr_self oi = Some n then Some w else ospf_nsm_event plugins n NSM_KillNbr w }"

definition if_drop_ack :: "ptr \<Rightarrow> ospf_world \<Rightarrow> ospf_world option" where
  "if_drop_ack p w = do { (_, w) \<leftarrow> ospf_lsa_unlock (Some p) w; Some w }"

definition ospf_if_cleanup :: "plugin_table \<Rightarrow> ptr \<Rightarrow> ospf_world \<Rightarrow> ospf_world option" where
  "ospf_if_cleanup plugins i w = do {
     oi \<leftarrow> if_at w i;
     w \<leftarrow> each (if_drop_nbma i) (oi_nbr_nbma oi) w;
     w \<leftarrow> each (if_kill_key plugins i) (map fst (oi_nbrs oi)) w;
     oi \<leftarrow> if_at w i;
     w \<leftarrow> each if_drop_ack (ls_ack oi) w;
     w \<leftarrow> upd_if i (\<lambda>oi. oi\<lparr>ls_ack := [], oi_crypt_seqnum := 0\<rparr>) w;
     ospf_nbr_self_reset i (ospf_router_id (top w)) (call (Ls_Upd_Queue_Empty i) w) }"

definition ospf_ism_event :: "plugin_table \<Rightarrow> ptr \<Rightarrow> nat \<Rightarrow> ospf_world \<Rightarrow> ospf_world option" where
  "ospf_ism_event plugins i event w = ism_event (ospf_if_cleanup plugins) plugins i event w"

text \<open>The event that the neighbour state machine executes is this one.\<close>

lemma ism_neighbor_change_event:
  "ospf_ism_event plugins i ISM_NeighborChange w = ism_neighbor_change plugins i w"
proof -
  have down: "f \<noteq> Ism_interface_down" if "ism_entry st ISM_NeighborChange = Some (f, nx)" for st f nx
  proof -
    have "unat st \<in> {0..<8}" using that by (auto simp: ism_entry_def ISM_def split: if_splits)
    then have "unat st \<in> {0, 1, 2, 3, 4, 5, 6, 7}" by auto
    with that show ?thesis by (auto simp: ism_entry_def ISM_def ISM_NeighborChange_def split: if_splits)
  qed
  have same: "ism_call (ospf_if_cleanup plugins) plugins f i w = ism_call (\<lambda>_ _. None) plugins f i w"
    if "ism_entry st ISM_NeighborChange = Some (f, nx)" for st f nx
    using down [OF that] by (cases f) (simp_all add: ism_call_def)
  show ?thesis
  proof (cases "if_at w i")
    case (Some oi)
    then show ?thesis
    proof (cases "ism_entry (oi_state oi) ISM_NeighborChange")
      case (Some e)
      obtain f nx where "e = (f, nx)" by (cases e)
      with Some same [of "oi_state oi" f nx] \<open>if_at w i = Some oi\<close> show ?thesis
        by (simp add: ospf_ism_event_def ism_neighbor_change_def ism_event_def)
    qed (simp add: ospf_ism_event_def ism_neighbor_change_def ism_event_def)
  qed (simp add: ospf_ism_event_def ism_neighbor_change_def ism_event_def)
qed

end
