(* ===== verification/Ism_Correct.thy ===== *)
theory Ism_Correct
  imports Flood_Correct Ism_Event
begin

text \<open>
  The election of the designated router: one pass follows RFC 2328, the result is a state of the
  interface, and an election that all routers agree on is final.
\<close>

section \<open>Selection\<close>

lemma not_beats_trans: "\<not> beats a b \<Longrightarrow> \<not> beats b c \<Longrightarrow> \<not> beats a c"
  by (auto simp: beats_def)

lemma election_loop_best:
  assumes "mx \<noteq> None \<or> xs \<noteq> []"
  shows "\<exists>x. election_loop mx xs = Some x \<and> (mx = Some x \<or> x \<in> set xs) \<and>
     (\<forall>m. mx = Some m \<longrightarrow> \<not> beats (snd m) (snd x)) \<and> (\<forall>y\<in>set xs. \<not> beats (snd y) (snd x))"
  using assms
proof (induction xs arbitrary: mx)
  case Nil
  then show ?case by (auto simp: beats_def)
next
  case (Cons x xs)
  define mx' where "mx' = (case mx of None \<Rightarrow> Some x | Some m \<Rightarrow> if beats (snd x) (snd m) then Some x else Some m)"
  have "mx' \<noteq> None" by (simp add: mx'_def split: option.splits)
  then obtain m where m: "mx' = Some m" by blast
  have x: "\<not> beats (snd x) (snd m)" and old: "\<not> beats (snd k) (snd m)" if "mx = Some k" for k
    using m that by (auto simp: mx'_def beats_def split: option.splits if_splits)
  have x: "\<not> beats (snd x) (snd m)" using m by (auto simp: mx'_def beats_def split: option.splits if_splits)
  have m_in: "mx = Some m \<or> m = x" using m by (auto simp: mx'_def split: option.splits if_splits)
  obtain z where z: "election_loop mx' xs = Some z" "mx' = Some z \<or> z \<in> set xs" "\<not> beats (snd m) (snd z)"
      "\<forall>y\<in>set xs. \<not> beats (snd y) (snd z)"
    using Cons.IH [of mx'] m by auto
  have "\<not> beats (snd k) (snd z)" if "mx = Some k" for k by (rule not_beats_trans [OF old [OF that] z(3)])
  moreover have "\<not> beats (snd x) (snd z)" by (rule not_beats_trans [OF x z(3)])
  moreover have "election_loop mx (x # xs) = Some z" using z(1) by (simp add: mx'_def)
  ultimately show ?case using z(2,4) m m_in by (intro exI [of _ z]) (auto simp del: split_paired_All)
qed

lemma election_sub_best:
  assumes "xs \<noteq> []"
  shows "\<exists>x\<in>set xs. ospf_dr_election_sub xs = Some x \<and> (\<forall>y\<in>set xs. \<not> beats (snd y) (snd x))"
  using election_loop_best [of None xs] assms by (auto simp: ospf_dr_election_sub_def)

lemma election_sub_Nil [simp]: "ospf_dr_election_sub [] = None"
  by (simp add: ospf_dr_election_sub_def)

lemma election_sub_single [simp]: "ospf_dr_election_sub [x] = Some x"
  by (simp add: ospf_dr_election_sub_def)

section \<open>One pass\<close>

definition snapshot :: "ospf_world \<Rightarrow> ptr list \<Rightarrow> (ptr \<times> ospf_neighbor) list" where
  "snapshot w ns = map (\<lambda>n. (n, the (nbr_at w n))) ns"

lemma read_nbrs_snapshot:
  "list_all (\<lambda>n. nbr_at w n \<noteq> None) ns \<Longrightarrow> read_nbrs w ns = Some (snapshot w ns)"
  by (induction ns) (auto simp: read_nbrs_def snapshot_def)

text \<open>The state with other routers in the fields of the pseudo neighbour.\<close>

definition with_drs :: "ptr \<Rightarrow> u32 \<Rightarrow> u32 \<Rightarrow> ospf_world \<Rightarrow> ospf_world" where
  "with_drs s d b w = w\<lparr>nbr_heap := (nbr_heap w)[s := map_option (\<lambda>nb. nb\<lparr>d_router := d, bd_router := b\<rparr>) (nbr_heap w ! s)]\<rparr>"

lemma with_drs_nbr_at:
  "nbr_at (with_drs s d b w) n = (if n = s then map_option (\<lambda>nb. nb\<lparr>d_router := d, bd_router := b\<rparr>) (nbr_at w s) else nbr_at w n)"
  by (auto simp: with_drs_def nbr_at_def nth_list_update)

lemma with_drs_other [simp]: "if_at (with_drs s d b w) i = if_at w i" "top (with_drs s d b w) = top w"
  by (simp_all add: with_drs_def if_at_def)

lemma if_at_calls [simp]: "if_at (w\<lparr>calls := cs\<rparr>) = if_at w"
  by (simp add: fun_eq_iff if_at_def)

lemma with_drs_twice [simp]: "with_drs s d b (with_drs s d' b' w) = with_drs s d b w"
  by (cases "s < length (nbr_heap w)") (simp_all add: with_drs_def list_update_beyond option.map_comp comp_def)

lemma with_drs_same: "nbr_at w s = Some nb \<Longrightarrow> with_drs s (d_router nb) (bd_router nb) w = w"
  by (auto simp: with_drs_def nbr_at_def list_update_id split: if_splits intro!: ospf_world.equality)
     (metis list_update_id)

text \<open>What the election relies on of an interface: its pseudo neighbour and its neighbours exist.\<close>

definition election_ready :: "ospf_world \<Rightarrow> ptr \<Rightarrow> ptr \<Rightarrow> bool" where
  "election_ready w i s \<longleftrightarrow> (case if_at w i of None \<Rightarrow> False | Some oi \<Rightarrow>
     nbr_self oi = Some s \<and> nbr_at w s \<noteq> None \<and> list_all (\<lambda>n. nbr_at w n \<noteq> None) (map snd (oi_nbrs oi)))"

lemma self_of_at: "if_at w i = Some oi \<Longrightarrow> nbr_self oi = Some s \<Longrightarrow> self_of w i = nbr_at w s"
  by (simp add: self_of_def)

text \<open>The routers one pass elects.\<close>

definition elected_bdr :: "ospf_world \<Rightarrow> ptr list \<Rightarrow> u32" where
  "elected_bdr w el = address_of (bdr_candidate (snapshot w el))"

definition elected_dr :: "ospf_world \<Rightarrow> ptr list \<Rightarrow> u32" where
  "elected_dr w el = address_of (dr_candidate (elected_bdr w el) (snapshot w el))"

definition state_for :: "ospf_interface \<Rightarrow> u32 \<Rightarrow> u32 \<Rightarrow> u8" where
  "state_for oi d b = (if d = oi_address oi then ISM_DR else if b = oi_address oi then ISM_Backup else ISM_DROther)"

lemma election_loop_map:
  assumes "\<And>x y. beats (snd (g x)) (snd (g y)) = beats (snd x) (snd y)"
  shows "election_loop (map_option g mx) (map g xs) = map_option g (election_loop mx xs)"
proof (induction xs arbitrary: mx)
  case (Cons x xs)
  have "(case map_option g mx of None \<Rightarrow> Some (g x) | Some m \<Rightarrow> if beats (snd (g x)) (snd m) then Some (g x) else Some m) =
      map_option g (case mx of None \<Rightarrow> Some x | Some m \<Rightarrow> if beats (snd x) (snd m) then Some x else Some m)"
    using assms by (cases mx) auto
  with Cons.IH show ?case by simp
qed simp

lemma find_map: "find P (map g xs) = map_option g (find (P \<circ> g) xs)"
  by (induction xs) auto

text \<open>The designated router does not depend on who is the backup in the view of the neighbours.\<close>

lemma dr_candidate_map:
  assumes "\<And>x y. beats (snd (g x)) (snd (g y)) = beats (snd x) (snd y)" "\<And>x. NBR_IS_DR (snd (g x)) = NBR_IS_DR (snd x)"
    and "\<And>x. nbr_address (snd (g x)) = nbr_address (snd x)"
  shows "address_of (dr_candidate b (map g xs)) = address_of (dr_candidate b xs)"
proof -
  have f: "filter (NBR_IS_DR \<circ> snd) (map g xs) = map g (filter (NBR_IS_DR \<circ> snd) xs)"
    using assms(2) by (simp add: filter_map comp_def)
  have "dr_candidate b (map g xs) = map_option g (dr_candidate b xs)"
    using election_loop_map [of g None "filter (NBR_IS_DR \<circ> snd) xs"] assms(1,3)
    unfolding dr_candidate_def Let_def f
    by (simp add: ospf_dr_election_sub_def find_map rev_map comp_def)
  then show ?thesis using assms(3) by (simp add: address_of_def split: option.splits)
qed

lemma elected_dr_bdr_first:
  assumes "nbr_at w s = Some self"
  shows "address_of (dr_candidate b (snapshot (with_drs s (d_router self) b' w) el)) = address_of (dr_candidate b (snapshot w el))"
proof -
  let ?g = "\<lambda>(n, nb). (n, if n = s then nb\<lparr>d_router := d_router self, bd_router := b'\<rparr> else nb)"
  let ?h = "\<lambda>(n, nb). (n, if n = s then nb\<lparr>bd_router := b'\<rparr> else nb)"
  have "snapshot (with_drs s (d_router self) b' w) el = map ?h (snapshot w el)"
    using assms by (auto simp: snapshot_def with_drs_nbr_at)
  then show ?thesis
    by (simp only:) (rule dr_candidate_map, auto simp: beats_def NBR_IS_DR_def split: prod.splits if_splits)
qed

lemma drs_commute: "nb\<lparr>bd_router := b, d_router := d\<rparr> = nb\<lparr>d_router := d, bd_router := b\<rparr>"
  by (cases nb) simp

lemma elect_once_ok:
  assumes i: "if_at w i = Some oi" "nbr_self oi = Some s" "nbr_at w s = Some self"
    and el: "list_all (\<lambda>n. nbr_at w n \<noteq> None) el"
  shows "elect_once i el w =
     Some (state_for oi (elected_dr w el) (elected_bdr w el), with_drs s (elected_dr w el) (elected_bdr w el) w)"
proof -
  let ?w1 = "with_drs s (d_router self) (elected_bdr w el) w"
  have "ospf_elect_bdr i el w = Some ?w1"
    using i read_nbrs_snapshot [OF el]
    by (simp add: ospf_elect_bdr_def set_self_def upd_nbr_def with_drs_def elected_bdr_def nbr_at_def split: if_splits)
  moreover have el1: "list_all (\<lambda>n. nbr_at ?w1 n \<noteq> None) el"
    using el by (auto simp: list_all_iff with_drs_nbr_at)
  moreover have "ospf_elect_dr i el ?w1 = Some (with_drs s (elected_dr w el) (elected_bdr w el) w)"
    using i read_nbrs_snapshot [OF el1] elected_dr_bdr_first [OF i(3)]
    by (simp add: ospf_elect_dr_def set_self_def upd_nbr_def BDR_def self_of_def with_drs_nbr_at elected_dr_def)
       (simp add: with_drs_def nbr_at_def drs_commute split: if_splits)
  ultimately show ?thesis
    using i by (simp add: elect_once_def ospf_ism_state_def self_of_def with_drs_nbr_at state_for_def)
qed

section \<open>The whole election\<close>

definition eligible_routers :: "ospf_world \<Rightarrow> ospf_interface \<Rightarrow> ptr list" where
  "eligible_routers w oi = map fst (filter (eligible \<circ> snd) (snapshot w (map snd (oi_nbrs oi))))"

lemma dr_change_ok:
  assumes "list_all (\<lambda>n. nbr_at w n \<noteq> None) ns"
  shows "\<exists>cs. ospf_dr_change ns w = Some (w\<lparr>calls := calls w @ cs\<rparr>)"
  using assms
proof (induction ns arbitrary: w)
  case Nil
  show ?case by (rule exI [of _ "[]"]) (simp add: ospf_dr_change_def)
next
  case (Cons n ns)
  then obtain nbr where n: "nbr_at w n = Some nbr" by auto
  let ?w = "if adj_ok_due w nbr then call (Nsm_Event_Schedule n NSM_AdjOK) w else w"
  have "list_all (\<lambda>n. nbr_at ?w n \<noteq> None) ns" using Cons.prems by (simp add: call_def)
  from Cons.IH [OF this] obtain cs where "ospf_dr_change ns ?w = Some (?w\<lparr>calls := calls ?w @ cs\<rparr>)" by blast
  with n show ?case by (auto simp: ospf_dr_change_def call_def)
qed

lemma eligible_live:
  "list_all (\<lambda>n. nbr_at w n \<noteq> None) (map snd (oi_nbrs oi)) \<Longrightarrow> list_all (\<lambda>n. nbr_at w n \<noteq> None) (eligible_routers w oi)"
  by (auto simp: eligible_routers_def list_all_iff snapshot_def)

text \<open>
  The routers that the election settles on: those of the first pass, or of the second if the first
  one gave the router another role.
\<close>

definition final_drs :: "ospf_world \<Rightarrow> ptr \<Rightarrow> ospf_interface \<Rightarrow> u32 \<times> u32" where
  "final_drs w s oi =
     (let el = eligible_routers w oi; d = elected_dr w el; b = elected_bdr w el; st = state_for oi d b;
          w' = with_drs s d b w
      in if st \<noteq> oi_state oi \<and> \<not> (st = ISM_DROther \<and> oi_state oi < ISM_DROther)
         then (elected_dr w' el, elected_bdr w' el) else (d, b))"

lemma dr_election_body_ok:
  assumes ready: "election_ready w i s" and i: "if_at w i = Some oi"
  shows "\<exists>cs. dr_election_body i w = Some (ucast (state_for oi (fst (final_drs w s oi)) (snd (final_drs w s oi))),
     (with_drs s (fst (final_drs w s oi)) (snd (final_drs w s oi)) w)\<lparr>calls := calls w @ cs\<rparr>) \<and>
     (DR w i = Some (fst (final_drs w s oi)) \<and> BDR w i = Some (snd (final_drs w s oi)) \<longrightarrow> cs = [])"
proof -
  obtain self where s: "nbr_self oi = Some s" "nbr_at w s = Some self"
    and live: "list_all (\<lambda>n. nbr_at w n \<noteq> None) (map snd (oi_nbrs oi))"
    using ready i by (auto simp: election_ready_def)
  let ?el = "eligible_routers w oi"
  have el: "ospf_dr_eligible_routers w (map snd (oi_nbrs oi)) = Some ?el"
    by (simp add: ospf_dr_eligible_routers_def read_nbrs_snapshot [OF live] eligible_routers_def)
  define st where "st = state_for oi (elected_dr w ?el) (elected_bdr w ?el)"
  define w1 where "w1 = with_drs s (elected_dr w ?el) (elected_bdr w ?el) w"
  note el_live = eligible_live [OF live]
  have 1: "elect_once i ?el w = Some (st, w1)"
    unfolding st_def w1_def by (rule elect_once_ok [OF i s el_live])
  have self1: "if_at w1 i = Some oi" "nbr_at w1 s = Some (self\<lparr>d_router := elected_dr w ?el, bd_router := elected_bdr w ?el\<rparr>)"
    using i s by (simp_all add: w1_def with_drs_nbr_at)
  have live1: "list_all (\<lambda>n. nbr_at w1 n \<noteq> None) ?el" using el_live by (auto simp: w1_def list_all_iff with_drs_nbr_at)
  define d b where "d = fst (final_drs w s oi)" and "b = snd (final_drs w s oi)"
  define w2 where "w2 = with_drs s d b w"
  have 2: "(if st \<noteq> oi_state oi \<and> \<not> (st = ISM_DROther \<and> oi_state oi < ISM_DROther) then elect_once i ?el w1 else Some (st, w1)) =
      Some (state_for oi d b, w2)"
    using elect_once_ok [OF self1(1) s(1) self1(2) live1]
    by (simp add: d_def b_def w2_def final_drs_def Let_def st_def [symmetric] w1_def [symmetric])
       (simp add: w1_def st_def)
  have drs: "DR w2 i = Some d" "BDR w2 i = Some b" "DR w i = Some (d_router self)" "BDR w i = Some (bd_router self)"
    using i s by (simp_all add: w2_def DR_def BDR_def self_of_def with_drs_nbr_at)
  have "list_all (\<lambda>n. nbr_at w2 n \<noteq> None) (map snd (oi_nbrs oi))" using live by (auto simp: w2_def list_all_iff with_drs_nbr_at)
  then obtain cs where cs: "ospf_dr_change (map snd (oi_nbrs oi)) w2 = Some (w2\<lparr>calls := calls w2 @ cs\<rparr>)"
    using dr_change_ok by blast
  have w2: "calls w2 = calls w" "w2\<lparr>calls := calls w @ []\<rparr> = w2" by (simp_all add: w2_def with_drs_def)
  show ?thesis
    using i el 1 2 drs cs w2 unfolding d_def [symmetric] b_def [symmetric] w2_def [symmetric]
    by (cases "d_router self \<noteq> d \<or> bd_router self \<noteq> b") (auto simp: dr_election_body_def Let_def)
qed

lemma dr_election_plain:
  "plugins DR_ELECTION = None \<Longrightarrow> ospf_dr_election plugins i w = map_option (\<lambda>(ret, w). (ucast ret, w)) (dr_election_body i w)"
  by (simp add: ospf_dr_election_def with_plugins_def)

lemma state_for_cast [simp]: "ucast (ucast (state_for oi d b :: u8) :: u64) = (ucast (state_for oi d b) :: u32)"
  by (simp add: state_for_def ism_states)

definition addresses :: "ospf_world \<Rightarrow> ptr list \<Rightarrow> u32 list" where
  "addresses w el = map (nbr_address \<circ> snd) (snapshot w el)"

lemma election_sub_in: "ospf_dr_election_sub xs = Some x \<Longrightarrow> x \<in> set xs"
  using election_sub_best [of xs] by (cases xs) auto

lemma elected_in:
  "elected_bdr w el \<in> insert 0 (set (addresses w el))" "elected_dr w el \<in> insert 0 (set (addresses w el))"
  using find_SomeD [of _ "rev (snapshot w el)"]
  by (auto simp: elected_bdr_def elected_dr_def address_of_def bdr_candidate_def dr_candidate_def addresses_def Let_def
      simp del: split_paired_All split: option.splits if_splits dest!: election_sub_in)

lemma addresses_with_drs [simp]:
  "list_all (\<lambda>n. nbr_at w n \<noteq> None) el \<Longrightarrow> addresses (with_drs s d b w) el = addresses w el"
  by (auto simp: addresses_def snapshot_def with_drs_nbr_at list_all_iff)

text \<open>A router of the list that no other beats has this address.\<close>

definition best :: "(ptr \<times> ospf_neighbor) list \<Rightarrow> u32 \<Rightarrow> bool" where
  "best xs a \<longleftrightarrow> (\<exists>x\<in>set xs. a = nbr_address (snd x) \<and>
     (\<forall>y\<in>set xs. nbr_priority (snd y) < nbr_priority (snd x) \<or>
        nbr_priority (snd y) = nbr_priority (snd x) \<and> nbr_router_id (snd y) \<le> nbr_router_id (snd x)))"

lemma election_sub_address: "xs \<noteq> [] \<Longrightarrow> best xs (address_of (ospf_dr_election_sub xs))"
proof -
  assume "xs \<noteq> []"
  then obtain x where "x \<in> set xs" "ospf_dr_election_sub xs = Some x" "\<forall>y\<in>set xs. \<not> beats (snd y) (snd x)"
    using election_sub_best by blast
  then show ?thesis unfolding best_def by (intro bexI [of _ x]) (auto simp: address_of_def beats_def)
qed

lemma elected_bdr_best:
  "let nodr = filter (\<lambda>x. \<not> NBR_IS_DR (snd x)) (snapshot w el); decl = filter (NBR_IS_BDR \<circ> snd) nodr
   in if nodr = [] then elected_bdr w el = 0 else best (if decl = [] then nodr else decl) (elected_bdr w el)"
  using election_sub_address by (simp add: Let_def elected_bdr_def bdr_candidate_def address_of_def)

lemma best_in: "best xs a \<Longrightarrow> \<exists>x\<in>set xs. a = nbr_address (snd x)"
  by (auto simp: best_def)

lemma find_address:
  assumes "x \<in> set xs" "a = nbr_address (snd x)"
  shows "address_of (find (\<lambda>x. a = nbr_address (snd x)) xs) = a"
proof -
  from assms have "find (\<lambda>x. a = nbr_address (snd x)) xs \<noteq> None" unfolding find_None_iff by blast
  then obtain y where "find (\<lambda>x. a = nbr_address (snd x)) xs = Some y" by blast
  with find_SomeD [OF this] show ?thesis by (simp add: address_of_def)
qed

lemma elected_dr_best:
  "let drs = filter (NBR_IS_DR \<circ> snd) (snapshot w el)
   in if drs = [] then elected_dr w el = elected_bdr w el else best drs (elected_dr w el)"
proof (cases "filter (NBR_IS_DR \<circ> snd) (snapshot w el) = []")
  case True
  let ?rs = "snapshot w el"
  have "filter (\<lambda>x. \<not> NBR_IS_DR (snd x)) ?rs = ?rs" using True by (auto simp: filter_empty_conv filter_id_conv)
  with elected_bdr_best [of w el] have "?rs = [] \<and> elected_bdr w el = 0 \<or> (\<exists>x\<in>set ?rs. elected_bdr w el = nbr_address (snd x))"
    by (auto simp: Let_def split: if_splits dest!: best_in)
  with True find_address [of _ "rev ?rs" "elected_bdr w el"] show ?thesis
    by (auto simp: elected_dr_def dr_candidate_def Let_def address_of_def)
next
  case False
  then show ?thesis using election_sub_address by (simp add: elected_dr_def dr_candidate_def)
qed

section \<open>Properties\<close>

lemmas sample_eval = sample_world_def sample_if_def sample_area_def if_at_def nbr_at_def sample_nbr_def

text \<open>
  C34. Without a plugin at its insertion point the election ends on every interface whose neighbours
  exist.  The value it returns is one of the states DROther, Backup and DR and is the one that the
  elected routers give; each elected router is 0.0.0.0 or the address of an eligible router; and no
  neighbour but the pseudo neighbour of the router itself is changed.
\<close>

theorem dr_election_role:
  assumes "election_ready w i s" "if_at w i = Some oi" "plugins DR_ELECTION = None"
  shows "\<exists>st w' d b. ospf_dr_election plugins i w = Some (ucast st, w') \<and> st \<in> {ISM_DROther, ISM_Backup, ISM_DR} \<and>
     ospf_ism_state i w' = Some st \<and> DR w' i = Some d \<and> BDR w' i = Some b \<and>
     {d, b} \<subseteq> insert 0 (set (addresses w (eligible_routers w oi))) \<and> (\<forall>m. m \<noteq> s \<longrightarrow> nbr_at w' m = nbr_at w m)"
proof -
  obtain d b where db: "final_drs w s oi = (d, b)" by (cases "final_drs w s oi")
  obtain self where s: "nbr_self oi = Some s" "nbr_at w s = Some self"
    and live: "list_all (\<lambda>n. nbr_at w n \<noteq> None) (map snd (oi_nbrs oi))"
    using assms(1,2) by (auto simp: election_ready_def)
  obtain cs where r: "dr_election_body i w = Some (ucast (state_for oi d b), (with_drs s d b w)\<lparr>calls := calls w @ cs\<rparr>)"
    using dr_election_body_ok [OF assms(1,2)] db by auto
  let ?w' = "(with_drs s d b w)\<lparr>calls := calls w @ cs\<rparr>"
  have "if_at ?w' i = Some oi" "nbr_at ?w' s = Some (self\<lparr>d_router := d, bd_router := b\<rparr>)"
    using assms(2) s by (simp_all add: with_drs_nbr_at)
  then have "self_of ?w' i = Some (self\<lparr>d_router := d, bd_router := b\<rparr>)" "if_at ?w' i = Some oi"
    using s by (simp_all add: self_of_def)
  then have "ospf_ism_state i ?w' = Some (state_for oi d b)" "DR ?w' i = Some d" "BDR ?w' i = Some b"
    by (simp_all add: ospf_ism_state_def DR_def BDR_def state_for_def)
  moreover have "{d, b} \<subseteq> insert 0 (set (addresses w (eligible_routers w oi)))"
    using db elected_in [of w "eligible_routers w oi"] eligible_live [OF live]
      elected_in [of "with_drs s (elected_dr w (eligible_routers w oi)) (elected_bdr w (eligible_routers w oi)) w" "eligible_routers w oi"]
    by (auto simp: final_drs_def Let_def split: if_splits)
  moreover have "\<forall>m. m \<noteq> s \<longrightarrow> nbr_at ?w' m = nbr_at w m" by (simp add: with_drs_nbr_at)
  moreover have "state_for oi d b \<in> {ISM_DROther, ISM_Backup, ISM_DR}" by (simp add: state_for_def)
  moreover have "ospf_dr_election plugins i w = Some (ucast (state_for oi d b), ?w')"
    using r assms(3) by (simp add: dr_election_plain)
  ultimately show ?thesis by blast
qed

theorem dr_election_role_witness:
  "\<exists>st w'. ospf_dr_election (\<lambda>_. None) 0 sample_world = Some (ucast st, w') \<and> ospf_ism_state 0 w' = Some st"
proof -
  have "election_ready sample_world 0 0" "if_at sample_world 0 = Some sample_if"
    by (simp_all add: election_ready_def sample_eval)
  from dr_election_role [OF this, of "\<lambda>_. None"] show ?thesis by blast
qed

text \<open>
  C33. One pass of the election is that of RFC 2328, section 9.4.  The backup is, among the eligible
  routers that do not declare themselves designated router, a best one of those that declare
  themselves backup, or of all of them if there is none; the designated router is a best one of those
  that declare themselves designated router, or the backup just elected if there is none.  A best router
  has the highest priority and, among those with this priority, the highest router id.
\<close>

theorem elect_once_rfc:
  assumes "election_ready w i s" "list_all (\<lambda>n. nbr_at w n \<noteq> None) el"
  shows "\<exists>st w' d b. elect_once i el w = Some (st, w') \<and> DR w' i = Some d \<and> BDR w' i = Some b \<and>
     (let rs = snapshot w el; nodr = filter (\<lambda>x. \<not> NBR_IS_DR (snd x)) rs; decl = filter (NBR_IS_BDR \<circ> snd) nodr;
          drs = filter (NBR_IS_DR \<circ> snd) rs
      in (if nodr = [] then b = 0 else best (if decl = [] then nodr else decl) b) \<and>
         (if drs = [] then d = b else best drs d))"
proof -
  obtain oi self where i: "if_at w i = Some oi" "nbr_self oi = Some s" "nbr_at w s = Some self"
    using assms(1) by (auto simp: election_ready_def split: option.splits)
  have w': "DR (with_drs s d b w) i = Some d" "BDR (with_drs s d b w) i = Some b" for d b
    using i by (simp_all add: DR_def BDR_def self_of_def with_drs_nbr_at)
  show ?thesis
    using elect_once_ok [OF i assms(2)] w' elected_bdr_best [of w el] elected_dr_best [of w el] by (simp add: Let_def)
qed

theorem elect_once_rfc_witness: "\<exists>st w'. elect_once 0 [0, 1] sample_world = Some (st, w') \<and> DR w' 0 = Some 1 \<and> BDR w' 0 = Some 2"
proof -
  have rs: "snapshot sample_world [0, 1] = [(0, sample_nbr NSM_TwoWay 1), (1, sample_nbr NSM_Full 2)]"
    by (simp add: snapshot_def nbr_at_def sample_world_def)
  have "election_ready sample_world 0 0" "list_all (\<lambda>n. nbr_at sample_world n \<noteq> None) [0, 1]"
    by (simp_all add: election_ready_def sample_eval)
  moreover have "filter (\<lambda>x. \<not> NBR_IS_DR (snd x)) (snapshot sample_world [0, 1]) = [(1, sample_nbr NSM_Full 2)]"
    "filter (NBR_IS_DR \<circ> snd) (snapshot sample_world [0, 1]) = [(0, sample_nbr NSM_TwoWay 1)]"
    "\<not> NBR_IS_BDR (sample_nbr NSM_Full 2)"
    unfolding rs by (simp_all add: NBR_IS_DR_def NBR_IS_BDR_def sample_nbr_def)
  moreover have "nbr_address (sample_nbr NSM_TwoWay 1) = 1" "nbr_address (sample_nbr NSM_Full 2) = 2"
    by (simp_all add: sample_nbr_def)
  ultimately show ?thesis
    using elect_once_rfc [of sample_world 0 0 "[0, 1]"] by (simp add: Let_def best_def)
qed

text \<open>
  C35. An election that all routers agree on is final.  If exactly one eligible router declares itself
  designated router and exactly one of the others declares itself backup, and these are the two that the interface
  has, then the election changes nothing and schedules nothing, whatever the priorities and router ids of the
  routers are; in particular a new router with the highest priority does not take over.
\<close>

theorem dr_election_stable:
  assumes "election_ready w i s" "if_at w i = Some oi" "plugins DR_ELECTION = None"
    and "rs = snapshot w (eligible_routers w oi)" "filter (NBR_IS_DR \<circ> snd) rs = [x]"
    and "filter (\<lambda>r. NBR_IS_BDR (snd r) \<and> \<not> NBR_IS_DR (snd r)) rs = [y]"
    and "DR w i = Some (nbr_address (snd x))" "BDR w i = Some (nbr_address (snd y))"
  shows "\<exists>st. ospf_ism_state i w = Some st \<and> ospf_dr_election plugins i w = Some (ucast st, w)"
proof -
  obtain self where i: "nbr_self oi = Some s" "nbr_at w s = Some self" using assms(1,2) by (auto simp: election_ready_def)
  let ?el = "eligible_routers w oi" and ?d = "nbr_address (snd x)" and ?b = "nbr_address (snd y)"
  have self: "d_router self = ?d" "bd_router self = ?b" using assms(2,7,8) i by (simp_all add: DR_def BDR_def self_of_def)
  have bdr: "elected_bdr w ?el = ?b"
    using assms(4,6) by (simp add: elected_bdr_def bdr_candidate_def address_of_def Let_def conj_commute)
  have dr: "elected_dr w ?el = ?d"
    using assms(4,5) by (simp add: elected_dr_def dr_candidate_def address_of_def Let_def)
  have same: "with_drs s ?d ?b w = w" using with_drs_same [OF i(2)] self by simp
  then have final: "final_drs w s oi = (?d, ?b)" by (simp add: final_drs_def bdr dr Let_def)
  obtain cs where "dr_election_body i w = Some (ucast (state_for oi ?d ?b), w\<lparr>calls := calls w @ cs\<rparr>)" "cs = []"
    using dr_election_body_ok [OF assms(1,2)] assms(7,8) unfolding final by (auto simp: same)
  then have "ospf_dr_election plugins i w = Some (ucast (state_for oi ?d ?b), w)"
    using assms(3) by (simp add: dr_election_plain)
  moreover have "ospf_ism_state i w = Some (state_for oi ?d ?b)"
    using assms(2) i self by (simp add: ospf_ism_state_def self_of_def state_for_def)
  ultimately show ?thesis by blast
qed

text \<open>The router and its backup, and a router with a higher priority that has just come up.\<close>

definition agreed_world :: ospf_world where
  "agreed_world = sample_world\<lparr>
     nbr_heap := [Some ((sample_nbr NSM_TwoWay 1)\<lparr>bd_router := 2\<rparr>), Some ((sample_nbr NSM_Full 2)\<lparr>bd_router := 2\<rparr>),
                  Some ((sample_nbr NSM_TwoWay 3)\<lparr>nbr_priority := 200, d_router := 0\<rparr>)],
     if_heap := [sample_if\<lparr>oi_nbrs := [(1, 0), (2, 1), (3, 2)]\<rparr>]\<rparr>"

theorem dr_election_stable_witness: "\<exists>st :: u8. ospf_dr_election (\<lambda>_. None) 0 agreed_world = Some (ucast st, agreed_world)"
proof -
  let ?w = agreed_world and ?oi = "sample_if\<lparr>oi_nbrs := [(1, 0), (2, 1), (3, 2)]\<rparr>"
  let ?x = "(0, (sample_nbr NSM_TwoWay 1)\<lparr>bd_router := 2\<rparr>)" and ?y = "(1, (sample_nbr NSM_Full 2)\<lparr>bd_router := 2\<rparr>)"
  have w: "election_ready ?w 0 0" "if_at ?w 0 = Some ?oi" "DR ?w 0 = Some (nbr_address (snd ?x))" "BDR ?w 0 = Some (nbr_address (snd ?y))"
    by (simp_all add: election_ready_def agreed_world_def DR_def BDR_def self_of_def sample_eval)
  have rs: "snapshot ?w (eligible_routers ?w ?oi) = [?x, ?y, (2, (sample_nbr NSM_TwoWay 3)\<lparr>nbr_priority := 200, d_router := 0\<rparr>)]"
    by (simp add: snapshot_def eligible_routers_def agreed_world_def eligible_def nsm_states sample_eval)
  have "filter (NBR_IS_DR \<circ> snd) (snapshot ?w (eligible_routers ?w ?oi)) = [?x]"
    "filter (\<lambda>r. NBR_IS_BDR (snd r) \<and> \<not> NBR_IS_DR (snd r)) (snapshot ?w (eligible_routers ?w ?oi)) = [?y]"
    unfolding rs by (simp_all add: NBR_IS_DR_def NBR_IS_BDR_def sample_nbr_def)
  from dr_election_stable [where plugins = "\<lambda>_. None", OF w(1,2) refl refl this w(3,4)] show ?thesis by blast
qed

text \<open>
  C36. What a pluglet that replaces the election returns is not checked.  If it returns a value from 8 to 255
  on an interface in state DROther or Backup, the event NeighborChange puts the interface into a state that the table of
  transitions does not have, and whatever event comes next reads outside of the table.
\<close>

theorem dr_election_rep_unchecked:
  assumes "plugins DR_ELECTION = Some \<lparr>hooks_PRE = [], hook_REP = Some (\<lambda>arg w. Some (v, w)), hooks_POST = []\<rparr>"
    and "plugins ISM_CHANGE_STATE = None" "if_at w i = Some oi" "oi_state oi \<in> {ISM_DROther, ISM_Backup}"
    and "area_at w (oi_area oi) = Some ar" "8 \<le> unat v" "unat v < 256"
  shows "\<exists>w'. ospf_ism_event plugins i ISM_NeighborChange w = Some w' \<and> (\<forall>plugins' event. ospf_ism_event plugins' i event w' = None)"
proof -
  define st :: u32 where "st = ucast v"
  have "unat st = unat v" using assms(7) by (simp add: st_def unsigned_ucast_eq take_bit_nat_eq_self)
  moreover from this have "unat (ucast st :: u8) = unat v" using assms(7) by (simp add: unsigned_ucast_eq take_bit_nat_eq_self)
  ultimately have st: "unat st = unat v" "unat (ucast st :: u8) = unat v" by simp_all
  then have ne: "st \<noteq> 0" "st \<noteq> ucast (oi_state oi)" "st \<noteq> 1" "st \<noteq> 7"
    using assms(4,6) by (auto simp: ism_states)
  have entry: "ism_entry (ucast st) event = None" for event using st(2) assms(6) by (simp add: ism_entry_def ISM_def)
  have down: "oi_state oi \<noteq> ISM_Down" "oi_state oi \<noteq> ISM_DR" "ism_entry (oi_state oi) ISM_NeighborChange = Some (Ism_neighbor_change, 0)"
    using assms(4) by (auto simp: ism_states ism_entry_def ISM_def ISM_NeighborChange_def)
  have ii: "i < length (if_heap w)" "if_heap w ! i = oi" using assms(3) by (auto simp: if_at_def split: if_splits)
  have "\<exists>w'. ism_change_body i st w = Some w' \<and> length (if_heap w') = length (if_heap w) \<and> oi_state (if_heap w' ! i) = ucast st"
    using assms(3,5) ii ne down
    by (auto simp: ism_change_body_def change_network_lsa_def upd_if_def upd_area_def call_def Let_def if_at_def area_at_def
        ism_states(2,8) split: if_splits)
  then obtain w1 where w1: "ism_change_body i st w = Some w1" "length (if_heap w1) = length (if_heap w)" "oi_state (if_heap w1 ! i) = ucast st"
    by blast
  define w' where "w' = w1\<lparr>if_heap := (if_heap w1)[i := ism_timers (if_heap w1 ! i)]\<rparr>"
  have "ospf_ism_event plugins i ISM_NeighborChange w = Some w'"
    using assms(1,2,3) down(3) ne(1,2) w1 ii
    by (simp add: ospf_ism_event_def ism_event_def ism_call_def ospf_dr_election_def with_plugins_def st_def [symmetric]
        ism_change_state_def ism_timer_set_def upd_if_def w'_def) (simp add: if_at_def)
  moreover have "if_at w' i = Some (ism_timers (if_heap w1 ! i))" using w1(2) ii by (simp add: w'_def if_at_def)
  moreover have "oi_state (ism_timers oi') = oi_state oi'" for oi'
    by (simp add: ism_timers_def OSPF_HELLO_TIMER_ON_def)
  ultimately show ?thesis using w1(3) entry by (auto simp: ospf_ism_event_def ism_event_def)
qed

theorem dr_election_rep_unchecked_witness:
  "\<exists>w'. ospf_ism_event ((\<lambda>_. None)(DR_ELECTION := Some \<lparr>hooks_PRE = [], hook_REP = Some (\<lambda>arg w. Some (8, w)), hooks_POST = []\<rparr>)) 0
     ISM_NeighborChange (sample_world\<lparr>if_heap := [sample_if\<lparr>oi_state := ISM_DROther\<rparr>]\<rparr>) = Some w' \<and>
     (\<forall>plugins' event. ospf_ism_event plugins' 0 event w' = None)"
  by (rule dr_election_rep_unchecked [where v = 8 and oi = "sample_if\<lparr>oi_state := ISM_DROther\<rparr>" and ar = sample_area])
     (simp_all add: sample_eval area_at_def DR_ELECTION_def ISM_CHANGE_STATE_def)

end
