(* ===== verification/Spec2Isabelle.thy ===== *)
theory Spec2Isabelle
  imports Ubpf_Correct Ubpf_Loader Heap_Correct Memcpy Checksum Pqueue Plugins_Correct Flood_Correct Ism_Correct
begin

text \<open>
  The repository is the routing suite FRRouting 6.0.2 whose OSPF daemon was made flexible: at chosen insertion points
  the daemon runs \<^emph>\<open>pluglets\<close>, eBPF programs that are loaded while it works, before, after or in place of its own code.
  This development models the machinery of the plugins and the core of OSPF that they are inserted into.

  \<^bold>\<open>The parts and how they interact.\<close>  A user sends the name of an ELF file, an insertion point and an anchor (PRE, REP,
  POST) to the daemon (\<^verbatim>\<open>ospfd/plugins_manager\<close>).  The plugin manager creates a uBPF virtual machine (\<^verbatim>\<open>ubpf/vm\<close>), registers
  the functions of the API, loads and validates the program and puts the pluglet into a table (\<^verbatim>\<open>ubpf/tools/ubpf_manager.c\<close>).  The daemon
  executes the pluglets of an insertion point in the interpreter; they allocate in a heap of their own
  (\<^verbatim>\<open>ubpf/tools/heap_management.c\<close>) and copy with \<^verbatim>\<open>ubpf/tools/my_memcpy.c\<close>.  The daemon keeps LSAs in databases
  (\<^verbatim>\<open>ospfd/ospf_lsa.c\<close>, \<^verbatim>\<open>ospf_lsdb.c\<close>), floods them to neighbours (\<^verbatim>\<open>ospf_flood.c\<close>) and runs a state machine per
  interface (\<^verbatim>\<open>ospf_ism.c\<close>, with the election of the designated router) and per neighbour (\<^verbatim>\<open>ospf_nsm.c\<close>,
  \<^verbatim>\<open>ospf_neighbor.c\<close>).  LSAs are protected by checksums (\<^verbatim>\<open>lib/checksum.c\<close>), and the shortest path
  calculation uses a priority queue (\<^verbatim>\<open>lib/pqueue.c\<close>).

  \<^bold>\<open>The theories.\<close>
  \<^item> \<open>Prelude\<close>: C integer types as words, shared facts, and the locales \<open>stepper\<close> and \<open>bounded_stepper\<close> of a machine that is run
    step by step. \<open>Memory\<close>: the byte-addressed memory of the process.
  \<^item> \<open>Ebpf\<close>, \<open>Ubpf_Vm\<close>, \<open>Ubpf_Exec\<close>: \<^verbatim>\<open>ebpf.h\<close> and \<^verbatim>\<open>ubpf_vm.c\<close>; one definition per function, the interpreter as a step function
    \<open>ubpf_step\<close> with one equation per group of opcodes.  \<open>Ubpf_Correct\<close>: the loader accepts exactly the well-formed programs, a loaded
    program stays inside its code, its stack and its packet and changes no foreign register, programs without backward jumps
    terminate; and two programs on which the checks are not enough.  \<open>Ubpf_Loader\<close>: \<^verbatim>\<open>ubpf_loader.c\<close>; its bounds check is exact
    and what it loads is well-formed.
  \<^item> \<open>Heap_Management\<close>, \<open>Heap_Invariant\<close>, \<open>Heap_Correct\<close>: the heap of a plugin with its metadata in the memory, the invariant of the
    list of blocks, and the contract of an allocator (locale \<open>region_allocator\<close>), which the heap is an instance of.
  \<^item> \<open>Memcpy\<close>: word-wise copying and filling equal their byte-wise definitions.  \<open>Checksum\<close>: the Internet checksum is the one's complement
    sum, the accumulators of the Fletcher checksum do not overflow.  \<open>Pqueue\<close>: the binary heap is a priority queue (locale
    \<open>priority_queue\<close>) and keeps the recorded positions.
  \<^item> \<open>Plugins_Manager\<close>, \<open>Plugins_Correct\<close>: \<^verbatim>\<open>ubpf_manager.c\<close> and \<^verbatim>\<open>plugins_manager.c\<close>; the table owns its pluglets, an injection appends to its
    anchor, an execution restores the manager, the release gives everything back; a refused program leaves an invalid pluglet behind.
  \<^item> \<open>Ospf_Lsa\<close>, \<open>Lsdb\<close>, \<open>Lsdb_Correct\<close>: LSA objects with their locks, and the database as a keyed table (locale \<open>keyed_table\<close>) with
    counters; the locks count the references, so that no LSA is used after it is freed, and the database refines a map.
  \<^item> \<open>Ospf_State\<close>: the records for \<^verbatim>\<open>struct ospf\<close>, \<^verbatim>\<open>ospf_area\<close>, \<^verbatim>\<open>ospf_interface\<close> and \<^verbatim>\<open>ospf_neighbor\<close>, and the insertion points.
    \<open>Flood\<close>, \<open>World_Inv\<close>, \<open>Flood_Correct\<close>: \<^verbatim>\<open>ospf_flood.c\<close>; the lists of a neighbour (locale \<open>nbr_list\<close>, interpreted for the
    retransmission, request and summary lists) and that flooding reaches every neighbour it is due to.
  \<^item> \<open>Ism\<close>, \<open>Neighbor\<close>, \<open>Nsm\<close>, \<open>Ism_Event\<close>: the two state machines with their tables, actions and timers.  \<open>Ism_Correct\<close>: the election
    follows RFC 2328, ends in a role of the interface, and is final when the routers agree.  \<open>Sample_Router\<close>: a router for the witnesses.

  \<^bold>\<open>Conventions.\<close>  Machine integers are words where their width matters.  An object is a record in a heap indexed by its pointer.
  The value \<open>None\<close> of an operation is an outcome for which the code has no behaviour (NULL, a freed object, a failed assertion) or that it
  does not return from; the virtual machine and the ELF loader have a value of their own for every such outcome.  Functions of the API,
  plugins at an insertion point, files and allocations are arguments.  Calls into parts of the daemon that are not modelled are recorded
  in order in the field \<open>calls\<close>.

  \<^bold>\<open>Bounds and fuel.\<close>  \<open>ubpf_exec\<close> takes the number of steps: \<open>None\<close> means that they were not enough, and for programs without backward
  jumps as many steps as there are instructions are shown to be enough.  The searches of the plugin heap are partial functions,
  shown to return on every well-formed heap.  All other loops are total functions.

  \<^bold>\<open>Not modelled.\<close>  The JIT compiler (its result is an argument of \<open>compile_and_exec_jit\<close>); the functions of the plugin API, which copy C structures
  whose layout is not part of the model; sockets, packets and the command line; the shortest path calculation and the routing table, which
  work on raw LSA bodies; opaque LSAs; the other daemons and the rest of the library.  The concurrency of the
  plugin manager's thread with the daemon is not modelled beyond the mutex.
\<close>

end
